(* ===== verification/Prelude.thy ===== *)
theory Prelude
  imports Complex_Main
begin

text \<open>
  Vocabulary shared by every component.

  A component with state is a step function \<open>step :: 's \<Rightarrow> 'e \<Rightarrow> 's\<close>, one event per
  callback the browser or React can deliver. \<open>run\<close> folds it over a sequence of events,
  and \<open>run_ok\<close> says that every event of the sequence is one the environment may deliver
  in the state it meets. The locales \<open>machine_inv\<close> and \<open>machine_rel\<close> lift a one-step
  law to all runs; each component interprets them on its own step function.
\<close>

named_theorems leaf_simps \<open>the leaves of a pane tree after an operation\<close>
named_theorems id_simps \<open>the node identifiers of a pane tree after an operation\<close>
named_theorems step_simps \<open>unfolding of the handlers of a state machine\<close>

section \<open>Runs of a step function\<close>

fun run :: "('s \<Rightarrow> 'e \<Rightarrow> 's) \<Rightarrow> 's \<Rightarrow> 'e list \<Rightarrow> 's" where
  "run step s [] = s"
| "run step s (e # es) = run step (step s e) es"

fun run_ok :: "('s \<Rightarrow> 'e \<Rightarrow> 's) \<Rightarrow> ('s \<Rightarrow> 'e \<Rightarrow> bool) \<Rightarrow> 's \<Rightarrow> 'e list \<Rightarrow> bool" where
  "run_ok step ok s [] = True"
| "run_ok step ok s (e # es) = (ok s e \<and> run_ok step ok (step s e) es)"

lemma run_append [simp]: "run step s (xs @ ys) = run step (run step s xs) ys"
  by (induction xs arbitrary: s) auto

lemma run_ok_append [simp]:
  "run_ok step ok s (xs @ ys) = (run_ok step ok s xs \<and> run_ok step ok (run step s xs) ys)"
  by (induction xs arbitrary: s) auto

lemma run_ok_trivial: "(\<And>s e. ok s e) \<Longrightarrow> run_ok step ok s es"
  by (induction es arbitrary: s) auto

locale machine_inv =
  fixes step :: "'s \<Rightarrow> 'e \<Rightarrow> 's"
    and ok :: "'s \<Rightarrow> 'e \<Rightarrow> bool"
    and inv :: "'s \<Rightarrow> bool"
  assumes step_inv: "inv s \<Longrightarrow> ok s e \<Longrightarrow> inv (step s e)"
begin

lemma run_inv: "inv s \<Longrightarrow> run_ok step ok s es \<Longrightarrow> inv (run step s es)"
  by (induction es arbitrary: s) (auto intro: step_inv)

lemma run_inv_prefix:
  assumes "inv s" and "run_ok step ok s (xs @ ys)"
  shows "inv (run step s xs)"
  using assms by (auto intro: run_inv)

end

locale machine_rel =
  fixes step :: "'s \<Rightarrow> 'e \<Rightarrow> 's"
    and rel :: "'s \<Rightarrow> 's \<Rightarrow> bool"
  assumes rel_refl: "rel s s"
    and rel_trans: "rel s t \<Longrightarrow> rel t u \<Longrightarrow> rel s u"
    and step_rel: "rel s (step s e)"
begin

lemma run_rel: "rel s (run step s es)"
  by (induction es arbitrary: s) (auto intro: rel_refl rel_trans step_rel)

end

section \<open>Lists\<close>

lemma filter_neq_map_fst:
  "map fst (filter (\<lambda>p. fst p \<noteq> i) xs) = filter (\<lambda>j. j \<noteq> i) (map fst xs)"
  by (induction xs) auto

lemma map_id_on: "(\<And>x. x \<in> set xs \<Longrightarrow> f x = x) \<Longrightarrow> map f xs = xs"
  by (simp add: map_idI)

lemma distinct_map_filter: "distinct (map f xs) \<Longrightarrow> distinct (map f (filter P xs))"
  by (induction xs) auto

lemma takeWhile_append_stop:
  "(\<And>x. x \<in> set xs \<Longrightarrow> P x) \<Longrightarrow> \<not> P y \<Longrightarrow> takeWhile P (xs @ y # ys) = xs"
  by (induction xs) auto

text \<open>A separator that does not occur in the first parts determines the split.\<close>

lemma append_sep_inject:
  assumes "c \<notin> set xs" and "c \<notin> set ys" and "xs @ c # us = ys @ c # vs"
  shows "xs = ys \<and> us = vs"
  using assms
proof (induction xs arbitrary: ys)
  case Nil
  then show ?case by (cases ys) auto
next
  case (Cons x xs)
  then show ?case by (cases ys) auto
qed

section \<open>Options\<close>

definition or_else :: "'a option \<Rightarrow> 'a \<Rightarrow> 'a" where
  "or_else x d = (case x of None \<Rightarrow> d | Some y \<Rightarrow> y)"

lemma or_else_simps [simp]: "or_else None d = d" "or_else (Some y) d = y"
  by (simp_all add: or_else_def)

end
