(* ===== verification/JsBase.thy ===== *)
theory JsBase
  imports Prelude
begin

text \<open>
  The part of JavaScript the modelled code computes with: numbers with \<open>NaN\<close> and the two
  infinities, \<open>Math.min\<close>/\<open>Math.max\<close>/\<open>Math.floor\<close>, decimal and base-36 printing,
  \<open>parseInt\<close>, \<open>String.prototype.trim\<close>, and JSON values with property access.

  Finite numbers are exact rationals: comparisons, \<open>min\<close> and \<open>max\<close> agree with IEEE
  doubles, rounding of sums and quotients is not modelled. Strings are sequences of bytes
  (UTF-8); \<open>trim\<close> removes the ASCII white space.
\<close>

section \<open>Numbers\<close>

datatype jsnum = NaN | NegInf | PosInf | Num rat

fun js_lt :: "jsnum \<Rightarrow> jsnum \<Rightarrow> bool" where
  "js_lt NaN y = False"
| "js_lt (Num a) (Num b) = (a < b)"
| "js_lt (Num a) PosInf = True"
| "js_lt NegInf (Num b) = True"
| "js_lt NegInf PosInf = True"
| "js_lt x y = False"

definition js_le :: "jsnum \<Rightarrow> jsnum \<Rightarrow> bool" where
  "js_le x y = (x \<noteq> NaN \<and> y \<noteq> NaN \<and> \<not> js_lt y x)"

definition js_max :: "jsnum \<Rightarrow> jsnum \<Rightarrow> jsnum" where
  "js_max x y = (if x = NaN \<or> y = NaN then NaN else if js_lt x y then y else x)"

definition js_min :: "jsnum \<Rightarrow> jsnum \<Rightarrow> jsnum" where
  "js_min x y = (if x = NaN \<or> y = NaN then NaN else if js_lt y x then y else x)"

fun js_neg :: "jsnum \<Rightarrow> jsnum" where
  "js_neg NaN = NaN"
| "js_neg NegInf = PosInf"
| "js_neg PosInf = NegInf"
| "js_neg (Num a) = Num (- a)"

fun js_add :: "jsnum \<Rightarrow> jsnum \<Rightarrow> jsnum" where
  "js_add NaN y = NaN"
| "js_add x NaN = NaN"
| "js_add (Num a) (Num b) = Num (a + b)"
| "js_add (Num a) y = y"
| "js_add x (Num b) = x"
| "js_add x y = (if x = y then x else NaN)"

definition js_sub :: "jsnum \<Rightarrow> jsnum \<Rightarrow> jsnum" where
  "js_sub x y = js_add x (js_neg y)"

text \<open>Division as the code uses it: the divisor is a length, a positive zero or a finite
  number. A zero divisor gives \<open>NaN\<close> or an infinity; it never raises.\<close>

fun js_div :: "jsnum \<Rightarrow> jsnum \<Rightarrow> jsnum" where
  "js_div NaN y = NaN"
| "js_div x NaN = NaN"
| "js_div (Num a) (Num b) =
     (if b = 0 then (if a = 0 then NaN else if a > 0 then PosInf else NegInf) else Num (a / b))"
| "js_div (Num a) y = Num 0"
| "js_div PosInf (Num b) = (if b \<ge> 0 then PosInf else NegInf)"
| "js_div NegInf (Num b) = (if b \<ge> 0 then NegInf else PosInf)"
| "js_div x y = NaN"

fun js_floor :: "jsnum \<Rightarrow> jsnum" where
  "js_floor (Num a) = Num (of_int \<lfloor>a\<rfloor>)"
| "js_floor x = x"

fun js_isFinite :: "jsnum \<Rightarrow> bool" where
  "js_isFinite (Num a) = True"
| "js_isFinite x = False"

lemma js_max_Num [simp]: "js_max (Num a) (Num b) = Num (max a b)"
  by (auto simp: js_max_def max_def)

lemma js_min_Num [simp]: "js_min (Num a) (Num b) = Num (min a b)"
  by (auto simp: js_min_def min_def)

lemma js_max_NaN [simp]: "js_max NaN y = NaN" "js_max x NaN = NaN"
  by (simp_all add: js_max_def)

lemma js_min_NaN [simp]: "js_min NaN y = NaN" "js_min x NaN = NaN"
  by (simp_all add: js_min_def)

lemma js_max_inf [simp]: "js_max (Num a) PosInf = PosInf" "js_max (Num a) NegInf = Num a"
  by (simp_all add: js_max_def)

lemma js_min_inf [simp]: "js_min (Num a) PosInf = Num a" "js_min (Num a) NegInf = NegInf"
  by (simp_all add: js_min_def)

lemma js_le_Num [simp]: "js_le (Num a) (Num b) = (a \<le> b)"
  by (auto simp: js_le_def)

lemma js_sub_Num [simp]: "js_sub (Num a) (Num b) = Num (a - b)"
  by (simp add: js_sub_def)

text \<open>\<open>Math.min(hi, Math.max(lo, x))\<close>, the clamp the code writes in several places.\<close>

lemma js_clamp_range:
  assumes "lo \<le> hi" and "x \<noteq> NaN"
  shows "\<exists>r. js_min (Num hi) (js_max (Num lo) x) = Num r \<and> lo \<le> r \<and> r \<le> hi"
  using assms by (cases x) auto

section \<open>Printing and reading integers\<close>

definition digit_char :: "nat \<Rightarrow> char" where
  "digit_char d = ''0123456789abcdefghijklmnopqrstuvwxyz'' ! d"

text \<open>\<open>Number.prototype.toString(radix)\<close> of a non-negative integer; radix 10 or 36.\<close>

fun nat_str :: "nat \<Rightarrow> nat \<Rightarrow> string" where
  "nat_str b n =
     (if b < 2 \<or> n < b then [digit_char n] else nat_str b (n div b) @ [digit_char (n mod b)])"

declare nat_str.simps [simp del]

definition is_digit :: "char \<Rightarrow> bool" where
  "is_digit c = (c \<in> set ''0123456789'')"

definition digit_val :: "char \<Rightarrow> nat" where
  "digit_val c = of_char c - 48"

definition dec_val :: "string \<Rightarrow> nat" where
  "dec_val ds = foldl (\<lambda>a c. a * 10 + digit_val c) 0 ds"

definition int_str :: "int \<Rightarrow> string" where
  "int_str i = (if i < 0 then ''-'' @ nat_str 10 (nat (- i)) else nat_str 10 (nat i))"

lemma less_10_cases:
  fixes d :: nat
  assumes "d < 10"
  shows "d = 0 \<or> d = 1 \<or> d = 2 \<or> d = 3 \<or> d = 4 \<or> d = 5 \<or> d = 6 \<or> d = 7 \<or> d = 8 \<or> d = 9"
  using assms by presburger

lemma digit_char_digit: "d < 10 \<Longrightarrow> is_digit (digit_char d)"
  by (drule less_10_cases) (elim disjE, simp_all add: is_digit_def digit_char_def)

lemma digit_val_char: "d < 10 \<Longrightarrow> digit_val (digit_char d) = d"
  by (drule less_10_cases) (elim disjE, simp_all add: digit_val_def digit_char_def)

lemma digit_char_no_dash: "d < 36 \<Longrightarrow> digit_char d \<noteq> CHR ''-''"
proof -
  assume d: "d < 36"
  have "length ''0123456789abcdefghijklmnopqrstuvwxyz'' = 36" by simp
  then have "digit_char d \<in> set ''0123456789abcdefghijklmnopqrstuvwxyz''"
    unfolding digit_char_def using d by (metis nth_mem)
  then show ?thesis by auto
qed

lemma nat_str_digits: "\<forall>c \<in> set (nat_str 10 n). is_digit c"
proof (induction "10::nat" n rule: nat_str.induct)
  case (1 n)
  show ?case
  proof (cases "n < 10")
    case True
    then show ?thesis by (subst nat_str.simps) (simp add: digit_char_digit)
  next
    case False
    with "1" have "\<forall>c \<in> set (nat_str 10 (n div 10)). is_digit c" by simp
    with False show ?thesis by (subst nat_str.simps) (auto simp: digit_char_digit)
  qed
qed

lemma nat_str_nonempty [simp]: "nat_str b n \<noteq> []"
  by (subst nat_str.simps) simp

lemma nat_str_no_dash:
  assumes "b \<le> 36" and "2 \<le> b"
  shows "CHR ''-'' \<notin> set (nat_str b n)"
  using assms
proof (induction b n rule: nat_str.induct)
  case (1 b n)
  show ?case
  proof (cases "n < b")
    case True
    with "1.prems" show ?thesis
      by (subst nat_str.simps) (use digit_char_no_dash [of n] in force)
  next
    case False
    with "1" have "CHR ''-'' \<notin> set (nat_str b (n div b))" by simp
    moreover have "n mod b < 36"
      using "1.prems" by (meson le_trans mod_less_divisor not_le order_less_le_trans zero_less_numeral)
    ultimately show ?thesis using False "1.prems"
      by (subst nat_str.simps) (use digit_char_no_dash [of "n mod b"] in force)
  qed
qed

lemma dec_val_append [simp]: "dec_val (xs @ [c]) = dec_val xs * 10 + digit_val c"
  by (simp add: dec_val_def)

lemma dec_val_nat_str [simp]: "dec_val (nat_str 10 n) = n"
proof (induction "10::nat" n rule: nat_str.induct)
  case (1 n)
  show ?case
  proof (cases "n < 10")
    case True
    then show ?thesis by (subst nat_str.simps) (simp add: dec_val_def digit_val_char)
  next
    case False
    with "1" have "dec_val (nat_str 10 (n div 10)) = n div 10" by simp
    with False show ?thesis by (subst nat_str.simps) (simp add: digit_val_char)
  qed
qed

lemma nat_str_10_inject [simp]: "(nat_str 10 m = nat_str 10 n) = (m = n)"
  by (metis dec_val_nat_str)

section \<open>White space, parseInt and String\<close>

definition is_ws :: "char \<Rightarrow> bool" where
  "is_ws c = (c \<in> {CHR '' '', CHR 0x09, CHR 0x0A, CHR 0x0B, CHR 0x0C, CHR 0x0D})"

definition js_trim :: "string \<Rightarrow> string" where
  "js_trim s = rev (dropWhile is_ws (rev (dropWhile is_ws s)))"

text \<open>\<open>Number.parseInt(s, 10)\<close>: optional white space, an optional sign, the longest
  prefix of decimal digits; \<open>NaN\<close> when there is none.\<close>

definition split_sign :: "string \<Rightarrow> bool \<times> string" where
  "split_sign s = (case s of
       [] \<Rightarrow> (False, [])
     | c # r \<Rightarrow> if c = CHR ''-'' then (True, r) else if c = CHR ''+'' then (False, r) else (False, s))"

definition parseInt10 :: "string \<Rightarrow> jsnum" where
  "parseInt10 s =
     (let (neg, r) = split_sign (dropWhile is_ws s); ds = takeWhile is_digit r
      in if ds = [] then NaN
         else Num (of_int (if neg then - int (dec_val ds) else int (dec_val ds))))"

text \<open>\<open>String(x)\<close>: integers exactly; a fraction with the digits of its decimal
  expansion, at most 20 of them (doubles print the shortest digits that read back).\<close>

fun frac_digits :: "nat \<Rightarrow> rat \<Rightarrow> string" where
  "frac_digits 0 f = []"
| "frac_digits (Suc k) f =
     (if f = 0 then []
      else digit_char (nat \<lfloor>f * 10\<rfloor>) # frac_digits k (f * 10 - of_int \<lfloor>f * 10\<rfloor>))"

definition nonneg_str :: "rat \<Rightarrow> string" where
  "nonneg_str r =
     nat_str 10 (nat \<lfloor>r\<rfloor>) @
     (if r = of_int \<lfloor>r\<rfloor> then [] else ''.'' @ frac_digits 20 (r - of_int \<lfloor>r\<rfloor>))"

fun js_String :: "jsnum \<Rightarrow> string" where
  "js_String NaN = ''NaN''"
| "js_String PosInf = ''Infinity''"
| "js_String NegInf = ''-Infinity''"
| "js_String (Num r) = (if r < 0 then ''-'' @ nonneg_str (- r) else nonneg_str r)"

lemma is_digit_not_ws: "is_digit c \<Longrightarrow> \<not> is_ws c"
  unfolding is_digit_def is_ws_def by (simp, elim disjE, simp_all)

lemma is_digit_not_sign: "is_digit c \<Longrightarrow> c \<noteq> CHR ''-'' \<and> c \<noteq> CHR ''+''"
  by (auto simp: is_digit_def)

lemma dot_not_digit [simp]: "\<not> is_digit CHR ''.''"
  by (simp add: is_digit_def)

lemma parseInt10_digits:
  assumes "ds \<noteq> []" and "\<forall>c \<in> set ds. is_digit c"
    and "rest = [] \<or> \<not> is_digit (hd rest)"
  shows "parseInt10 (ds @ rest) = Num (of_nat (dec_val ds))"
proof -
  obtain c cs where ds: "ds = c # cs" using assms(1) by (cases ds) auto
  have c: "is_digit c" using assms(2) ds by simp
  have "dropWhile is_ws (ds @ rest) = ds @ rest"
    using c ds by (simp add: is_digit_not_ws)
  moreover have "split_sign (ds @ rest) = (False, ds @ rest)"
    using c ds by (simp add: split_sign_def is_digit_not_sign)
  moreover have "takeWhile is_digit (ds @ rest) = ds"
    using assms(2,3) by (cases rest) (auto simp: takeWhile_append_stop)
  ultimately show ?thesis
    using assms(1) by (simp add: parseInt10_def)
qed

text \<open>Printing a non-negative number and reading it back with \<open>parseInt\<close> keeps the
  integer part and drops the fraction.\<close>

lemma parseInt10_js_String:
  assumes "0 \<le> r"
  shows "parseInt10 (js_String (Num r)) = Num (of_int \<lfloor>r\<rfloor>)"
proof -
  let ?rest = "if r = of_int \<lfloor>r\<rfloor> then [] else ''.'' @ frac_digits 20 (r - of_int \<lfloor>r\<rfloor>)"
  have "parseInt10 (nat_str 10 (nat \<lfloor>r\<rfloor>) @ ?rest) = Num (of_nat (dec_val (nat_str 10 (nat \<lfloor>r\<rfloor>))))"
    by (rule parseInt10_digits) (use nat_str_digits in auto)
  with assms show ?thesis by (simp add: nonneg_str_def)
qed

section \<open>JSON values\<close>

text \<open>
  A value \<open>JSON.parse\<close> can return, and what \<open>JSON.stringify\<close> writes of it. An object is
  the list of its own properties; \<open>undefined\<close> is the \<open>None\<close> of a property read.
\<close>

datatype json =
    JNull
  | JBool bool
  | JNum jsnum
  | JStr string
  | JArr "json list"
  | JObj "(string \<times> json) list"

fun get_prop :: "json \<Rightarrow> string \<Rightarrow> json option" where
  "get_prop (JObj ps) k = map_of ps k"
| "get_prop _ k = None"

text \<open>\<open>typeof v === "object" && v !== null\<close>: objects and arrays.\<close>

fun is_record :: "json \<Rightarrow> bool" where
  "is_record (JObj ps) = True"
| "is_record (JArr xs) = True"
| "is_record _ = False"

text \<open>\<open>JSON.stringify\<close> writes a number that is not finite as \<open>null\<close>.\<close>

fun json_num :: "jsnum \<Rightarrow> json" where
  "json_num (Num r) = JNum (Num r)"
| "json_num _ = JNull"

fun json_opt_str :: "string option \<Rightarrow> json" where
  "json_opt_str None = JNull"
| "json_opt_str (Some s) = JStr s"

lemma get_prop_size: "get_prop v k = Some w \<Longrightarrow> size w < size v"
proof (cases v)
  case (JObj ps)
  assume "get_prop v k = Some w"
  with JObj have "(k, w) \<in> set ps" by (simp add: map_of_SomeD)
  then have "size w < Suc (size_list (size_prod (\<lambda>x. 0) size) ps)"
    by (induction ps) auto
  with JObj show ?thesis by simp
qed auto

end
