(* ===== verification/WsConn.thy ===== *)
theory WsConn
  imports JsBase
begin

text \<open>
  \<^verbatim>\<open>lib/ws.ts\<close>: the reconnecting WebSocket with its heartbeat, as a state machine. The state
  holds the closure variables of \<open>connectWs\<close>, every browser socket it ever created (with
  its \<open>readyState\<close> and the handlers still attached), the pending timers and the log of
  what the code asked of the browser and of its client. The handlers are those of the
  source; \<open>ws_step\<close> delivers one browser event, timer or client call.

  The browser is modelled by its documented behaviour: \<open>open\<close> only on a socket that is
  connecting, messages only on an open one, \<open>close\<close> once; \<open>WebSocket.close\<close> moves a
  connecting or open socket to closing. Timers fire in any order, at most once, and never
  after \<open>clearTimeout\<close>.
\<close>

section \<open>Sockets, timers, effects\<close>

datatype ready_state = CONNECTING | OPEN | CLOSING | CLOSED

fun ready_code :: "ready_state \<Rightarrow> nat" where
  "ready_code CONNECTING = 0"
| "ready_code OPEN = 1"
| "ready_code CLOSING = 2"
| "ready_code CLOSED = 3"

lemma ready_code_inject: "ready_code a = ready_code b \<Longrightarrow> a = b"
  by (cases a; cases b) auto

instantiation ready_state :: linorder
begin

definition less_eq_ready_state :: "ready_state \<Rightarrow> ready_state \<Rightarrow> bool" where
  "less_eq_ready_state a b = (ready_code a \<le> ready_code b)"

definition less_ready_state :: "ready_state \<Rightarrow> ready_state \<Rightarrow> bool" where
  "less_ready_state a b = (ready_code a < ready_code b)"

instance
  by standard (auto simp: less_eq_ready_state_def less_ready_state_def intro: ready_code_inject)

end

lemmas ready_order = less_eq_ready_state_def less_ready_state_def

record ws_sock =
  readyState :: ready_state
  onopen :: bool
  onmessage :: bool
  onerror :: bool
  onclose :: bool

datatype timer_cb = Retry | Tick nat | PongTimeout nat

datatype ws_out =
    NewSocket nat string
  | SockSend nat json
  | SockClose nat "nat option"
  | CbOpen
  | CbMessage json
  | CbError
  | CbClose nat

datatype frame = BinaryFrame | TextFrame "json option"  \<comment> \<open>\<open>None\<close>: \<open>JSON.parse\<close> throws\<close>

record ws_config =
  https :: bool
  host :: string
  wspath :: string
  reconnect :: "(nat \<Rightarrow> bool) option"
  closes_in_onClose :: "nat \<Rightarrow> bool"  \<comment> \<open>the client's \<open>onClose\<close> calls \<open>close()\<close> for this code\<close>

record ws_state =
  socks :: "ws_sock list"
  socket :: "nat option"
  closed :: bool
  reconnectVetoed :: bool
  attempt :: nat
  retryTimer :: nat
  pingTimer :: nat
  pongTimer :: nat
  awaitingPong :: bool
  timers :: "(nat \<times> timer_cb \<times> nat) list"
  nextTimer :: nat
  listening :: bool
  out :: "ws_out list"

definition PING_INTERVAL_MS :: nat where "PING_INTERVAL_MS = 20000"
definition PONG_TIMEOUT_MS :: nat where "PONG_TIMEOUT_MS = 10000"
definition CLOSE_PING_TIMEOUT :: nat where "CLOSE_PING_TIMEOUT = 4000"

definition emit :: "ws_out \<Rightarrow> ws_state \<Rightarrow> ws_state" where
  "emit x st = st\<lparr>out := out st @ [x]\<rparr>"

definition clearTimeout :: "nat \<Rightarrow> ws_state \<Rightarrow> ws_state" where
  "clearTimeout k st = st\<lparr>timers := filter (\<lambda>t. fst t \<noteq> k) (timers st)\<rparr>"

definition setTimeout :: "timer_cb \<Rightarrow> nat \<Rightarrow> ws_state \<Rightarrow> nat \<times> ws_state" where
  "setTimeout cb d st =
     (nextTimer st, st\<lparr>timers := timers st @ [(nextTimer st, cb, d)], nextTimer := Suc (nextTimer st)\<rparr>)"

definition sock_ready :: "nat \<Rightarrow> ws_state \<Rightarrow> ready_state" where
  "sock_ready i st = (if i < length (socks st) then readyState (socks st ! i) else CLOSED)"

definition sock_map :: "nat \<Rightarrow> (ws_sock \<Rightarrow> ws_sock) \<Rightarrow> ws_state \<Rightarrow> ws_state" where
  "sock_map i f st = (if i < length (socks st) then st\<lparr>socks := (socks st)[i := f (socks st ! i)]\<rparr> else st)"

text \<open>\<open>WebSocket.close(code)\<close>.\<close>

definition sock_close :: "nat \<Rightarrow> nat option \<Rightarrow> ws_state \<Rightarrow> ws_state" where
  "sock_close i code st =
     emit (SockClose i code)
       (sock_map i (\<lambda>s. s\<lparr>readyState := max (readyState s) CLOSING\<rparr>) st)"

section \<open>The closure of connectWs\<close>

definition ws_url :: "ws_config \<Rightarrow> string" where
  "ws_url cfg = (if https cfg then ''wss:'' else ''ws:'') @ ''//'' @ host cfg @ wspath cfg"

definition ping_msg :: json where
  "ping_msg = JObj [(''type'', JStr ''ping'')]"

definition isPong :: "json \<Rightarrow> bool" where
  "isPong msg = (is_record msg \<and> get_prop msg ''type'' = Some (JStr ''pong''))"

definition clearTimers :: "ws_state \<Rightarrow> ws_state" where
  "clearTimers st = (clearTimeout (pongTimer st) (clearTimeout (pingTimer st) st))\<lparr>awaitingPong := False\<rparr>"

definition reconnect_delay :: "nat \<Rightarrow> nat" where
  "reconnect_delay n = min (1000 * 2 ^ n) 10000"

definition scheduleReconnect :: "ws_state \<Rightarrow> ws_state" where
  "scheduleReconnect st =
     (if closed st then st
      else case setTimeout Retry (reconnect_delay (attempt st)) (st\<lparr>attempt := attempt st + 1\<rparr>) of
        (k, st') \<Rightarrow> st'\<lparr>retryTimer := k\<rparr>)"

definition open_ws :: "ws_config \<Rightarrow> ws_state \<Rightarrow> ws_state" where
  "open_ws cfg st =
     (if closed st then st
      else let
        st1 = (case socket st of None \<Rightarrow> st
          | Some prev \<Rightarrow> sock_close prev None
              (sock_map prev (\<lambda>s. s\<lparr>onopen := False, onmessage := False, onerror := False, onclose := False\<rparr>) st));
        i = length (socks st1)
      in emit (NewSocket i (ws_url cfg))
           (st1\<lparr>socks := socks st1 @ [\<lparr>readyState = CONNECTING, onopen = True, onmessage = True,
                                        onerror = True, onclose = True\<rparr>],
                socket := Some i\<rparr>))"

definition tick :: "nat \<Rightarrow> ws_state \<Rightarrow> ws_state" where
  "tick i st =
     (if closed st \<or> sock_ready i st \<noteq> OPEN then st
      else if awaitingPong st then sock_close i (Some CLOSE_PING_TIMEOUT) st
      else case setTimeout (PongTimeout i) PONG_TIMEOUT_MS
                 (emit (SockSend i ping_msg) (st\<lparr>awaitingPong := True\<rparr>)) of
        (k, st1) \<Rightarrow> case setTimeout (Tick i) PING_INTERVAL_MS (st1\<lparr>pongTimer := k\<rparr>) of
          (k', st2) \<Rightarrow> st2\<lparr>pingTimer := k'\<rparr>)"

definition startHeartbeat :: "nat \<Rightarrow> ws_state \<Rightarrow> ws_state" where
  "startHeartbeat i st =
     (case setTimeout (Tick i) PING_INTERVAL_MS (clearTimers st) of (k, st') \<Rightarrow> st'\<lparr>pingTimer := k\<rparr>)"

definition pong_timeout :: "nat \<Rightarrow> ws_state \<Rightarrow> ws_state" where
  "pong_timeout i st = (if awaitingPong st then sock_close i (Some CLOSE_PING_TIMEOUT) st else st)"

definition ws_onopen :: "nat \<Rightarrow> ws_state \<Rightarrow> ws_state" where
  "ws_onopen i st = emit CbOpen (startHeartbeat i (st\<lparr>attempt := 0\<rparr>))"

definition ws_onmessage :: "frame \<Rightarrow> ws_state \<Rightarrow> ws_state" where
  "ws_onmessage fr st =
     (case fr of BinaryFrame \<Rightarrow> st
      | TextFrame None \<Rightarrow> st
      | TextFrame (Some parsed) \<Rightarrow>
          if isPong parsed then clearTimeout (pongTimer st) (st\<lparr>awaitingPong := False\<rparr>)
          else emit (CbMessage parsed) st)"

definition ws_onerror :: "ws_state \<Rightarrow> ws_state" where
  "ws_onerror st = emit CbError st"

definition ws_close :: "ws_state \<Rightarrow> ws_state" where
  "ws_close st =
     (let st1 = (clearTimeout (retryTimer st) (clearTimers (st\<lparr>closed := True\<rparr>)))\<lparr>listening := False\<rparr> in
      case socket st1 of None \<Rightarrow> st1
      | Some i \<Rightarrow> (sock_close i None (sock_map i (\<lambda>s. s\<lparr>onclose := False\<rparr>) st1))\<lparr>socket := None\<rparr>)"

definition ws_onclose :: "ws_config \<Rightarrow> nat \<Rightarrow> ws_state \<Rightarrow> ws_state" where
  "ws_onclose cfg code st =
     (let st1 = emit (CbClose code) (clearTimers st);
          st2 = (if closes_in_onClose cfg code then ws_close st1 else st1) in
      if closed st2 then st2
      else if \<not> (case reconnect cfg of None \<Rightarrow> True | Some f \<Rightarrow> f code) then
        clearTimeout (retryTimer st2) (st2\<lparr>reconnectVetoed := True\<rparr>)
      else scheduleReconnect st2)"

definition onVisibility :: "ws_config \<Rightarrow> bool \<Rightarrow> ws_state \<Rightarrow> ws_state" where
  "onVisibility cfg visible st =
     (if closed st \<or> reconnectVetoed st \<or> \<not> visible then st
      else if (case socket st of None \<Rightarrow> True | Some i \<Rightarrow> sock_ready i st \<noteq> OPEN) then
        open_ws cfg ((clearTimeout (retryTimer st) st)\<lparr>attempt := 0\<rparr>)
      else st)"

definition ws_send :: "json \<Rightarrow> ws_state \<Rightarrow> bool \<times> ws_state" where
  "ws_send msg st =
     (case socket st of None \<Rightarrow> (False, st)
      | Some i \<Rightarrow> if sock_ready i st \<noteq> OPEN then (False, st) else (True, emit (SockSend i msg) st))"

definition ws_blank :: ws_state where
  "ws_blank = \<lparr>socks = [], socket = None, closed = False, reconnectVetoed = False, attempt = 0,
     retryTimer = 0, pingTimer = 0, pongTimer = 0, awaitingPong = False, timers = [], nextTimer = 1,
     listening = True, out = []\<rparr>"

definition connectWs :: "ws_config \<Rightarrow> ws_state" where
  "connectWs cfg = open_ws cfg ws_blank"

section \<open>Events\<close>

datatype ws_event =
    SockOpened nat
  | SockMessage nat frame
  | SockErrored nat
  | SockClosed nat nat
  | TimerFires nat
  | Visibility bool
  | CallSend json
  | CallClose

fun timer_fires :: "ws_config \<Rightarrow> timer_cb \<Rightarrow> ws_state \<Rightarrow> ws_state" where
  "timer_fires cfg Retry st = open_ws cfg st"
| "timer_fires cfg (Tick i) st = tick i st"
| "timer_fires cfg (PongTimeout i) st = pong_timeout i st"

fun ws_step :: "ws_config \<Rightarrow> ws_state \<Rightarrow> ws_event \<Rightarrow> ws_state" where
  "ws_step cfg st (SockOpened i) =
     (if i < length (socks st) \<and> sock_ready i st = CONNECTING then
        let st1 = sock_map i (\<lambda>s. s\<lparr>readyState := OPEN\<rparr>) st in
        if onopen (socks st ! i) then ws_onopen i st1 else st1
      else st)"
| "ws_step cfg st (SockMessage i fr) =
     (if i < length (socks st) \<and> sock_ready i st = OPEN \<and> onmessage (socks st ! i)
      then ws_onmessage fr st else st)"
| "ws_step cfg st (SockErrored i) =
     (if i < length (socks st) \<and> sock_ready i st \<noteq> CLOSED \<and> onerror (socks st ! i)
      then ws_onerror st else st)"
| "ws_step cfg st (SockClosed i code) =
     (if i < length (socks st) \<and> sock_ready i st \<noteq> CLOSED then
        let st1 = sock_map i (\<lambda>s. s\<lparr>readyState := CLOSED\<rparr>) st in
        if onclose (socks st ! i) then ws_onclose cfg code st1 else st1
      else st)"
| "ws_step cfg st (TimerFires k) =
     (case map_of (timers st) k of None \<Rightarrow> st
      | Some (cb, d) \<Rightarrow> timer_fires cfg cb (clearTimeout k st))"
| "ws_step cfg st (Visibility v) = (if listening st then onVisibility cfg v st else st)"
| "ws_step cfg st (CallSend msg) = snd (ws_send msg st)"
| "ws_step cfg st CallClose = ws_close st"

lemmas ws_prims = emit_def clearTimeout_def setTimeout_def sock_map_def sock_close_def

section \<open>Invariant\<close>

text \<open>Sockets: only the current one can be connecting or open, and only it has handlers
  that lead to a reconnect.\<close>

definition sock_inv :: "ws_state \<Rightarrow> bool" where
  "sock_inv st =
     ((closed st \<longrightarrow> socket st = None) \<and>
      (\<not> closed st \<longrightarrow> socks st \<noteq> [] \<and> socket st = Some (length (socks st) - 1)) \<and>
      (\<forall>i < length (socks st). socket st \<noteq> Some i \<longrightarrow>
          CLOSING \<le> readyState (socks st ! i) \<and> \<not> onclose (socks st ! i)) \<and>
      (\<forall>i < length (socks st). socket st = Some i \<longrightarrow>
          onopen (socks st ! i) \<and> onmessage (socks st ! i) \<and> onerror (socks st ! i) \<and> onclose (socks st ! i)))"

text \<open>Timers: one handle per kind, so at most three are pending; a retry is pending only
  after the current socket has closed, a pong timeout only while a pong is awaited.\<close>

fun timer_kind_ok :: "ws_state \<Rightarrow> nat \<times> timer_cb \<times> nat \<Rightarrow> bool" where
  "timer_kind_ok st (k, Retry, d) =
     (k = retryTimer st \<and> k \<noteq> pingTimer st \<and> k \<noteq> pongTimer st \<and> \<not> closed st \<and> \<not> reconnectVetoed st
      \<and> sock_ready (length (socks st) - 1) st = CLOSED \<and> d \<le> 10000)"
| "timer_kind_ok st (k, Tick i, d) =
     (k = pingTimer st \<and> k \<noteq> retryTimer st \<and> k \<noteq> pongTimer st \<and> \<not> closed st)"
| "timer_kind_ok st (k, PongTimeout i, d) =
     (k = pongTimer st \<and> k \<noteq> retryTimer st \<and> k \<noteq> pingTimer st \<and> \<not> closed st \<and> awaitingPong st)"

definition timer_inv :: "ws_state \<Rightarrow> bool" where
  "timer_inv st =
     (distinct (map fst (timers st)) \<and> (\<forall>t \<in> set (timers st). fst t < nextTimer st \<and> timer_kind_ok st t)
      \<and> retryTimer st < nextTimer st \<and> pingTimer st < nextTimer st \<and> pongTimer st < nextTimer st)"

text \<open>Heartbeat: an open connection always has its next tick scheduled, and an unanswered
  ping always has its timeout scheduled.\<close>

definition beat_inv :: "ws_state \<Rightarrow> bool" where
  "beat_inv st =
     (\<forall>i. socket st = Some i \<longrightarrow> sock_ready i st = OPEN \<longrightarrow>
        (pingTimer st, Tick i, PING_INTERVAL_MS) \<in> set (timers st) \<and>
        (awaitingPong st \<longrightarrow> (pongTimer st, PongTimeout i, PONG_TIMEOUT_MS) \<in> set (timers st)))"

text \<open>A veto is only recorded when the current socket has closed.\<close>

definition veto_inv :: "ws_state \<Rightarrow> bool" where
  "veto_inv st = (reconnectVetoed st \<longrightarrow> \<not> closed st \<longrightarrow> sock_ready (length (socks st) - 1) st = CLOSED)"

definition ws_inv :: "ws_state \<Rightarrow> bool" where
  "ws_inv st = (sock_inv st \<and> timer_inv st \<and> beat_inv st \<and> veto_inv st)"

lemma ws_inv_connect: "ws_inv (connectWs cfg)"
  by (simp add: ws_inv_def sock_inv_def timer_inv_def beat_inv_def veto_inv_def connectWs_def
      open_ws_def ws_blank_def sock_ready_def emit_def Let_def)

lemma inv_open:
  assumes "sock_inv st" "timer_inv st" "\<not> closed st" "\<not> reconnectVetoed st"
    and "\<forall>t \<in> set (timers st). fst (snd t) \<noteq> Retry"
  shows "ws_inv (open_ws cfg st)"
proof -
  let ?n = "length (socks st) - 1"
  have s: "socket st = Some ?n" "socks st \<noteq> []" using assms(1,3) by (auto simp: sock_inv_def)
  have "sock_inv (open_ws cfg st)"
    using assms(1,3) s
    by (auto simp: sock_inv_def open_ws_def Let_def ws_prims nth_append nth_list_update)
  moreover have "timer_inv (open_ws cfg st)"
    using assms(2,3,5) s
    apply (auto simp: timer_inv_def open_ws_def Let_def ws_prims)
    apply (drule (1) bspec)+
    apply (rename_tac a b c; case_tac b; auto)
    done
  moreover have "beat_inv (open_ws cfg st)"
    using assms s by (auto simp: beat_inv_def open_ws_def Let_def ws_prims sock_ready_def nth_append)
  moreover have "veto_inv (open_ws cfg st)"
    using assms(3,4) s by (auto simp: veto_inv_def open_ws_def Let_def ws_prims)
  ultimately show ?thesis by (simp add: ws_inv_def)
qed

text \<open>Every pending timer is the one its handle names.\<close>

lemma timer_cases:
  assumes "timer_inv st" and "t \<in> set (timers st)"
  obtains d where "t = (retryTimer st, Retry, d)" and "\<not> closed st" and "\<not> reconnectVetoed st"
      and "sock_ready (length (socks st) - 1) st = CLOSED" and "d \<le> 10000"
      and "retryTimer st \<noteq> pingTimer st" and "retryTimer st \<noteq> pongTimer st"
  | i d where "t = (pingTimer st, Tick i, d)" and "\<not> closed st"
      and "pingTimer st \<noteq> retryTimer st" and "pingTimer st \<noteq> pongTimer st"
  | i d where "t = (pongTimer st, PongTimeout i, d)" and "\<not> closed st" and "awaitingPong st"
      and "pongTimer st \<noteq> retryTimer st" and "pongTimer st \<noteq> pingTimer st"
proof -
  obtain k cb d where t: "t = (k, cb, d)" by (cases t) auto
  have "timer_kind_ok st t" using assms by (auto simp: timer_inv_def)
  with t that show ?thesis by (cases cb) auto
qed

lemma timer_unique:
  assumes "timer_inv st" and "(k, a) \<in> set (timers st)" and "(k, b) \<in> set (timers st)"
  shows "a = b"
  using assms eq_key_imp_eq_value by (fastforce simp: timer_inv_def)

lemma kind_ok_cong:
  assumes "retryTimer s' = retryTimer s" "pingTimer s' = pingTimer s" "pongTimer s' = pongTimer s"
    "closed s' = closed s" "reconnectVetoed s' = reconnectVetoed s" "awaitingPong s' = awaitingPong s"
    "sock_ready (length (socks s') - 1) s' = sock_ready (length (socks s) - 1) s"
  shows "timer_kind_ok s' t = timer_kind_ok s t"
proof -
  obtain k cb d where t: "t = (k, cb, d)" by (cases t) auto
  show ?thesis using assms unfolding t by (cases cb) auto
qed

lemma clearTimeout_frame [simp]:
  "sock_inv (clearTimeout k st) = sock_inv st" "veto_inv (clearTimeout k st) = veto_inv st"
  "timer_kind_ok (clearTimeout k st) t = timer_kind_ok st t"
  "sock_ready i (clearTimeout k st) = sock_ready i st"
  by (simp_all add: sock_inv_def veto_inv_def clearTimeout_def sock_ready_def
      kind_ok_cong [of "st\<lparr>timers := filter (\<lambda>t. fst t \<noteq> k) (timers st)\<rparr>" st])

lemma timer_inv_clear: "timer_inv st \<Longrightarrow> timer_inv (clearTimeout k st)"
  by (auto simp: timer_inv_def clearTimeout_def distinct_map_filter
      kind_ok_cong [of "st\<lparr>timers := filter (\<lambda>t. fst t \<noteq> k) (timers st)\<rparr>" st] sock_ready_def)

text \<open>Once both heartbeat handles are cleared only a retry can be pending.\<close>

lemma cleared_timers:
  assumes "timer_inv st" and "t \<in> set (timers (clearTimers st))"
  shows "fst (snd t) = Retry"
  using assms by (auto simp: clearTimers_def clearTimeout_def elim!: timer_cases)

lemma clearTimers_frame [simp]:
  "sock_inv (clearTimers st) = sock_inv st" "veto_inv (clearTimers st) = veto_inv st"
  "sock_ready i (clearTimers st) = sock_ready i st"
  "closed (clearTimers st) = closed st" "socket (clearTimers st) = socket st"
  "socks (clearTimers st) = socks st" "reconnectVetoed (clearTimers st) = reconnectVetoed st"
  "retryTimer (clearTimers st) = retryTimer st" "attempt (clearTimers st) = attempt st"
  "nextTimer (clearTimers st) = nextTimer st" "out (clearTimers st) = out st"
  "awaitingPong (clearTimers st) = False" "listening (clearTimers st) = listening st"
  by (simp_all add: clearTimers_def clearTimeout_def sock_inv_def veto_inv_def sock_ready_def)

lemma timer_inv_clearTimers:
  assumes "timer_inv st"
  shows "timer_inv (clearTimers st)"
proof -
  have "timer_kind_ok (clearTimers st) t" if "t \<in> set (timers (clearTimers st))" for t
  proof -
    have "t \<in> set (timers st)" using that by (auto simp: clearTimers_def clearTimeout_def)
    with assms cleared_timers [OF assms that] show ?thesis
      by (auto simp: clearTimers_def clearTimeout_def sock_ready_def elim!: timer_cases)
  qed
  with assms show ?thesis
    by (auto simp: timer_inv_def clearTimers_def clearTimeout_def distinct_map_filter)
qed

lemma inv_startHeartbeat:
  assumes "sock_inv st" "timer_inv st" "veto_inv st" "socket st = Some i" "sock_ready i st = OPEN"
  shows "ws_inv (startHeartbeat i st)"
proof -
  have n: "i = length (socks st) - 1" "\<not> closed st" using assms(1,4) by (auto simp: sock_inv_def)
  have none: "timers (clearTimers st) = []"
  proof (rule ccontr)
    assume "timers (clearTimers st) \<noteq> []"
    then obtain t where t: "t \<in> set (timers (clearTimers st))" by (cases "timers (clearTimers st)") auto
    then have "t \<in> set (timers st)" by (auto simp: clearTimers_def clearTimeout_def)
    with cleared_timers [OF assms(2) t] assms(2,5) n show False by (auto elim!: timer_cases)
  qed
  have "pongTimer (clearTimers st) < nextTimer st" "retryTimer st < nextTimer st"
    using assms(2) by (auto simp: timer_inv_def clearTimers_def clearTimeout_def)
  with assms n none show ?thesis
    by (auto simp: ws_inv_def startHeartbeat_def setTimeout_def sock_inv_def timer_inv_def beat_inv_def
        veto_inv_def sock_ready_def split: if_splits)
qed

lemma ws_invD:
  "ws_inv st \<Longrightarrow> sock_inv st" "ws_inv st \<Longrightarrow> timer_inv st" "ws_inv st \<Longrightarrow> beat_inv st"
  "ws_inv st \<Longrightarrow> veto_inv st"
  by (simp_all add: ws_inv_def)

lemma current_socket:
  assumes "sock_inv st"
  shows "\<not> closed st \<Longrightarrow> socket st = Some (length (socks st) - 1) \<and> socks st \<noteq> []"
    and "i < length (socks st) \<Longrightarrow> sock_ready i st < CLOSING \<Longrightarrow> socket st = Some i"
    and "i < length (socks st) \<Longrightarrow> onclose (socks st ! i) \<Longrightarrow> socket st = Some i"
    and "socket st = Some i \<Longrightarrow> i < length (socks st)"
    and "socket st = Some i \<Longrightarrow> i = length (socks st) - 1"
    and "socket st = Some i \<Longrightarrow> \<not> closed st"
proof -
  have closed: "closed st \<Longrightarrow> socket st = None"
    and opn: "\<not> closed st \<Longrightarrow> socks st \<noteq> [] \<and> socket st = Some (length (socks st) - 1)"
    and other: "\<And>j. j < length (socks st) \<Longrightarrow> socket st \<noteq> Some j \<Longrightarrow>
      CLOSING \<le> readyState (socks st ! j) \<and> \<not> onclose (socks st ! j)"
    using assms by (auto simp: sock_inv_def)
  show "\<not> closed st \<Longrightarrow> socket st = Some (length (socks st) - 1) \<and> socks st \<noteq> []"
    using opn by blast
  show "i < length (socks st) \<Longrightarrow> sock_ready i st < CLOSING \<Longrightarrow> socket st = Some i"
    using other [of i] by (fastforce simp: sock_ready_def)
  show "i < length (socks st) \<Longrightarrow> onclose (socks st ! i) \<Longrightarrow> socket st = Some i"
    using other [of i] by blast
  show len: "socket st = Some i \<Longrightarrow> i < length (socks st)"
    using closed opn by (cases "closed st") auto
  show "socket st = Some i \<Longrightarrow> i = length (socks st) - 1"
    using closed opn by (cases "closed st") auto
  show "socket st = Some i \<Longrightarrow> \<not> closed st"
    using closed by auto
qed

lemma emit_frame [simp]:
  "ws_inv (emit x st) = ws_inv st"
  by (simp add: emit_def ws_inv_def sock_inv_def timer_inv_def beat_inv_def veto_inv_def sock_ready_def
      kind_ok_cong [of "st\<lparr>out := out st @ [x]\<rparr>" st])

text \<open>Asking a socket to close keeps the invariant if no other socket is the open one.\<close>

lemma inv_sock_close:
  assumes "sock_inv st" "timer_inv st" "veto_inv st"
    and only: "\<And>j. socket st = Some j \<Longrightarrow> sock_ready j st = OPEN \<Longrightarrow> j = i"
  shows "ws_inv (sock_close i c st)"
proof -
  let ?s = "sock_close i c st"
  have mx: "max r CLOSING \<noteq> OPEN" "max CLOSED CLOSING = CLOSED" for r
    by (auto simp: max_def ready_order)
  have still: "sock_ready j st = CLOSED \<Longrightarrow> sock_ready j ?s = CLOSED" for j
    by (auto simp: ws_prims sock_ready_def nth_list_update mx)
  have fld: "closed ?s = closed st" "socket ?s = socket st" "timers ?s = timers st"
    "length (socks ?s) = length (socks st)" "reconnectVetoed ?s = reconnectVetoed st"
    "retryTimer ?s = retryTimer st" "pingTimer ?s = pingTimer st" "pongTimer ?s = pongTimer st"
    "awaitingPong ?s = awaitingPong st" "nextTimer ?s = nextTimer st"
    by (simp_all add: ws_prims)
  have "timer_kind_ok ?s t" if "t \<in> set (timers st)" for t
    using assms(2) that still by (auto simp: fld elim!: timer_cases)
  then have "timer_inv ?s" using assms(2) by (simp add: timer_inv_def fld)
  moreover have "sock_inv ?s"
    using assms(1) by (auto simp: sock_inv_def ws_prims nth_list_update split: if_splits)
  moreover have "veto_inv ?s"
    using assms(3) still by (simp add: veto_inv_def fld)
  moreover have "sock_ready j ?s \<noteq> OPEN" if "socket st = Some j" for j
    using only [OF that] current_socket(4) [OF assms(1) that]
    by (cases "j = i") (auto simp: ws_prims sock_ready_def nth_list_update mx)
  ultimately show ?thesis by (simp add: ws_inv_def beat_inv_def fld)
qed

lemma open_no_retry:
  assumes "ws_inv st" "socket st = Some i" "sock_ready i st \<noteq> CLOSED"
  shows "\<forall>t \<in> set (timers st). fst (snd t) \<noteq> Retry" and "\<not> reconnectVetoed st"
proof -
  have i: "i = length (socks st) - 1" "\<not> closed st"
    using current_socket [OF ws_invD(1) [OF assms(1)]] assms(2) by blast+
  show "\<forall>t \<in> set (timers st). fst (snd t) \<noteq> Retry"
    using ws_invD(2) [OF assms(1)] assms(3) i by (auto elim!: timer_cases)
  show "\<not> reconnectVetoed st"
    using ws_invD(4) [OF assms(1)] assms(3) i by (auto simp: veto_inv_def)
qed

lemma inv_tick:
  assumes "ws_inv st" and "(k, Tick i, d) \<in> set (timers st)"
  shows "ws_inv (tick i (clearTimeout k st))"
proof -
  let ?s = "clearTimeout k st"
  note inv = ws_invD [OF assms(1)]
  have k: "k = pingTimer st" "pingTimer st \<noteq> retryTimer st" "pingTimer st \<noteq> pongTimer st" "\<not> closed st"
    using assms(2) inv(2) by (auto elim!: timer_cases)
  have s: "sock_inv ?s" "timer_inv ?s" "veto_inv ?s" using inv by (auto simp: timer_inv_clear)
  have fld: "closed ?s = closed st" "awaitingPong ?s = awaitingPong st" "socket ?s = socket st"
    "socks ?s = socks st" by (simp_all add: clearTimeout_def)
  show ?thesis
  proof (cases "sock_ready i st = OPEN")
    case False
    have "beat_inv ?s"
      unfolding beat_inv_def
    proof (intro allI impI)
      fix j assume j: "socket ?s = Some j" "sock_ready j ?s = OPEN"
      then have "(pingTimer st, Tick j, PING_INTERVAL_MS) \<in> set (timers st)"
        using inv(3) by (auto simp: beat_inv_def fld)
      from timer_unique [OF inv(2) this] assms(2) k have "j = i" by auto
      with j False show "(pingTimer ?s, Tick j, PING_INTERVAL_MS) \<in> set (timers ?s) \<and>
        (awaitingPong ?s \<longrightarrow> (pongTimer ?s, PongTimeout j, PONG_TIMEOUT_MS) \<in> set (timers ?s))" by simp
    qed
    with s False show ?thesis by (simp add: tick_def ws_inv_def)
  next
    case True
    then have "i < length (socks st)" by (auto simp: sock_ready_def split: if_splits)
    with True have cur: "socket st = Some i"
      using current_socket(2) [OF inv(1)] by (simp add: ready_order)
    have nr: "\<forall>t \<in> set (timers st). fst (snd t) \<noteq> Retry" "\<not> reconnectVetoed st"
      using open_no_retry [OF assms(1) cur] True by auto
    show ?thesis
    proof (cases "awaitingPong st")
      case True
      then show ?thesis
        using inv_sock_close [OF s, of i] cur k(4) \<open>sock_ready i st = OPEN\<close>
        by (simp add: tick_def fld)
    next
      case False
      have none: "timers ?s = []"
      proof (rule ccontr)
        assume "timers ?s \<noteq> []"
        then obtain t where t: "t \<in> set (timers ?s)" by (cases "timers ?s") auto
        then have "t \<in> set (timers st)" "fst t \<noteq> k" by (auto simp: clearTimeout_def)
        with nr(1) inv(2) False k(1) show False by (auto elim!: timer_cases)
      qed
      have i: "i = length (socks st) - 1" using current_socket(5) [OF inv(1) cur] .
      show ?thesis
        using inv s none cur k False \<open>sock_ready i st = OPEN\<close> nr(2) i
        by (auto simp: tick_def fld setTimeout_def emit_def ws_inv_def sock_inv_def timer_inv_def beat_inv_def
            veto_inv_def sock_ready_def clearTimeout_def PING_INTERVAL_MS_def PONG_TIMEOUT_MS_def)
    qed
  qed
qed

lemma inv_pong_timeout:
  assumes "ws_inv st" and "(k, PongTimeout i, d) \<in> set (timers st)"
  shows "ws_inv (pong_timeout i (clearTimeout k st))"
proof -
  let ?s = "clearTimeout k st"
  note inv = ws_invD [OF assms(1)]
  have k: "k = pongTimer st" "pongTimer st \<noteq> pingTimer st" "\<not> closed st" "awaitingPong st"
    using assms(2) inv(2) by (auto elim!: timer_cases)
  have s: "sock_inv ?s" "timer_inv ?s" "veto_inv ?s" using inv by (auto simp: timer_inv_clear)
  have fld: "awaitingPong ?s = awaitingPong st" "socket ?s = socket st" "reconnectVetoed ?s = reconnectVetoed st"
    by (simp_all add: clearTimeout_def)
  have "j = i" if "socket st = Some j" "sock_ready j st = OPEN" for j
  proof -
    have "(pongTimer st, PongTimeout j, PONG_TIMEOUT_MS) \<in> set (timers st)"
      using inv(3) that k(4) by (auto simp: beat_inv_def)
    from timer_unique [OF inv(2) this] assms(2) k(1) show ?thesis by auto
  qed
  then show ?thesis
    using inv_sock_close [OF s, of i] k(4) by (simp add: pong_timeout_def fld)
qed

lemma inv_onmessage:
  assumes "ws_inv st"
  shows "ws_inv (ws_onmessage fr st)"
proof -
  let ?s = "clearTimeout (pongTimer st) (st\<lparr>awaitingPong := False\<rparr>)"
  note inv = ws_invD [OF assms]
  have kind: "timer_kind_ok ?s t" if "t \<in> set (timers st)" "fst t \<noteq> pongTimer st" for t
    using inv(2) that by (auto simp: clearTimeout_def sock_ready_def elim!: timer_cases)
  have "timer_inv ?s"
    using inv(2) kind by (auto simp: timer_inv_def clearTimeout_def distinct_map_filter)
  moreover have "sock_inv ?s" "veto_inv ?s" using inv(1,4) by (auto simp: clearTimeout_def sock_inv_def veto_inv_def sock_ready_def)
  moreover have "beat_inv ?s"
    unfolding beat_inv_def
  proof (intro allI impI)
    fix i assume "socket ?s = Some i" "sock_ready i ?s = OPEN"
    then have i: "socket st = Some i" "sock_ready i st = OPEN"
      by (simp_all add: clearTimeout_def sock_ready_def split: if_splits)
    then have t: "(pingTimer st, Tick i, PING_INTERVAL_MS) \<in> set (timers st)"
      using inv(3) by (auto simp: beat_inv_def)
    then have "pingTimer st \<noteq> pongTimer st" using inv(2) by (auto elim!: timer_cases)
    with t show "(pingTimer ?s, Tick i, PING_INTERVAL_MS) \<in> set (timers ?s) \<and>
        (awaitingPong ?s \<longrightarrow> (pongTimer ?s, PongTimeout i, PONG_TIMEOUT_MS) \<in> set (timers ?s))"
      by (simp add: clearTimeout_def)
  qed
  ultimately have "ws_inv ?s" by (simp add: ws_inv_def)
  with assms show ?thesis
    by (auto simp: ws_onmessage_def split: frame.split option.split)
qed

text \<open>\<open>close()\<close> from any state whose sockets and timers are in order ends in a state with
  no timer at all and no current socket.\<close>

lemma close_timers:
  assumes "timer_inv st"
  shows "timers (ws_close st) = []"
proof -
  have "t \<notin> set (timers (clearTimeout (retryTimer st) (clearTimers (st\<lparr>closed := True\<rparr>))))" for t
    using assms by (auto simp: clearTimers_def clearTimeout_def elim!: timer_cases)
  then have "timers (clearTimeout (retryTimer st) (clearTimers (st\<lparr>closed := True\<rparr>))) = []"
    by (metis last_in_set)
  then show ?thesis by (auto simp: ws_close_def Let_def ws_prims split: option.split)
qed

lemma close_fields [simp]:
  "closed (ws_close st)" "socket (ws_close st) = None" "listening (ws_close st) = False"
  "length (socks (ws_close st)) = length (socks st)"
  by (auto simp: ws_close_def Let_def ws_prims clearTimers_def split: option.split)

lemma inv_ws_close:
  assumes "sock_inv st" "timer_inv st"
  shows "ws_inv (ws_close st)"
proof -
  have "retryTimer (ws_close st) < nextTimer (ws_close st)" "pingTimer (ws_close st) < nextTimer (ws_close st)"
    "pongTimer (ws_close st) < nextTimer (ws_close st)"
    using assms(2)
    by (auto simp: timer_inv_def ws_close_def Let_def ws_prims clearTimers_def split: option.split)
  with close_timers [OF assms(2)] have "timer_inv (ws_close st)" by (simp add: timer_inv_def)
  moreover have "sock_inv (ws_close st)"
  proof (cases "socket st")
    case None
    with assms(1) show ?thesis
      by (auto simp: sock_inv_def ws_close_def Let_def ws_prims clearTimers_def)
  next
    case (Some i)
    with assms(1) show ?thesis
      by (auto simp: sock_inv_def ws_close_def Let_def ws_prims clearTimers_def nth_list_update)
  qed
  ultimately show ?thesis by (simp add: ws_inv_def beat_inv_def veto_inv_def)
qed

lemma inv_onclose:
  assumes "sock_inv st" "timer_inv st" "veto_inv st" "socket st = Some i" "sock_ready i st = CLOSED"
    and "\<forall>t \<in> set (timers st). fst (snd t) \<noteq> Retry" and "\<not> reconnectVetoed st"
  shows "ws_inv (ws_onclose cfg code st)"
proof -
  let ?s = "emit (CbClose code) (clearTimers st)"
  have i: "i = length (socks st) - 1" "\<not> closed st"
    using current_socket [OF assms(1)] assms(4) by blast+
  have s: "sock_inv ?s" "timer_inv ?s" "veto_inv ?s"
    using assms(1,3) timer_inv_clearTimers [OF assms(2)]
    by (simp_all add: emit_def sock_inv_def veto_inv_def timer_inv_def sock_ready_def
        kind_ok_cong [of "clearTimers st\<lparr>out := out st @ [CbClose code]\<rparr>" "clearTimers st"])
  have none: "timers ?s = []"
  proof (rule ccontr)
    assume "timers ?s \<noteq> []"
    then obtain t where t: "t \<in> set (timers (clearTimers st))"
      by (cases "timers ?s") (auto simp: emit_def)
    then have "t \<in> set (timers st)" by (auto simp: clearTimers_def clearTimeout_def)
    with cleared_timers [OF assms(2) t] assms(6) show False by blast
  qed
  show ?thesis
  proof (cases "closes_in_onClose cfg code")
    case True
    with inv_ws_close [OF s(1,2)] show ?thesis by (simp add: ws_onclose_def Let_def)
  next
    case False
    have fld: "closed ?s = closed st" "socket ?s = socket st" "socks ?s = socks st"
      "sock_ready j ?s = sock_ready j st" "reconnectVetoed ?s = reconnectVetoed st" for j
      by (simp_all add: emit_def sock_ready_def)
    have lt: "retryTimer ?s < nextTimer ?s" "pingTimer ?s < nextTimer ?s" "pongTimer ?s < nextTimer ?s"
      using s(2) by (auto simp: timer_inv_def)
    have "sock_ready (length (socks st) - 1) ?s = CLOSED" using assms(5) i fld by simp
    then have cl: "readyState (socks st ! (length (socks st) - 1)) = CLOSED"
      using current_socket(4) [OF assms(1,4)] i by (auto simp: sock_ready_def fld split: if_splits)
    show ?thesis
      using False s lt i fld none assms(4,5,7) cl
      by (auto simp: ws_onclose_def Let_def scheduleReconnect_def setTimeout_def clearTimeout_def
          ws_inv_def sock_inv_def timer_inv_def beat_inv_def veto_inv_def sock_ready_def
          reconnect_delay_def split: option.split)
  qed
qed

lemma inv_attempt [simp]:
  "sock_inv (st\<lparr>attempt := n\<rparr>) = sock_inv st" "veto_inv (st\<lparr>attempt := n\<rparr>) = veto_inv st"
  "timer_inv (st\<lparr>attempt := n\<rparr>) = timer_inv st" "sock_ready i (st\<lparr>attempt := n\<rparr>) = sock_ready i st"
  by (simp_all add: sock_inv_def veto_inv_def timer_inv_def sock_ready_def
      kind_ok_cong [of "st\<lparr>attempt := n\<rparr>" st])

lemma sock_map_ready:
  assumes "i < length (socks st)"
  shows "socks (sock_map i (\<lambda>s. s\<lparr>readyState := r\<rparr>) st) =
      (socks st)[i := (socks st ! i)\<lparr>readyState := r\<rparr>]"
    and "sock_ready i (sock_map i (\<lambda>s. s\<lparr>readyState := r\<rparr>) st) = r"
  using assms by (simp_all add: sock_map_def sock_ready_def)

lemma sock_map_fields [simp]:
  "timers (sock_map i f st) = timers st" "closed (sock_map i f st) = closed st"
  "socket (sock_map i f st) = socket st" "reconnectVetoed (sock_map i f st) = reconnectVetoed st"
  "awaitingPong (sock_map i f st) = awaitingPong st" "retryTimer (sock_map i f st) = retryTimer st"
  "pingTimer (sock_map i f st) = pingTimer st" "pongTimer (sock_map i f st) = pongTimer st"
  "nextTimer (sock_map i f st) = nextTimer st" "length (socks (sock_map i f st)) = length (socks st)"
  "out (sock_map i f st) = out st" "listening (sock_map i f st) = listening st"
  by (simp_all add: sock_map_def)

text \<open>The browser moves the current socket: the retry-free timers do not mind.\<close>

lemma inv_sock_ready:
  assumes "ws_inv st" "socket st = Some i" "sock_ready i st \<noteq> CLOSED"
  shows "sock_inv (sock_map i (\<lambda>s. s\<lparr>readyState := r\<rparr>) st)"
    and "timer_inv (sock_map i (\<lambda>s. s\<lparr>readyState := r\<rparr>) st)"
    and "veto_inv (sock_map i (\<lambda>s. s\<lparr>readyState := r\<rparr>) st)"
    and "sock_ready i (sock_map i (\<lambda>s. s\<lparr>readyState := r\<rparr>) st) = r"
proof -
  let ?s = "sock_map i (\<lambda>s. s\<lparr>readyState := r\<rparr>) st"
  note inv = ws_invD [OF assms(1)]
  have i: "i < length (socks st)" using current_socket(4) [OF inv(1) assms(2)] .
  note nr = open_no_retry [OF assms]
  show "sock_inv ?s"
    using inv(1) assms(2) i by (auto simp: sock_inv_def sock_map_def nth_list_update)
  have "timer_kind_ok ?s t" if "t \<in> set (timers st)" for t
    using that nr(1) inv(2) by (auto elim!: timer_cases)
  then show "timer_inv ?s" using inv(2) by (simp add: timer_inv_def)
  show "veto_inv ?s" using nr(2) by (simp add: veto_inv_def)
  show "sock_ready i ?s = r" by (rule sock_map_ready(2) [OF i])
qed

lemma inv_SockOpened:
  assumes "ws_inv st"
  shows "ws_inv (ws_step cfg st (SockOpened i))"
proof (cases "i < length (socks st) \<and> sock_ready i st = CONNECTING")
  case True
  note inv = ws_invD [OF assms]
  have cur: "socket st = Some i"
    using current_socket(2) [OF inv(1)] True by (simp add: ready_order)
  let ?s = "sock_map i (\<lambda>s. s\<lparr>readyState := OPEN\<rparr>) st"
  have h: "onopen (socks st ! i)" using inv(1) cur True by (auto simp: sock_inv_def)
  have "ws_inv (startHeartbeat i (?s\<lparr>attempt := 0\<rparr>))"
    by (rule inv_startHeartbeat) (use inv_sock_ready [OF assms cur, of OPEN] True cur in simp_all)
  with True h show ?thesis by (simp add: Let_def ws_onopen_def)
next
  case False
  with assms show ?thesis by auto
qed

lemma beat_not_open:
  assumes "sock_inv st" "timer_inv st" "veto_inv st"
    and "\<And>i. socket st = Some i \<Longrightarrow> sock_ready i st \<noteq> OPEN"
  shows "ws_inv st"
  using assms by (auto simp: ws_inv_def beat_inv_def)

lemma inv_SockClosed:
  assumes "ws_inv st"
  shows "ws_inv (ws_step cfg st (SockClosed i code))"
proof (cases "i < length (socks st) \<and> sock_ready i st \<noteq> CLOSED")
  case True
  note inv = ws_invD [OF assms]
  let ?s = "sock_map i (\<lambda>s. s\<lparr>readyState := CLOSED\<rparr>) st"
  show ?thesis
  proof (cases "onclose (socks st ! i)")
    case h: True
    then have cur: "socket st = Some i" using current_socket(3) [OF inv(1)] True by blast
    have "ws_inv (ws_onclose cfg code ?s)"
      by (rule inv_onclose [of _ i])
        (use inv_sock_ready [OF assms cur, of CLOSED] open_no_retry [OF assms cur] True cur in simp_all)
    with True h show ?thesis by (simp add: Let_def)
  next
    case h: False
    have ncur: "socket st \<noteq> Some i" using h True inv(1) by (auto simp: sock_inv_def)
    have idx: "\<not> closed st \<Longrightarrow> i \<noteq> length (socks st) - 1"
      using ncur current_socket(1) [OF inv(1)] by auto
    have same: "j \<noteq> i \<Longrightarrow> sock_ready j ?s = sock_ready j st" for j
      by (simp add: sock_ready_def sock_map_def)
    have si: "sock_inv ?s"
      using inv(1) ncur True by (auto simp: sock_inv_def sock_map_def nth_list_update ready_order)
    have "timer_kind_ok ?s t" if "t \<in> set (timers st)" for t
      using that inv(2) idx same by (auto elim!: timer_cases)
    then have "timer_inv ?s" using inv(2) by (simp add: timer_inv_def)
    moreover have "veto_inv ?s" using inv(4) idx same by (auto simp: veto_inv_def)
    moreover have "beat_inv ?s"
      using inv(3) ncur same by (auto simp: beat_inv_def)
    ultimately have "ws_inv ?s" using si by (simp add: ws_inv_def)
    with True h show ?thesis by (simp add: Let_def)
  qed
next
  case False
  with assms show ?thesis by auto
qed

lemma retries_cleared:
  assumes "timer_inv st"
  shows "\<forall>t \<in> set (timers (clearTimeout (retryTimer st) st)). fst (snd t) \<noteq> Retry"
  using assms by (auto simp: clearTimeout_def elim!: timer_cases)

lemma inv_onVisibility:
  assumes "ws_inv st"
  shows "ws_inv (onVisibility cfg v st)"
proof -
  note inv = ws_invD [OF assms]
  let ?s = "(clearTimeout (retryTimer st) st)\<lparr>attempt := 0\<rparr>"
  have "ws_inv (open_ws cfg ?s)" if "\<not> closed st" "\<not> reconnectVetoed st"
    by (rule inv_open)
      (use inv that retries_cleared [OF inv(2)] in \<open>simp_all add: timer_inv_clear\<close>,
       simp_all add: clearTimeout_def)
  with assms show ?thesis by (auto simp: onVisibility_def)
qed

lemma inv_TimerFires:
  assumes "ws_inv st"
  shows "ws_inv (ws_step cfg st (TimerFires k))"
proof (cases "map_of (timers st) k")
  case None
  with assms show ?thesis by simp
next
  case (Some p)
  obtain cb d where p: "p = (cb, d)" by (cases p) auto
  with Some have t: "(k, cb, d) \<in> set (timers st)" by (simp add: map_of_SomeD)
  note inv = ws_invD [OF assms]
  show ?thesis
  proof (cases cb)
    case Retry
    with t inv(2) have k: "k = retryTimer st" "\<not> closed st" "\<not> reconnectVetoed st"
      by (auto elim!: timer_cases)
    have "ws_inv (open_ws cfg (clearTimeout k st))"
      by (rule inv_open)
        (use inv k retries_cleared [OF inv(2)] in \<open>simp_all add: timer_inv_clear\<close>,
         simp_all add: clearTimeout_def)
    with Some p Retry show ?thesis by simp
  next
    case (Tick i)
    with Some p inv_tick [OF assms] t show ?thesis by simp
  next
    case (PongTimeout i)
    with Some p inv_pong_timeout [OF assms] t show ?thesis by simp
  qed
qed

lemma ws_inv_step:
  assumes "ws_inv st"
  shows "ws_inv (ws_step cfg st e)"
proof (cases e)
  case (SockOpened i)
  with inv_SockOpened [OF assms] show ?thesis by simp
next
  case (SockClosed i code)
  with inv_SockClosed [OF assms] show ?thesis by simp
next
  case (TimerFires k)
  with inv_TimerFires [OF assms] show ?thesis by simp
next
  case (CallSend msg)
  with assms show ?thesis by (simp add: ws_send_def split: option.split)
next
  case CallClose
  with assms show ?thesis by (simp add: inv_ws_close ws_invD)
qed (use assms in \<open>auto simp: inv_onmessage ws_onerror_def inv_onVisibility\<close>)

interpretation ws_run: machine_inv "ws_step cfg" "\<lambda>st e. True" ws_inv
  by unfold_locales (rule ws_inv_step)

section \<open>Properties\<close>

definition ws_after :: "ws_config \<Rightarrow> ws_event list \<Rightarrow> ws_state" where
  "ws_after cfg es = run (ws_step cfg) (connectWs cfg) es"

lemma ws_after_inv: "ws_inv (ws_after cfg es)"
  unfolding ws_after_def
  by (rule ws_run.run_inv [OF ws_inv_connect]) (simp add: run_ok_trivial)

lemma filter_at_most_one:
  assumes "\<And>i. i < length xs \<Longrightarrow> i \<noteq> n \<Longrightarrow> \<not> P (xs ! i)"
  shows "length (filter P xs) \<le> 1"
proof (cases "n < length xs")
  case False
  then have "\<forall>i < length xs. \<not> P (xs ! i)" using assms by auto
  then show ?thesis by (simp add: filter_False all_set_conv_all_nth)
next
  case True
  have "filter P (take n xs) = []" "filter P (drop (Suc n) xs) = []"
    using assms True by (auto simp: filter_empty_conv in_set_conv_nth)
  moreover have "xs = take n xs @ xs ! n # drop (Suc n) xs"
    using True by (rule id_take_nth_drop)
  ultimately have "filter P xs = (if P (xs ! n) then [xs ! n] else [])"
    by (metis (no_types, lifting) append_Nil filter.simps filter_append)
  then show ?thesis by simp
qed

lemma timers_at_most_three:
  assumes "timer_inv st"
  shows "length (timers st) \<le> 3"
proof -
  have "set (map fst (timers st)) \<subseteq> {retryTimer st, pingTimer st, pongTimer st}"
    using assms by (auto elim!: timer_cases)
  then have "card (set (map fst (timers st))) \<le> card {retryTimer st, pingTimer st, pongTimer st}"
    by (intro card_mono) auto
  also have "\<dots> \<le> 3" by (simp add: card_insert_if)
  finally show ?thesis
    using assms distinct_card [of "map fst (timers st)"] by (simp add: timer_inv_def)
qed

text \<open>Only the current socket of a connection is alive, and none of a closed one.\<close>

lemma single_live:
  assumes "sock_inv st"
  shows "length (filter (\<lambda>s. readyState s < CLOSING) (socks st)) \<le> (if closed st then 0 else 1)"
    and "length (filter onclose (socks st)) \<le> 1"
proof -
  have dead: "\<not> readyState (socks st ! i) < CLOSING \<and> \<not> onclose (socks st ! i)"
    if "i < length (socks st)" "i \<noteq> length (socks st) - 1 \<or> closed st" for i
  proof -
    have "socket st \<noteq> Some i" using assms that by (auto simp: sock_inv_def)
    with assms that(1) show ?thesis by (auto simp: sock_inv_def not_less)
  qed
  show "length (filter (\<lambda>s. readyState s < CLOSING) (socks st)) \<le> (if closed st then 0 else 1)"
  proof (cases "closed st")
    case True
    with dead show ?thesis by (auto simp: filter_empty_conv in_set_conv_nth)
  next
    case False
    then show ?thesis
      using filter_at_most_one [of "socks st" "length (socks st) - 1" "\<lambda>s. readyState s < CLOSING"] dead by auto
  qed
  show "length (filter onclose (socks st)) \<le> 1"
    using dead by (intro filter_at_most_one [of _ "length (socks st) - 1"]) blast
qed

text \<open>
  C13. Whatever the browser, the timers and the client do, at most one socket is connecting
  or open, at most one socket can trigger a reconnect, and at most three timers are pending:
  returning to the foreground while a connection is being made never leaves two live ones.
\<close>

theorem ws_single_connection:
  "length (filter (\<lambda>s. readyState s < CLOSING) (socks (ws_after cfg es))) \<le> 1
   \<and> length (filter onclose (socks (ws_after cfg es))) \<le> 1
   \<and> length (timers (ws_after cfg es)) \<le> 3"
proof -
  note inv = ws_invD [OF ws_after_inv [of cfg es]]
  show ?thesis
    using single_live [OF inv(1)] timers_at_most_three [OF inv(2)] by (auto split: if_splits)
qed

text \<open>What holds from a \<open>close()\<close> on.\<close>

definition closed_inv :: "nat \<Rightarrow> ws_out list \<Rightarrow> ws_state \<Rightarrow> bool" where
  "closed_inv n base st =
     (closed st \<and> socket st = None \<and> timers st = [] \<and> \<not> listening st \<and> length (socks st) = n
      \<and> (\<forall>i < n. CLOSING \<le> readyState (socks st ! i) \<and> \<not> onclose (socks st ! i))
      \<and> (\<exists>xs. out st = base @ xs \<and> set xs \<subseteq> {CbError}))"

lemma closed_inv_close:
  assumes "ws_inv st"
  shows "closed_inv (length (socks st)) (out (ws_close st)) (ws_close st)"
  using inv_ws_close [OF ws_invD(1) [OF assms] ws_invD(2) [OF assms]] close_timers [OF ws_invD(2) [OF assms]]
  by (auto simp: closed_inv_def ws_inv_def sock_inv_def)

lemma closed_inv_step:
  assumes "closed_inv n base st"
  shows "closed_inv n base (ws_step cfg st e)"
proof -
  have st: "closed st" "socket st = None" "timers st = []" "\<not> listening st" "length (socks st) = n"
    and socks: "\<And>i. i < n \<Longrightarrow> CLOSING \<le> readyState (socks st ! i) \<and> \<not> onclose (socks st ! i)"
    and log: "\<exists>xs. out st = base @ xs \<and> set xs \<subseteq> {CbError}"
    using assms by (auto simp: closed_inv_def)
  have ready: "i < n \<Longrightarrow> sock_ready i st \<noteq> CONNECTING \<and> sock_ready i st \<noteq> OPEN" for i
    using socks [of i] st(5) by (auto simp: sock_ready_def ready_order)
  show ?thesis
  proof (cases e)
    case (SockClosed i code)
    then show ?thesis
      using assms st socks by (auto simp: closed_inv_def sock_map_def nth_list_update ready_order)
  next
    case (SockErrored i)
    obtain xs where "out st = base @ xs" "set xs \<subseteq> {CbError}" using log by blast
    then have "\<exists>ys. out st @ [CbError] = base @ ys \<and> set ys \<subseteq> {CbError}"
      by (intro exI [of _ "xs @ [CbError]"]) auto
    with SockErrored assms show ?thesis
      by (auto simp: closed_inv_def ws_onerror_def emit_def)
  next
    case CallClose
    then show ?thesis
      using assms st by (simp add: closed_inv_def ws_close_def clearTimers_def clearTimeout_def Let_def)
  qed (use assms st ready in \<open>auto simp: ws_send_def\<close>)
qed

interpretation closed_run: machine_inv "ws_step cfg" "\<lambda>st e. True" "closed_inv n base"
  by unfold_locales (rule closed_inv_step)


definition vetoed_inv :: "nat \<Rightarrow> ws_state \<Rightarrow> bool" where
  "vetoed_inv n st = (ws_inv st \<and> reconnectVetoed st \<and> length (socks st) = n)"

lemma tick_fields [simp]:
  "reconnectVetoed (tick i st) = reconnectVetoed st" "length (socks (tick i st)) = length (socks st)"
  "reconnectVetoed (pong_timeout i st) = reconnectVetoed st"
  "length (socks (pong_timeout i st)) = length (socks st)"
  by (auto simp: tick_def pong_timeout_def ws_prims)

lemma vetoed_inv_step:
  assumes "vetoed_inv n st"
  shows "vetoed_inv n (ws_step cfg st e)"
proof -
  have st: "ws_inv st" "reconnectVetoed st" "length (socks st) = n"
    using assms by (auto simp: vetoed_inv_def)
  note inv = ws_invD [OF st(1)]
  have nr: "\<forall>t \<in> set (timers st). fst (snd t) \<noteq> Retry"
    using inv(2) st(2) by (auto elim!: timer_cases)
  have "reconnectVetoed (ws_step cfg st e) \<and> length (socks (ws_step cfg st e)) = n"
  proof (cases e)
    case (SockClosed i code)
    then show ?thesis
      using st by (auto simp: ws_onclose_def ws_close_def Let_def scheduleReconnect_def setTimeout_def
          ws_prims clearTimers_def split: option.split)
  next
    case (TimerFires k)
    show ?thesis
    proof (cases "map_of (timers st) k")
      case None
      with TimerFires st show ?thesis by simp
    next
      case (Some p)
      obtain cb d where p: "p = (cb, d)" by (cases p) auto
      with Some nr have "cb \<noteq> Retry" by (auto dest!: map_of_SomeD)
      with TimerFires Some p st show ?thesis by (cases cb) (auto simp: clearTimeout_def)
    qed
  next
    case CallClose
    then show ?thesis
      using st by (auto simp: ws_close_def Let_def ws_prims clearTimers_def split: option.split)
  qed (use st in \<open>auto simp: Let_def ws_onopen_def startHeartbeat_def setTimeout_def emit_def
      sock_map_def ws_onmessage_def clearTimeout_def ws_onerror_def onVisibility_def ws_send_def
      clearTimers_def split: option.split frame.split\<close>)
  with ws_inv_step [OF st(1)] show ?thesis by (simp add: vetoed_inv_def)
qed

interpretation vetoed_run: machine_inv "ws_step cfg" "\<lambda>st e. True" "vetoed_inv n"
  by unfold_locales (rule vetoed_inv_step)

text \<open>
  C23. Once \<open>reconnect\<close> has vetoed a close code the connection stays down: no later event,
  in particular no return of the page to the foreground, opens another socket.
\<close>

theorem ws_veto_final:
  assumes "reconnectVetoed (ws_after cfg es)"
  shows "length (socks (run (ws_step cfg) (ws_after cfg es) es')) = length (socks (ws_after cfg es))"
proof -
  have "vetoed_inv (length (socks (ws_after cfg es))) (run (ws_step cfg) (ws_after cfg es) es')"
    by (rule vetoed_run.run_inv) (simp_all add: vetoed_inv_def ws_after_inv assms run_ok_trivial)
  then show ?thesis by (simp add: vetoed_inv_def)
qed

definition demo_cfg :: ws_config where
  "demo_cfg = \<lparr>https = False, host = ''h'', wspath = ''/terminal'', reconnect = Some (\<lambda>c. c \<noteq> 1000),
     closes_in_onClose = (\<lambda>c. False)\<rparr>"

lemmas ws_eval = ws_after_def connectWs_def open_ws_def ws_blank_def sock_ready_def ws_prims Let_def
  demo_cfg_def ws_onclose_def ws_onopen_def startHeartbeat_def clearTimers_def scheduleReconnect_def
  onVisibility_def tick_def pong_timeout_def

theorem ws_veto_final_witness:
  "length (socks (run (ws_step demo_cfg) (ws_after demo_cfg [SockClosed 0 1000])
     [Visibility False, Visibility True])) = 1"
proof -
  have "reconnectVetoed (ws_after demo_cfg [SockClosed 0 1000])" by (simp add: ws_eval)
  from ws_veto_final [OF this, of "[Visibility False, Visibility True]"]
  show ?thesis by (simp add: ws_eval)
qed

text \<open>
  C32. The heartbeat of an open connection never stops: its next tick is always scheduled,
  and while a ping is unanswered its ten-second timeout is scheduled too. If that timeout
  fires before the pong arrives, the socket is closed with code 4000.
\<close>

theorem ws_heartbeat:
  assumes "socket (ws_after cfg es) = Some i" and "sock_ready i (ws_after cfg es) = OPEN"
  shows "let st = ws_after cfg es in
    (pingTimer st, Tick i, PING_INTERVAL_MS) \<in> set (timers st)
    \<and> (awaitingPong st \<longrightarrow>
        (pongTimer st, PongTimeout i, PONG_TIMEOUT_MS) \<in> set (timers st)
        \<and> sock_ready i (ws_step cfg st (TimerFires (pongTimer st))) = CLOSING
        \<and> out (ws_step cfg st (TimerFires (pongTimer st))) = out st @ [SockClose i (Some 4000)])"
proof -
  let ?st = "ws_after cfg es"
  note inv = ws_invD [OF ws_after_inv [of cfg es]]
  have beat: "(pingTimer ?st, Tick i, PING_INTERVAL_MS) \<in> set (timers ?st)"
    "awaitingPong ?st \<Longrightarrow> (pongTimer ?st, PongTimeout i, PONG_TIMEOUT_MS) \<in> set (timers ?st)"
    using inv(3) assms by (auto simp: beat_inv_def)
  have i: "i < length (socks ?st)" using current_socket(4) [OF inv(1) assms(1)] .
  have "sock_ready i (ws_step cfg ?st (TimerFires (pongTimer ?st))) = CLOSING
        \<and> out (ws_step cfg ?st (TimerFires (pongTimer ?st))) = out ?st @ [SockClose i (Some 4000)]"
    if a: "awaitingPong ?st"
  proof -
    have "map_of (timers ?st) (pongTimer ?st) = Some (PongTimeout i, PONG_TIMEOUT_MS)"
      using beat(2) [OF a] inv(2) by (simp add: timer_inv_def)
    then show ?thesis
      using a i assms(2)
      by (simp add: pong_timeout_def ws_prims sock_ready_def CLOSE_PING_TIMEOUT_def max_def ready_order)
  qed
  with beat show ?thesis by (simp add: Let_def)
qed

theorem ws_heartbeat_witness:
  "let st = ws_after demo_cfg [SockOpened 0, TimerFires 1] in
     sock_ready 0 (ws_step demo_cfg st (TimerFires (pongTimer st))) = CLOSING"
proof -
  let ?es = "[SockOpened 0, TimerFires 1]"
  have s: "socket (ws_after demo_cfg ?es) = Some 0" "sock_ready 0 (ws_after demo_cfg ?es) = OPEN"
    "awaitingPong (ws_after demo_cfg ?es)"
    by (simp_all add: ws_eval)
  show ?thesis using ws_heartbeat [OF s(1,2)] s(3) by (simp add: Let_def)
qed

text \<open>
  \<open>send\<close> reports success exactly when it handed the message to the current socket while
  that socket was open; otherwise nothing is sent and nothing changes.
\<close>

theorem ws_send_open:
  "let st = ws_after cfg es in
     fst (ws_send msg st) = (\<exists>i. socket st = Some i \<and> readyState (socks st ! i) = OPEN)
     \<and> snd (ws_send msg st) =
         (if fst (ws_send msg st) then emit (SockSend (the (socket st)) msg) st else st)"
proof -
  note inv = ws_invD [OF ws_after_inv [of cfg es]]
  have "socket (ws_after cfg es) = Some i \<Longrightarrow> i < length (socks (ws_after cfg es))" for i
    using current_socket(4) [OF inv(1)] .
  then show ?thesis
    by (auto simp: ws_send_def Let_def sock_ready_def split: option.split)
qed

text \<open>\<open>n\<close> connection attempts in a row that fail before opening, each followed by its retry.\<close>

definition failures :: "nat \<Rightarrow> nat \<Rightarrow> ws_event list" where
  "failures code n = concat (map (\<lambda>k. [SockClosed k code, TimerFires (Suc k)]) [0..<n])"

lemma failures_Suc: "failures code (Suc n) = failures code n @ [SockClosed n code, TimerFires (Suc n)]"
  by (simp add: failures_def)

lemma failures_state:
  assumes "\<not> closes_in_onClose cfg code" and "case reconnect cfg of None \<Rightarrow> True | Some f \<Rightarrow> f code"
  shows "let st = ws_after cfg (failures code n) in
     attempt st = n \<and> length (socks st) = Suc n \<and> timers st = [] \<and> nextTimer st = Suc n \<and> \<not> closed st
     \<and> pingTimer st = 0 \<and> pongTimer st = 0 \<and> socket st = Some n
     \<and> readyState (socks st ! n) = CONNECTING \<and> onclose (socks st ! n)"
proof (induction n)
  case 0
  show ?case by (simp add: failures_def ws_after_def connectWs_def open_ws_def ws_blank_def Let_def emit_def)
next
  case (Suc n)
  let ?st = "ws_after cfg (failures code n)"
  have run: "ws_after cfg (failures code (Suc n)) =
      ws_step cfg (ws_step cfg ?st (SockClosed n code)) (TimerFires (Suc n))"
    by (simp add: ws_after_def failures_Suc)
  show ?case
    using Suc assms
    by (simp add: run Let_def sock_ready_def ws_onclose_def clearTimers_def scheduleReconnect_def
        open_ws_def ws_prims nth_append)
qed

text \<open>
  Reconnects back off exponentially with a cap: after \<open>n\<close> attempts in a row that never
  opened, the next retry is scheduled with a delay of 1000, 2000, 4000, 8000 and from then on
  10000 milliseconds, and it is the only pending timer.
\<close>

theorem ws_backoff:
  assumes "\<not> closes_in_onClose cfg code" and "case reconnect cfg of None \<Rightarrow> True | Some f \<Rightarrow> f code"
  shows "timers (ws_step cfg (ws_after cfg (failures code n)) (SockClosed n code)) =
           [(Suc n, Retry, if n = 0 then 1000 else if n = 1 then 2000 else if n = 2 then 4000
                           else if n = 3 then 8000 else 10000)]"
proof -
  have "reconnect_delay n = (if n = 0 then 1000 else if n = 1 then 2000 else if n = 2 then 4000
                           else if n = 3 then 8000 else 10000)"
  proof (cases "n < 4")
    case True
    then have "n = 0 \<or> n = 1 \<or> n = 2 \<or> n = 3" by linarith
    then show ?thesis by (auto simp: reconnect_delay_def)
  next
    case False
    then have "(2::nat) ^ 4 \<le> 2 ^ n" by (intro power_increasing) auto
    with False show ?thesis by (simp add: reconnect_delay_def)
  qed
  with failures_state [OF assms, of n] assms show ?thesis
    by (simp add: Let_def sock_ready_def ws_onclose_def clearTimers_def scheduleReconnect_def ws_prims)
qed

theorem ws_backoff_witness:
  "timers (ws_step demo_cfg (ws_after demo_cfg (failures 1006 5)) (SockClosed 5 1006)) = [(6, Retry, 10000)]"
  using ws_backoff [of demo_cfg 1006 5] by (simp add: demo_cfg_def)

definition ready_rel :: "ws_state \<Rightarrow> ws_state \<Rightarrow> bool" where
  "ready_rel s t = (length (socks s) \<le> length (socks t)
     \<and> (\<forall>i < length (socks s). readyState (socks s ! i) \<le> readyState (socks t ! i)))"

lemma ready_rel_refl: "ready_rel s s"
  by (simp add: ready_rel_def)

lemma ready_rel_trans: "ready_rel s t \<Longrightarrow> ready_rel t u \<Longrightarrow> ready_rel s u"
  unfolding ready_rel_def by (meson le_trans order_less_le_trans order_trans)

lemma ready_rel_same: "socks t = socks s \<Longrightarrow> ready_rel s t"
  by (simp add: ready_rel_def)

lemma ready_rel_map:
  "readyState (socks st ! i) \<le> readyState (f (socks st ! i)) \<Longrightarrow> ready_rel st (sock_map i f st)"
  by (auto simp: ready_rel_def sock_map_def nth_list_update)

lemma ready_rel_sock_close: "ready_rel st (sock_close i c st)"
proof -
  have "ready_rel st (sock_map i (\<lambda>s. s\<lparr>readyState := max (readyState s) CLOSING\<rparr>) st)"
    by (rule ready_rel_map) simp
  then show ?thesis by (simp add: sock_close_def ready_rel_def emit_def)
qed

lemma ready_rel_open: "ready_rel st (open_ws cfg st)"
proof (cases "closed st")
  case True
  then show ?thesis by (simp add: open_ws_def ready_rel_refl)
next
  case False
  let ?s = "case socket st of None \<Rightarrow> st
    | Some prev \<Rightarrow> sock_close prev None
        (sock_map prev (\<lambda>s. s\<lparr>onopen := False, onmessage := False, onerror := False, onclose := False\<rparr>) st)"
  have "ready_rel st ?s"
    by (auto simp: ready_rel_refl split: option.split
        intro!: ready_rel_trans [OF ready_rel_map ready_rel_sock_close])
  moreover have "ready_rel ?s (open_ws cfg st)"
    using False by (simp add: open_ws_def Let_def emit_def ready_rel_def nth_append)
  ultimately show ?thesis by (rule ready_rel_trans)
qed

lemma ready_rel_ws_close: "ready_rel st (ws_close st)"
proof -
  let ?t = "(clearTimeout (retryTimer st) (clearTimers (st\<lparr>closed := True\<rparr>)))\<lparr>listening := False\<rparr>"
  have t: "socks ?t = socks st" "socket ?t = socket st" by (simp_all add: clearTimers_def clearTimeout_def)
  show ?thesis
  proof (cases "socket st")
    case None
    with t show ?thesis by (simp add: ws_close_def Let_def ready_rel_same)
  next
    case (Some i)
    let ?u = "sock_close i None (sock_map i (\<lambda>s. s\<lparr>onclose := False\<rparr>) ?t)"
    have "ready_rel ?t ?u"
      by (rule ready_rel_trans [OF ready_rel_map ready_rel_sock_close]) simp
    with t Some show ?thesis by (simp add: ws_close_def Let_def ready_rel_def)
  qed
qed

lemma ready_rel_onclose: "ready_rel st (ws_onclose cfg code st)"
proof -
  let ?s = "emit (CbClose code) (clearTimers st)"
  let ?t = "if closes_in_onClose cfg code then ws_close ?s else ?s"
  have "ready_rel ?s ?t" by (simp add: ready_rel_refl ready_rel_ws_close)
  moreover have "ready_rel st ?s" by (simp add: ready_rel_def emit_def)
  moreover have "ready_rel ?t (ws_onclose cfg code st)"
    by (rule ready_rel_same) (simp add: ws_onclose_def Let_def scheduleReconnect_def setTimeout_def clearTimeout_def)
  ultimately show ?thesis by (meson ready_rel_trans)
qed

lemma ready_rel_step: "ready_rel st (ws_step cfg st e)"
proof (cases e)
  case (SockOpened i)
  have "ready_rel st (sock_map i (\<lambda>s. s\<lparr>readyState := OPEN\<rparr>) st)" if "sock_ready i st = CONNECTING"
    using that by (intro ready_rel_map) (auto simp: sock_ready_def ready_order split: if_splits)
  with SockOpened show ?thesis
    by (auto simp: Let_def ready_rel_refl ws_onopen_def startHeartbeat_def setTimeout_def emit_def ready_rel_def)
next
  case (SockClosed i code)
  have "readyState s \<le> CLOSED" for s by (cases "readyState s") (simp_all add: ready_order)
  then have "ready_rel st (sock_map i (\<lambda>s. s\<lparr>readyState := CLOSED\<rparr>) st)"
    by (intro ready_rel_map) simp
  with SockClosed ready_rel_trans [OF this ready_rel_onclose] show ?thesis
    by (simp add: Let_def ready_rel_refl)
next
  case (TimerFires k)
  have c: "ready_rel st (clearTimeout k st)" by (simp add: ready_rel_same clearTimeout_def)
  have "ready_rel (clearTimeout k st) (timer_fires cfg cb (clearTimeout k st))" for cb
    by (cases cb) (auto simp: ready_rel_open tick_def pong_timeout_def ready_rel_sock_close ready_rel_refl
        setTimeout_def emit_def intro!: ready_rel_same)
  from ready_rel_trans [OF c this] TimerFires show ?thesis
    by (auto simp: ready_rel_refl split: option.split)
next
  case (Visibility v)
  have "ready_rel st ((clearTimeout (retryTimer st) st)\<lparr>attempt := 0\<rparr>)"
    by (simp add: ready_rel_same clearTimeout_def)
  from ready_rel_trans [OF this ready_rel_open] Visibility show ?thesis
    by (simp add: onVisibility_def ready_rel_refl)
next
  case CallClose
  then show ?thesis by (simp add: ready_rel_ws_close)
qed (auto simp: ready_rel_refl ws_onmessage_def ws_onerror_def ws_send_def emit_def clearTimeout_def
    ready_rel_def split: frame.split option.split)

interpretation ready_run: machine_rel "ws_step cfg" ready_rel
  by unfold_locales (auto intro: ready_rel_refl ready_rel_trans ready_rel_step)

text \<open>
  A socket only moves forward through connecting, open, closing and closed, and the code
  never reuses or forgets one: over any continuation every socket's state can only increase.
\<close>

theorem ws_ready_monotone:
  "ready_rel (ws_after cfg es) (ws_after cfg (es @ es'))"
  unfolding ws_after_def by (simp add: ready_run.run_rel)

section \<open>A connection is never stuck\<close>

definition retry_due :: "ws_state \<Rightarrow> bool" where
  "retry_due st = (\<exists>d. (retryTimer st, Retry, d) \<in> set (timers st))"

definition retry_inv :: "ws_state \<Rightarrow> bool" where
  "retry_inv st =
     (closed st \<or> reconnectVetoed st \<or> sock_ready (length (socks st) - 1) st \<noteq> CLOSED \<or> retry_due st)"

lemma retry_due_clear:
  "timer_inv st \<Longrightarrow> retry_due st \<Longrightarrow> k = pingTimer st \<or> k = pongTimer st \<Longrightarrow> retry_due (clearTimeout k st)"
  by (auto simp: retry_due_def clearTimeout_def elim!: timer_cases)

lemma current_ready:
  "ws_inv st \<Longrightarrow> i < length (socks st) \<Longrightarrow> sock_ready i st < CLOSING \<Longrightarrow> i = length (socks st) - 1"
  using current_socket(2,5) [of st i] ws_invD(1) by blast

lemma ready_after_close:
  "sock_ready j (sock_close i code st) = CLOSED \<longleftrightarrow> sock_ready j st = CLOSED"
  by (cases "readyState (socks st ! i)")
    (auto simp: sock_close_def sock_map_def emit_def sock_ready_def nth_list_update max_def ready_order)

lemma open_ws_current:
  "\<not> closed st \<Longrightarrow> socket (open_ws cfg st) = Some (length (socks st))
     \<and> length (socks (open_ws cfg st)) = Suc (length (socks st))
     \<and> sock_ready (length (socks st)) (open_ws cfg st) = CONNECTING"
  by (auto simp: open_ws_def Let_def ws_prims sock_ready_def nth_append split: option.split)

lemma retry_inv_open: "retry_inv (open_ws cfg st)"
  using open_ws_current [of st cfg] by (cases "closed st") (auto simp: retry_inv_def open_ws_def)

lemma retry_inv_close_sock:
  "retry_inv st \<Longrightarrow> retry_inv (sock_close i code st)"
  by (simp add: retry_inv_def ready_after_close retry_due_def)
    (auto simp: sock_close_def sock_map_def emit_def)

lemma retry_inv_same:
  assumes "retry_inv st" and "socks st' = socks st" and "closed st' = closed st"
    and "reconnectVetoed st' = reconnectVetoed st" and "retry_due st \<Longrightarrow> retry_due st'"
  shows "retry_inv st'"
proof -
  have "sock_ready n st' = sock_ready n st" for n by (simp add: sock_ready_def assms(2))
  with assms show ?thesis unfolding retry_inv_def by auto
qed

lemma retry_inv_onclose: "retry_inv (ws_onclose cfg code st)"
  by (auto simp: ws_onclose_def Let_def retry_inv_def scheduleReconnect_def setTimeout_def retry_due_def
      clearTimeout_def)

lemma retry_inv_tick: "retry_inv st \<Longrightarrow> retry_inv (tick i st)"
proof (cases "closed st \<or> sock_ready i st \<noteq> OPEN \<or> awaitingPong st")
  case True
  assume "retry_inv st"
  with True retry_inv_close_sock show ?thesis by (auto simp: tick_def)
next
  case False
  assume "retry_inv st"
  then show ?thesis
    by (rule retry_inv_same) (use False in \<open>auto simp: tick_def setTimeout_def emit_def retry_due_def\<close>)
qed

lemma retry_inv_step:
  assumes "ws_inv st" and "retry_inv st"
  shows "retry_inv (ws_step cfg st e)"
proof -
  note inv = ws_invD [OF assms(1)]
  show ?thesis
  proof (cases e)
    case (SockOpened i)
    show ?thesis
    proof (cases "i < length (socks st) \<and> sock_ready i st = CONNECTING")
      case True
      then have i: "i = length (socks st) - 1" using current_ready [OF assms(1)] by (simp add: ready_order)
      have "sock_ready i (ws_step cfg st (SockOpened i)) = OPEN" "length (socks (ws_step cfg st (SockOpened i))) = length (socks st)"
        using True by (auto simp: Let_def ws_onopen_def startHeartbeat_def setTimeout_def emit_def sock_ready_def sock_map_def
            clearTimers_def clearTimeout_def)
      with i SockOpened show ?thesis by (simp add: retry_inv_def)
    qed (use assms SockOpened in auto)
  next
    case (SockMessage i fr)
    have same: "retry_due (ws_onmessage fr st)" if "retry_due st"
    proof (cases "\<exists>m. fr = TextFrame (Some m) \<and> isPong m")
      case True
      then have "timers (ws_onmessage fr st) = timers (clearTimeout (pongTimer st) st)"
        "retryTimer (ws_onmessage fr st) = retryTimer st" by (auto simp: ws_onmessage_def clearTimeout_def)
      with retry_due_clear [OF inv(2) that, of "pongTimer st"] show ?thesis
        by (simp add: retry_due_def clearTimeout_def)
    next
      case False
      with that show ?thesis
        by (auto simp: ws_onmessage_def emit_def retry_due_def split: frame.split option.split)
    qed
    have "retry_inv (ws_onmessage fr st)"
      by (rule retry_inv_same [OF assms(2) _ _ _ same])
        (auto simp: ws_onmessage_def emit_def clearTimeout_def split: frame.split option.split)
    with SockMessage assms(2) show ?thesis by simp
  next
    case (SockErrored i)
    have "retry_inv (ws_onerror st)"
      by (rule retry_inv_same [OF assms(2)]) (simp_all add: ws_onerror_def emit_def retry_due_def)
    with SockErrored assms(2) show ?thesis by simp
  next
    case (SockClosed i code)
    show ?thesis
    proof (cases "i < length (socks st) \<and> sock_ready i st \<noteq> CLOSED")
      case True
      let ?s = "sock_map i (\<lambda>s. s\<lparr>readyState := CLOSED\<rparr>) st"
      show ?thesis
      proof (cases "onclose (socks st ! i)")
        case h: True
        with True SockClosed show ?thesis by (simp add: Let_def retry_inv_onclose)
      next
        case h: False
        then have "socket st \<noteq> Some i" using True inv(1) by (auto simp: sock_inv_def)
        then have "\<not> closed st \<Longrightarrow> i \<noteq> length (socks st) - 1" using current_socket(1) [OF inv(1)] by auto
        with assms(2) True h SockClosed show ?thesis
          by (auto simp: Let_def retry_inv_def retry_due_def sock_ready_def sock_map_def)
      qed
    qed (use assms SockClosed in auto)
  next
    case (TimerFires k)
    show ?thesis
    proof (cases "map_of (timers st) k")
      case None
      with assms TimerFires show ?thesis by simp
    next
      case (Some p)
      obtain cb d where p: "p = (cb, d)" by (cases p) auto
      with Some have t: "(k, cb, d) \<in> set (timers st)" by (simp add: map_of_SomeD)
      have keep: "retry_inv (clearTimeout k st)" if "cb \<noteq> Retry"
      proof -
        have "k = pingTimer st \<or> k = pongTimer st" using inv(2) t that by (auto elim!: timer_cases)
        then show ?thesis
          by (intro retry_inv_same [OF assms(2)] retry_due_clear [OF inv(2)]) (simp_all add: clearTimeout_def)
      qed
      show ?thesis
        using Some p TimerFires retry_inv_open keep retry_inv_tick retry_inv_close_sock
        by (cases cb) (auto simp: pong_timeout_def)
    qed
  next
    case (Visibility v)
    with assms(2) retry_inv_open show ?thesis by (auto simp: onVisibility_def)
  next
    case (CallSend m)
    have "retry_inv (snd (ws_send m st))"
      by (rule retry_inv_same [OF assms(2)]) (auto simp: ws_send_def emit_def retry_due_def split: option.split)
    with CallSend show ?thesis by simp
  next
    case CallClose
    then show ?thesis by (simp add: retry_inv_def)
  qed
qed

interpretation retry_run: machine_inv "ws_step cfg" "\<lambda>st e. True" "\<lambda>st. ws_inv st \<and> retry_inv st"
  by unfold_locales (blast intro: ws_inv_step retry_inv_step)

text \<open>
  C16. A connection is never stuck: whatever has happened, unless it was closed or its close code
  vetoed, either the current socket is still connecting, open or closing, with its close
  handler in place, or a retry is due within ten seconds -- and when that timer fires a new socket
  is being connected.
\<close>

theorem ws_never_stuck:
  "let st = ws_after cfg es in
     closed st \<or> reconnectVetoed st
     \<or> (\<exists>i. socket st = Some i \<and> onclose (socks st ! i)
          \<and> (sock_ready i st \<noteq> CLOSED
             \<or> (\<exists>d. d \<le> 10000 \<and> (retryTimer st, Retry, d) \<in> set (timers st)
                  \<and> (let st' = ws_step cfg st (TimerFires (retryTimer st)) in
                       \<exists>j. socket st' = Some j \<and> length (socks st) \<le> j \<and> sock_ready j st' = CONNECTING))))"
proof -
  let ?st = "ws_after cfg es"
  have "retry_inv (connectWs cfg)" unfolding connectWs_def by (rule retry_inv_open)
  then have inv: "ws_inv ?st" "retry_inv ?st"
    using retry_run.run_inv [of "connectWs cfg" cfg es] ws_inv_connect [of cfg]
    by (simp_all add: ws_after_def run_ok_trivial)
  show ?thesis
  proof (cases "closed ?st \<or> reconnectVetoed ?st")
    case False
    let ?n = "length (socks ?st) - 1"
    have cur: "socket ?st = Some ?n" "socks ?st \<noteq> []" using current_socket(1) ws_invD(1) [OF inv(1)] False by blast+
    then have "onclose (socks ?st ! ?n)" using ws_invD(1) [OF inv(1)] by (auto simp: sock_inv_def)
    moreover have "\<exists>d. d \<le> 10000 \<and> (retryTimer ?st, Retry, d) \<in> set (timers ?st)
        \<and> (let st' = ws_step cfg ?st (TimerFires (retryTimer ?st)) in
             \<exists>j. socket st' = Some j \<and> length (socks ?st) \<le> j \<and> sock_ready j st' = CONNECTING)"
      if dead: "sock_ready ?n ?st = CLOSED"
    proof -
      obtain d where d: "(retryTimer ?st, Retry, d) \<in> set (timers ?st)"
        using inv(2) False dead by (auto simp: retry_inv_def retry_due_def)
      moreover have "d \<le> 10000" using ws_invD(2) [OF inv(1)] d by (auto elim!: timer_cases)
      moreover have "map_of (timers ?st) (retryTimer ?st) = Some (Retry, d)"
        using ws_invD(2) [OF inv(1)] d by (simp add: timer_inv_def)
      ultimately show ?thesis
        using False open_ws_current [of "clearTimeout (retryTimer ?st) ?st" cfg]
        by (auto simp: Let_def clearTimeout_def intro!: exI [of _ d])
    qed
    ultimately show ?thesis using cur(1) unfolding Let_def by blast
  next
    case True
    then show ?thesis unfolding Let_def by blast
  qed
qed

theorem ws_never_stuck_witness:
  "let st = ws_after demo_cfg [SockClosed 0 1006] in
     \<exists>d. d \<le> 10000 \<and> (retryTimer st, Retry, d) \<in> set (timers st)"
proof -
  let ?st = "ws_after demo_cfg [SockClosed 0 1006]"
  have "\<not> closed ?st" "\<not> reconnectVetoed ?st" "socket ?st = Some 0" "sock_ready 0 ?st = CLOSED"
    by (simp_all add: ws_eval)
  with ws_never_stuck [of demo_cfg "[SockClosed 0 1006]"] show ?thesis unfolding Let_def by auto
qed

end
