(* ===== verification/TermIO.thy ===== *)
theory TermIO
  imports JsBase
begin

text \<open>
  The pure parts of a terminal pane: which close codes and messages count
  (\<^verbatim>\<open>terminalConnection.ts\<close>), the key remapping (\<^verbatim>\<open>terminalKeys.ts\<close>), the grid size that
  fills a pane (\<^verbatim>\<open>terminalFit.ts\<close>) and the filter for malformed mouse reports of
  \<^verbatim>\<open>useTerminal.ts\<close>. What xterm and the browser provide (cell dimensions, computed styles,
  the addon's own fit) is an argument.
\<close>

section \<open>Close codes and messages\<close>

definition CLOSE_NORMAL :: nat where "CLOSE_NORMAL = 1000"
definition CLOSE_GOING_AWAY :: nat where "CLOSE_GOING_AWAY = 1001"

definition isCleanClose :: "nat \<Rightarrow> bool" where
  "isCleanClose code = (code = CLOSE_NORMAL \<or> code = CLOSE_GOING_AWAY)"

text \<open>The data of an output message, \<open>None\<close> when \<open>isOutputMsg\<close> is false.\<close>

definition output_data :: "json \<Rightarrow> string option" where
  "output_data m =
     (if is_record m \<and> get_prop m ''type'' = Some (JStr ''output'') then
        (case get_prop m ''data'' of Some (JStr d) \<Rightarrow> Some d | _ \<Rightarrow> None)
      else None)"

definition isOutputMsg :: "json \<Rightarrow> bool" where
  "isOutputMsg m = (output_data m \<noteq> None)"

section \<open>Messages to the PTY\<close>

definition input_msg :: "string \<Rightarrow> json" where
  "input_msg d = JObj [(''type'', JStr ''input''), (''data'', JStr d)]"

definition resize_msg :: "jsnum \<Rightarrow> jsnum \<Rightarrow> json" where
  "resize_msg c r = JObj [(''type'', JStr ''resize''), (''cols'', json_num c), (''rows'', json_num r)]"

lemma input_msg_inject [simp]: "(input_msg a = input_msg b) = (a = b)"
  by (simp add: input_msg_def)

lemma input_not_resize [simp]: "input_msg d \<noteq> resize_msg c r" "resize_msg c r \<noteq> input_msg d"
  by (simp_all add: input_msg_def resize_msg_def)

section \<open>Keys\<close>

record key_event =
  ev_type :: string
  ev_key :: string
  shiftKey :: bool
  altKey :: bool
  ctrlKey :: bool
  metaKey :: bool
  isComposing :: bool

definition ESC :: char where "ESC = CHR 0x1B"

text \<open>The two key tables: (ctrl, meta) for arrows, meta for editing keys.\<close>

definition ARROW_KEYS :: "string \<Rightarrow> (string \<times> string) option" where
  "ARROW_KEYS = [''ArrowLeft'' \<mapsto> ([ESC, CHR ''b''], [CHR 0x01]),
                 ''ArrowRight'' \<mapsto> ([ESC, CHR ''f''], [CHR 0x05])]"

definition META_EDIT_KEYS :: "string \<Rightarrow> string option" where
  "META_EDIT_KEYS = [''Backspace'' \<mapsto> [CHR 0x15], ''Delete'' \<mapsto> [CHR 0x0B]]"

definition SHIFT_ENTER :: string where
  "SHIFT_ENTER = ESC # ''[13;2u''"

text \<open>
  The handler given to \<open>attachCustomKeyEventHandler\<close>: \<open>Some data\<close> when it prevents the
  default, sends \<open>data\<close> as input and returns false; \<open>None\<close> when it returns true.
\<close>

definition remap_arrow :: "key_event \<Rightarrow> string option" where
  "remap_arrow ev =
     (case ARROW_KEYS (ev_key ev) of
        Some (c, m) \<Rightarrow>
          if ctrlKey ev \<noteq> metaKey ev then Some (if ctrlKey ev then c else m) else None
      | None \<Rightarrow> None)"

definition remap_edit :: "key_event \<Rightarrow> string option" where
  "remap_edit ev =
     (case META_EDIT_KEYS (ev_key ev) of
        Some editSeq \<Rightarrow> if metaKey ev \<and> \<not> ctrlKey ev then Some editSeq else None
      | None \<Rightarrow> None)"

definition key_handler :: "bool \<Rightarrow> key_event \<Rightarrow> string option" where
  "key_handler composing ev =
     (if ev_type ev \<noteq> ''keydown'' then None
      else
        let mapped = (if \<not> shiftKey ev \<and> \<not> altKey ev \<and> \<not> isComposing ev \<and> \<not> composing then
                        (case remap_arrow ev of Some d \<Rightarrow> Some d | None \<Rightarrow> remap_edit ev)
                      else None)
        in case mapped of
             Some d \<Rightarrow> Some d
           | None \<Rightarrow>
               if ev_key ev = ''Enter'' \<and> shiftKey ev \<and> \<not> ctrlKey ev \<and> \<not> altKey ev
                  \<and> \<not> metaKey ev \<and> \<not> isComposing ev \<and> \<not> composing
               then Some SHIFT_ENTER else None)"

lemma key_handler_composing [simp]: "key_handler True ev = None"
  by (simp add: key_handler_def Let_def)

text \<open>The chords that are remapped, as a table: key, shift, ctrl, meta, what is sent.\<close>

definition chords :: "(string \<times> bool \<times> bool \<times> bool \<times> string) list" where
  "chords =
     [(''ArrowLeft'', False, True, False, ESC # ''b''),
      (''ArrowRight'', False, True, False, ESC # ''f''),
      (''ArrowLeft'', False, False, True, [CHR 0x01]),
      (''ArrowRight'', False, False, True, [CHR 0x05]),
      (''Backspace'', False, False, True, [CHR 0x15]),
      (''Delete'', False, False, True, [CHR 0x0B]),
      (''Enter'', True, False, False, ESC # ''[13;2u'')]"

text \<open>
  The key handler takes over exactly seven chords, for keydown events without Alt and
  outside an IME composition (neither the event's flag nor the pane's own guard), and sends
  the sequence of the table for each; every other event, in particular every event during a
  composition and every other modifier combination of the same keys, is left to xterm.
\<close>

theorem key_handler_chords:
  "(key_handler composing ev = Some d) =
     (ev_type ev = ''keydown'' \<and> \<not> altKey ev \<and> \<not> isComposing ev \<and> \<not> composing
      \<and> (ev_key ev, shiftKey ev, ctrlKey ev, metaKey ev, d) \<in> set chords)"
proof (cases "ev_type ev = ''keydown'' \<and> \<not> altKey ev \<and> \<not> isComposing ev \<and> \<not> composing")
  case False
  then show ?thesis by (auto simp: key_handler_def Let_def)
next
  case True
  then show ?thesis
    by (auto simp: key_handler_def chords_def Let_def remap_arrow_def remap_edit_def ARROW_KEYS_def
        META_EDIT_KEYS_def SHIFT_ENTER_def split: option.splits if_splits)
qed

section \<open>Malformed mouse reports\<close>

text \<open>The test of \<open>MALFORMED_MOUSE_RE\<close> at one position, and anywhere in the string.\<close>

definition starts_with :: "string \<Rightarrow> string \<Rightarrow> bool" where
  "starts_with p s = (take (length p) s = p)"

definition malformed_at :: "string \<Rightarrow> bool" where
  "malformed_at s =
     (starts_with (ESC # ''[<'') s
      \<and> takeWhile is_digit (drop 3 s) \<noteq> []
      \<and> starts_with '';NaN'' (dropWhile is_digit (drop 3 s)))"

fun malformed_mouse :: "string \<Rightarrow> bool" where
  "malformed_mouse [] = False"
| "malformed_mouse (c # cs) = (malformed_at (c # cs) \<or> malformed_mouse cs)"

lemma starts_withD: "starts_with p s \<Longrightarrow> \<exists>r. s = p @ r"
  unfolding starts_with_def by (metis append_take_drop_id)

lemma malformed_at_iff:
  "malformed_at s = (\<exists>ds q. ds \<noteq> [] \<and> (\<forall>c \<in> set ds. is_digit c) \<and> s = (ESC # ''[<'') @ ds @ '';NaN'' @ q)"
proof
  assume m: "malformed_at s"
  then obtain r where r: "s = (ESC # ''[<'') @ r"
    using starts_withD [of "ESC # ''[<''" s] unfolding malformed_at_def by blast
  with m obtain q where "dropWhile is_digit r = '';NaN'' @ q" "takeWhile is_digit r \<noteq> []"
    using starts_withD [of "'';NaN''" "dropWhile is_digit r"] by (auto simp: malformed_at_def)
  moreover have "takeWhile is_digit r @ dropWhile is_digit r = r" by simp
  ultimately show "\<exists>ds q. ds \<noteq> [] \<and> (\<forall>c \<in> set ds. is_digit c) \<and> s = (ESC # ''[<'') @ ds @ '';NaN'' @ q"
    using r by (metis set_takeWhileD)
next
  assume "\<exists>ds q. ds \<noteq> [] \<and> (\<forall>c \<in> set ds. is_digit c) \<and> s = (ESC # ''[<'') @ ds @ '';NaN'' @ q"
  then obtain ds q where *: "ds \<noteq> []" "\<forall>c \<in> set ds. is_digit c" "s = (ESC # ''[<'') @ ds @ '';NaN'' @ q"
    by auto
  have "\<not> is_digit CHR '';''" by (simp add: is_digit_def)
  then have "takeWhile is_digit (ds @ '';NaN'' @ q) = ds" "dropWhile is_digit (ds @ '';NaN'' @ q) = '';NaN'' @ q"
    using *(2) by (simp_all add: takeWhile_append_stop)
  with * show "malformed_at s" by (simp add: malformed_at_def starts_with_def)
qed

lemma malformed_mouse_iff_suffix: "malformed_mouse s = (\<exists>p r. s = p @ r \<and> malformed_at r)"
proof (induction s)
  case Nil
  then show ?case by (simp add: malformed_at_def starts_with_def)
next
  case (Cons c cs)
  have "(\<exists>p r. c # cs = p @ r \<and> malformed_at r) = (malformed_at (c # cs) \<or> (\<exists>p r. cs = p @ r \<and> malformed_at r))"
    by (metis append_Cons append_Nil list.inject neq_Nil_conv)
  with Cons show ?case by simp
qed

text \<open>
  The input filter finds a mouse report with \<open>NaN\<close> coordinates wherever it is in the
  data: it is true exactly when the data contains an escape character, \<open>[<\<close>, one or more
  digits and \<open>;NaN\<close> in a row.
\<close>

theorem malformed_mouse_iff:
  "malformed_mouse s =
     (\<exists>p ds q. ds \<noteq> [] \<and> (\<forall>c \<in> set ds. is_digit c) \<and> s = p @ (ESC # ''[<'') @ ds @ '';NaN'' @ q)"
  unfolding malformed_mouse_iff_suffix malformed_at_iff by blast

section \<open>Fitting the grid\<close>

definition exponent_of :: "string \<Rightarrow> rat" where
  "exponent_of s =
     (case s of [] \<Rightarrow> 1
      | e # q \<Rightarrow>
          let (neg, r) = split_sign q; ds = takeWhile is_digit r in
          if (e = CHR ''e'' \<or> e = CHR ''E'') \<and> ds \<noteq> []
          then (if neg then 1 / 10 ^ dec_val ds else 10 ^ dec_val ds) else 1)"

text \<open>\<open>parseFloat\<close>: white space, a sign, \<open>Infinity\<close> or the longest decimal literal.\<close>

definition parseFloat :: "string \<Rightarrow> jsnum" where
  "parseFloat s =
     (let (neg, r) = split_sign (dropWhile is_ws s);
          ip = takeWhile is_digit r;
          r1 = dropWhile is_digit r;
          fp = (if r1 \<noteq> [] \<and> hd r1 = CHR ''.'' then takeWhile is_digit (tl r1) else []);
          r2 = (if r1 \<noteq> [] \<and> hd r1 = CHR ''.'' then dropWhile is_digit (tl r1) else r1);
          v = of_nat (dec_val (ip @ fp)) / 10 ^ length fp * exponent_of r2
      in if starts_with ''Infinity'' r then (if neg then NegInf else PosInf)
         else if ip = [] \<and> fp = [] then NaN
         else Num (if neg then - v else v))"

record fit_env =
  cell :: "(jsnum \<times> jsnum) option"   \<comment> \<open>\<open>dimensions.css.cell\<close>, width and height\<close>
  has_parent :: bool
  paddingLeft :: string
  paddingRight :: string
  paddingTop :: string
  paddingBottom :: string
  parentWidth :: string
  parentHeight :: string
  addon_fit :: "(jsnum \<times> jsnum) option"  \<comment> \<open>the grid after \<open>f.fit()\<close>; \<open>None\<close>: it throws\<close>
  accepts :: "jsnum \<Rightarrow> jsnum \<Rightarrow> bool"     \<comment> \<open>\<open>t.resize(cols, rows)\<close> does not throw\<close>

datatype fit_result = FitThrows | FitDone bool "jsnum \<times> jsnum"

definition MIN_COLS :: rat where "MIN_COLS = 2"
definition MIN_ROWS :: rat where "MIN_ROWS = 1"

definition fit_cols :: "fit_env \<Rightarrow> jsnum \<Rightarrow> jsnum" where
  "fit_cols e w =
     (let padH = js_add (parseFloat (paddingLeft e)) (parseFloat (paddingRight e));
          availW = js_sub (parseFloat (parentWidth e)) padH
      in js_max (Num MIN_COLS) (js_floor (js_div availW w)))"

definition fit_rows :: "fit_env \<Rightarrow> jsnum \<Rightarrow> jsnum" where
  "fit_rows e h =
     (let padV = js_add (parseFloat (paddingTop e)) (parseFloat (paddingBottom e));
          availH = js_sub (parseFloat (parentHeight e)) padV
      in js_max (Num MIN_ROWS) (js_floor (js_div availH h)))"

definition fit_fallback :: "fit_env \<Rightarrow> jsnum \<times> jsnum \<Rightarrow> fit_result" where
  "fit_fallback e grid = (case addon_fit e of Some g \<Rightarrow> FitDone True g | None \<Rightarrow> FitDone False grid)"

text \<open>\<open>NaN !== NaN\<close> holds, so an unchanged grid is one whose numbers are equal and not \<open>NaN\<close>.\<close>

definition fitFullWidth :: "fit_env \<Rightarrow> jsnum \<times> jsnum \<Rightarrow> fit_result" where
  "fitFullWidth e grid =
     (case cell e of
        None \<Rightarrow> fit_fallback e grid
      | Some (w, h) \<Rightarrow>
          if \<not> has_parent e then fit_fallback e grid
          else if w = Num 0 \<or> h = Num 0 then fit_fallback e grid
          else
            let cols = fit_cols e w; rows = fit_rows e h in
            if (cols, rows) = grid \<and> cols \<noteq> NaN \<and> rows \<noteq> NaN then FitDone True grid
            else if accepts e cols rows then FitDone True (cols, rows) else FitThrows)"

lemma fit_axis:
  fixes avail cellsize least :: rat
  assumes "0 < cellsize" and "least \<in> \<int>"
  shows "\<exists>n :: int. js_max (Num least) (js_floor (js_div (Num avail) (Num cellsize))) = Num (of_int n)
     \<and> least \<le> of_int n \<and> (least < of_int n \<longrightarrow> of_int n * cellsize \<le> avail)
     \<and> avail < (of_int n + 1) * cellsize"
proof -
  let ?k = "\<lfloor>avail / cellsize\<rfloor>"
  obtain m where m: "least = of_int m" using assms(2) by (auto elim: Ints_cases)
  have fl: "of_int ?k * cellsize \<le> avail" "avail < (of_int ?k + 1) * cellsize"
    using of_int_floor_le [of "avail / cellsize", unfolded pos_le_divide_eq [OF assms(1)]]
      floor_correct [of "avail / cellsize"] assms(1)
    by (simp_all add: pos_divide_less_eq)
  have eq: "js_max (Num least) (js_floor (js_div (Num avail) (Num cellsize))) = Num (of_int (max m ?k))"
    using assms(1) m by (simp add: of_int_max)
  have "avail < (of_int (max m ?k) + 1) * cellsize"
  proof (rule less_le_trans [OF fl(2)])
    show "(of_int ?k + 1) * cellsize \<le> (of_int (max m ?k) + 1) * cellsize"
      using assms(1) by (intro mult_right_mono) auto
  qed
  with eq fl m show ?thesis by (intro exI [of _ "max m ?k"]) (auto simp: max_def)
qed

text \<open>
  On measured cells and computed lengths that are numbers, \<open>fitFullWidth\<close> gives the
  largest grid that fits: whole numbers, at least two columns and one row; above these
  minima the cells fit into the pane less its padding, and one more column or row would not.
\<close>

theorem fitFullWidth_largest:
  assumes "cell e = Some (Num w, Num h)" and "has_parent e" and "0 < w" and "0 < h"
    and "parseFloat (paddingLeft e) = Num pl" and "parseFloat (paddingRight e) = Num pr"
    and "parseFloat (paddingTop e) = Num pt" and "parseFloat (paddingBottom e) = Num pb"
    and "parseFloat (parentWidth e) = Num pw" and "parseFloat (parentHeight e) = Num ph"
    and "\<And>c r :: int. accepts e (Num (of_int c)) (Num (of_int r))"
  shows "\<exists>c r :: int. fitFullWidth e grid = FitDone True (Num (of_int c), Num (of_int r))
     \<and> 2 \<le> c \<and> 1 \<le> r
     \<and> (2 < c \<longrightarrow> of_int c * w \<le> pw - (pl + pr)) \<and> pw - (pl + pr) < (of_int c + 1) * w
     \<and> (1 < r \<longrightarrow> of_int r * h \<le> ph - (pt + pb)) \<and> ph - (pt + pb) < (of_int r + 1) * h"
proof -
  obtain c :: int where c: "fit_cols e (Num w) = Num (of_int c)" "2 \<le> c"
      "2 < c \<longrightarrow> of_int c * w \<le> pw - (pl + pr)" "pw - (pl + pr) < (of_int c + 1) * w"
    using fit_axis [of w 2 "pw - (pl + pr)"] assms by (auto simp: fit_cols_def MIN_COLS_def)
  obtain r :: int where r: "fit_rows e (Num h) = Num (of_int r)" "1 \<le> r"
      "1 < r \<longrightarrow> of_int r * h \<le> ph - (pt + pb)" "ph - (pt + pb) < (of_int r + 1) * h"
    using fit_axis [of h 1 "ph - (pt + pb)"] assms by (auto simp: fit_rows_def MIN_ROWS_def)
  have "fitFullWidth e grid = FitDone True (Num (of_int c), Num (of_int r))"
    using assms c(1) r(1) by (auto simp: fitFullWidth_def Let_def)
  with c r show ?thesis by blast
qed

definition demo_fit :: fit_env where
  "demo_fit = \<lparr>cell = Some (Num 8, Num 16), has_parent = True, paddingLeft = ''4px'',
     paddingRight = ''4.5px'', paddingTop = ''0px'', paddingBottom = ''0px'', parentWidth = ''800px'',
     parentHeight = ''600px'', addon_fit = None, accepts = (\<lambda>c r. c \<noteq> NaN \<and> r \<noteq> NaN)\<rparr>"

text \<open>A decimal literal before anything that cannot continue it.\<close>

definition ends_number :: "string \<Rightarrow> bool" where
  "ends_number r = (r \<noteq> [] \<and> \<not> is_digit (hd r) \<and> hd r \<noteq> CHR ''.'' \<and> exponent_of r = 1)"

lemma parseFloat_decimal:
  assumes "ip \<noteq> []" and "\<forall>c \<in> set ip. is_digit c" and "\<forall>c \<in> set fp. is_digit c" and "ends_number r"
  shows "parseFloat (ip @ r) = Num (of_nat (dec_val ip))"
    and "parseFloat (ip @ CHR ''.'' # fp @ r) = Num (of_nat (dec_val (ip @ fp)) / 10 ^ length fp)"
proof -
  obtain d ds where ip: "ip = d # ds" using assms(1) by (cases ip) auto
  have d: "is_digit d" using assms(2) ip by simp
  obtain c q where r: "r = c # q" "\<not> is_digit c" "c \<noteq> CHR ''.''" "exponent_of r = 1"
    using assms(4) by (cases r) (auto simp: ends_number_def)
  have nd: "\<not> is_digit CHR ''I''" by (simp add: is_digit_def)
  have start: "dropWhile is_ws (ip @ s) = ip @ s" "split_sign (ip @ s) = (False, ip @ s)"
      "\<not> starts_with ''Infinity'' (ip @ s)" for s
    using d nd ip by (auto simp: is_digit_not_ws split_sign_def is_digit_not_sign starts_with_def)
  have t: "takeWhile is_digit (ip @ x # s) = ip" "dropWhile is_digit (ip @ x # s) = x # s"
    if "\<not> is_digit x" for x s using that assms(2) by (simp_all add: takeWhile_append_stop)
  have f: "takeWhile is_digit (fp @ r) = fp" "dropWhile is_digit (fp @ r) = r"
    using r assms(3) by (simp_all add: takeWhile_append_stop)
  show "parseFloat (ip @ r) = Num (of_nat (dec_val ip))"
    unfolding parseFloat_def start(1) start(2) using start(3) [of r] assms(1) r
    by (simp add: Let_def t)
  show "parseFloat (ip @ CHR ''.'' # fp @ r) = Num (of_nat (dec_val (ip @ fp)) / 10 ^ length fp)"
    unfolding parseFloat_def start(1) start(2) using start(3) [of "CHR ''.'' # fp @ r"] assms(1) r(4)
    by (simp add: Let_def t [OF dot_not_digit] f)
qed

lemma ends_number_px [simp]: "ends_number ''px''"
  by (simp add: ends_number_def exponent_of_def is_digit_def split: prod.splits)

lemma ends_number_space [simp]: "ends_number (CHR '' '' # r)"
  by (simp add: ends_number_def exponent_of_def is_digit_def split: prod.splits)

lemma demo_fit_floats:
  "parseFloat ''4px'' = Num 4" "parseFloat ''4.5px'' = Num (9 / 2)" "parseFloat ''0px'' = Num 0"
  "parseFloat ''800px'' = Num 800" "parseFloat ''600px'' = Num 600"
  using parseFloat_decimal [of "''4''" "''5''" "''px''"] parseFloat_decimal(1) [of "''0''" "[]" "''px''"]
    parseFloat_decimal(1) [of "''800''" "[]" "''px''"] parseFloat_decimal(1) [of "''600''" "[]" "''px''"]
  by (simp_all add: is_digit_def dec_val_def digit_val_def)

theorem fitFullWidth_largest_witness:
  "\<exists>c r :: int. fitFullWidth demo_fit (Num 80, Num 24) = FitDone True (Num (of_int c), Num (of_int r))
     \<and> 2 \<le> c \<and> 1 \<le> r
     \<and> (2 < c \<longrightarrow> of_int c * 8 \<le> 800 - (4 + 9 / 2 :: rat)) \<and> 800 - (4 + 9 / 2 :: rat) < (of_int c + 1) * 8
     \<and> (1 < r \<longrightarrow> of_int r * 16 \<le> 600 - (0 + 0 :: rat)) \<and> 600 - (0 + 0 :: rat) < (of_int r + 1) * 16"
  by (rule fitFullWidth_largest [of demo_fit 8 16 4 "9 / 2" 0 0 800 600 "(Num 80, Num 24)"])
    (simp_all add: demo_fit_def demo_fit_floats)

end
