(* ===== verification/UrlApi.thy ===== *)
theory UrlApi
  imports JsBase
begin

text \<open>
  The HTTP side: \<^verbatim>\<open>lib/path.ts\<close>, \<^verbatim>\<open>lib/api.ts\<close>, \<open>basename\<close> of \<^verbatim>\<open>WorkspaceWizard.tsx\<close> and the request builders of
  \<^verbatim>\<open>features/terminal/terminal.ts\<close>, \<^verbatim>\<open>features/workspace/workspace.ts\<close>,
  \<^verbatim>\<open>features/auth/auth.ts\<close> and \<^verbatim>\<open>features/system/system.ts\<close>. A request is the record
  passed to \<open>fetch\<close>; the server's answer is an argument. Failures are values of \<open>api_error\<close>.

  \<open>encodeURIComponent\<close> and the serializer of \<open>URLSearchParams\<close> work on the UTF-8 bytes of a
  string. Both provide the interface \<open>url_codec\<close>: what they write can be read back and does
  not contain the separators of the place it is written to.
\<close>

section \<open>Paths\<close>

definition endsWith_char :: "char \<Rightarrow> string \<Rightarrow> bool" where
  "endsWith_char c s = (s \<noteq> [] \<and> last s = c)"

fun lastIndexOf :: "char \<Rightarrow> string \<Rightarrow> int" where
  "lastIndexOf c [] = -1"
| "lastIndexOf c (x # xs) =
     (let k = lastIndexOf c xs in if k \<ge> 0 then k + 1 else if x = c then 0 else -1)"

definition joinPath :: "string \<Rightarrow> string \<Rightarrow> string" where
  "joinPath base name =
     (if length base = 0 then ''/'' @ name
      else if endsWith_char CHR ''/'' base then base @ name else base @ ''/'' @ name)"

definition basename :: "string \<Rightarrow> string" where
  "basename path =
     (let trimmed = (if endsWith_char CHR ''/'' path \<and> length path > 1 then butlast path else path);
          idx = lastIndexOf CHR ''/'' trimmed
      in if idx \<ge> 0 then drop (nat idx + 1) trimmed else trimmed)"

lemma lastIndexOf_absent: "c \<notin> set s \<Longrightarrow> lastIndexOf c s = -1"
  by (induction s) auto

lemma lastIndexOf_append: "c \<notin> set t \<Longrightarrow> lastIndexOf c (s @ c # t) = int (length s)"
  by (induction s) (auto simp: lastIndexOf_absent)

lemma basename_after_slash:
  assumes "CHR ''/'' \<notin> set n" and "n \<noteq> []"
  shows "basename (s @ CHR ''/'' # n) = n"
proof -
  have "\<not> endsWith_char CHR ''/'' (s @ CHR ''/'' # n)"
    using assms by (auto simp: endsWith_char_def) (metis last_in_set)
  then show ?thesis
    using assms by (simp add: basename_def Let_def lastIndexOf_append)
qed

section \<open>Percent encodings\<close>

definition alnum :: "char \<Rightarrow> bool" where
  "alnum c = (let n = (of_char c :: nat) in
     (48 \<le> n \<and> n \<le> 57) \<or> (65 \<le> n \<and> n \<le> 90) \<or> (97 \<le> n \<and> n \<le> 122))"

definition hex_char :: "nat \<Rightarrow> char" where
  "hex_char d = ''0123456789ABCDEF'' ! d"

definition hex_val :: "char \<Rightarrow> nat" where
  "hex_val c = (let n = (of_char c :: nat) in if n \<le> 57 then n - 48 else n - 55)"

definition pct_byte :: "char \<Rightarrow> string" where
  "pct_byte c = [CHR ''%'', hex_char (of_char c div 16), hex_char (of_char c mod 16)]"

definition uri_unreserved :: "char \<Rightarrow> bool" where
  "uri_unreserved c = (alnum c \<or> c \<in> set ''-_.!~*()'' \<or> c = CHR 0x27)"

definition encodeURIComponent :: "string \<Rightarrow> string" where
  "encodeURIComponent s = concat (map (\<lambda>c. if uri_unreserved c then [c] else pct_byte c) s)"

definition form_unreserved :: "char \<Rightarrow> bool" where
  "form_unreserved c = (alnum c \<or> c \<in> set ''*-._'')"

definition form_encode :: "string \<Rightarrow> string" where
  "form_encode s = concat (map (\<lambda>c. if c = CHR '' '' then ''+''
     else if form_unreserved c then [c] else pct_byte c) s)"

text \<open>The inverse a server applies: \<open>sp\<close> says whether a plus sign means a space.\<close>

fun pct_decode :: "bool \<Rightarrow> string \<Rightarrow> string" where
  "pct_decode sp [] = []"
| "pct_decode sp [c] = [if sp \<and> c = CHR ''+'' then CHR '' '' else c]"
| "pct_decode sp [c, a] = [if sp \<and> c = CHR ''+'' then CHR '' '' else c,
     if sp \<and> a = CHR ''+'' then CHR '' '' else a]"
| "pct_decode sp (c # a # b # r) =
     (if c = CHR ''%'' then char_of (hex_val a * 16 + hex_val b) # pct_decode sp r
      else (if sp \<and> c = CHR ''+'' then CHR '' '' else c) # pct_decode sp (a # b # r))"

lemma less_16_cases:
  fixes d :: nat
  assumes "d < 16"
  shows "d < 10 \<or> d = 10 \<or> d = 11 \<or> d = 12 \<or> d = 13 \<or> d = 14 \<or> d = 15"
  using assms by presburger

lemma hex_val_char: "d < 16 \<Longrightarrow> hex_val (hex_char d) = d"
  by (drule less_16_cases, elim disjE, drule less_10_cases, elim disjE)
    (simp_all add: hex_val_def hex_char_def)

lemma hex_char_alnum: "d < 16 \<Longrightarrow> alnum (hex_char d)"
  by (drule less_16_cases, elim disjE, drule less_10_cases, elim disjE)
    (simp_all add: alnum_def hex_char_def)

lemma of_char_less: "(of_char c :: nat) < 256"
  using of_char_mod_256 [of c, where ?'a = nat] mod_less_divisor [of 256 "of_char c"] by simp

lemma hex_roundtrip:
  "char_of (hex_val (hex_char (of_char c div 16)) * 16 + hex_val (hex_char (of_char c mod 16))) = c"
proof -
  have "(of_char c :: nat) div 16 < 16" using of_char_less [of c] by (simp add: div_less_iff_less_mult)
  then show ?thesis by (simp add: hex_val_char)
qed

lemma pct_decode_pct_byte: "pct_decode sp (pct_byte c @ r) = c # pct_decode sp r"
  by (simp add: pct_byte_def hex_roundtrip)

lemma pct_decode_plain:
  assumes "c \<noteq> CHR ''%''" and "\<not> (sp \<and> c = CHR ''+'')"
  shows "pct_decode sp (c # r) = c # pct_decode sp r"
proof (cases r)
  case (Cons a r')
  with assms show ?thesis by (cases r') auto
qed (use assms in auto)

lemma pct_decode_plus: "pct_decode True (CHR ''+'' # r) = CHR '' '' # pct_decode True r"
proof (cases r)
  case (Cons a r')
  then show ?thesis by (cases r') auto
qed auto

lemma alnum_not_special: "alnum c \<Longrightarrow> c \<notin> set ''%+/?#&= ''"
  by (auto simp: alnum_def)

lemma unreserved_not_special:
  "uri_unreserved c \<Longrightarrow> c \<notin> set ''%+/?#&= ''"
  "form_unreserved c \<Longrightarrow> c \<notin> set ''%+/?#&= ''"
  using alnum_not_special [of c] by (auto simp: uri_unreserved_def form_unreserved_def)

lemma pct_byte_chars: "x \<in> set (pct_byte c) \<Longrightarrow> x = CHR ''%'' \<or> alnum x"
proof -
  have "(of_char c :: nat) div 16 < 16" using of_char_less [of c] by (simp add: div_less_iff_less_mult)
  then show "x \<in> set (pct_byte c) \<Longrightarrow> x = CHR ''%'' \<or> alnum x"
    by (auto simp: pct_byte_def hex_char_alnum)
qed

lemma encodeURIComponent_chars:
  assumes "x \<in> set (encodeURIComponent s)"
  shows "x \<notin> set ''+/?#&= ''"
proof -
  obtain c where "x \<in> set (if uri_unreserved c then [c] else pct_byte c)"
    using assms unfolding encodeURIComponent_def set_concat set_map by blast
  then show ?thesis
    using unreserved_not_special(1) [of x] alnum_not_special [of x] pct_byte_chars [of x c]
    by (auto split: if_splits)
qed

lemma form_encode_chars:
  assumes "x \<in> set (form_encode s)"
  shows "x \<notin> set ''/?#&= ''"
proof -
  obtain c where "x \<in> set (if c = CHR '' '' then ''+'' else if form_unreserved c then [c] else pct_byte c)"
    using assms unfolding form_encode_def set_concat set_map by blast
  then show ?thesis
    using unreserved_not_special(2) [of x] alnum_not_special [of x] pct_byte_chars [of x c]
    by (auto split: if_splits)
qed

lemma decode_encodeURIComponent: "pct_decode False (encodeURIComponent s) = s"
proof (induction s)
  case (Cons c s)
  then show ?case
    using unreserved_not_special(1) [of c]
    by (auto simp: encodeURIComponent_def pct_decode_pct_byte pct_decode_plain)
qed (simp add: encodeURIComponent_def)

lemma decode_form_encode: "pct_decode True (form_encode s) = s"
proof (induction s)
  case (Cons c s)
  then show ?case
    using unreserved_not_special(2) [of c]
    by (auto simp: form_encode_def pct_decode_pct_byte pct_decode_plain pct_decode_plus)
qed (simp add: form_encode_def)

section \<open>The interface of an encoder\<close>

locale url_codec =
  fixes enc :: "string \<Rightarrow> string"
    and dec :: "string \<Rightarrow> string"
    and sep :: char
  assumes dec_enc: "dec (enc s) = s"
    and enc_no_sep: "sep \<notin> set (enc s)"
begin

lemma enc_inject [simp]: "(enc a = enc b) = (a = b)"
  by (metis dec_enc)

lemma enc_sep_inject:
  "(enc a @ sep # u = enc b @ sep # v) = (a = b \<and> u = v)"
  by (auto dest: append_sep_inject [OF enc_no_sep enc_no_sep])

lemma takeWhile_enc: "takeWhile (\<lambda>c. c \<noteq> sep) (enc a @ sep # u) = enc a"
  using enc_no_sep [of a] by (intro takeWhile_append_stop) auto

lemma dropWhile_enc: "dropWhile (\<lambda>c. c \<noteq> sep) (enc a @ sep # u) = sep # u"
proof -
  have "\<forall>c \<in> set (enc a). c \<noteq> sep" using enc_no_sep [of a] by auto
  then show ?thesis by simp
qed

lemma takeWhile_enc_end: "takeWhile (\<lambda>c. c \<noteq> sep) (enc a) = enc a"
  using enc_no_sep [of a] by (simp add: takeWhile_eq_all_conv) auto

lemma dropWhile_enc_end: "dropWhile (\<lambda>c. c \<noteq> sep) (enc a) = []"
  using enc_no_sep [of a] by (simp add: dropWhile_eq_Nil_conv) auto

end

interpretation uri: url_codec encodeURIComponent "pct_decode False" "CHR ''/''"
  by unfold_locales (use decode_encodeURIComponent encodeURIComponent_chars in force)+

interpretation form_amp: url_codec form_encode "pct_decode True" "CHR ''&''"
  by unfold_locales (use decode_form_encode form_encode_chars in force)+

interpretation form_eq: url_codec form_encode "pct_decode True" "CHR ''=''"
  by unfold_locales (use decode_form_encode form_encode_chars in force)+

section \<open>Requests and answers\<close>

text \<open>
  A body that was written by \<open>JSON.stringify\<close> is represented by the value it was written
  from, a response text by what \<open>JSON.parse\<close> makes of it: \<open>NotJson\<close> is a text it rejects.
\<close>

record upload_file =
  file_name :: string
  file_bytes :: string

datatype body_init =
    BodyJson json
  | BodyForm "(string \<times> upload_file \<times> string) list"

record RequestOptions =
  opt_method :: "string option"
  opt_body :: "json option"
  opt_signal :: "nat option"

record request_init =
  ri_method :: string
  ri_credentials :: string
  ri_headers :: "(string \<times> string) list"
  ri_body :: "body_init option"
  ri_signal :: "nat option"

datatype body_text = NotJson string | AsJson json

record response =
  res_status :: nat
  res_statusText :: string
  res_body :: body_text

datatype fetch_result = Rejected string | Answered response

text \<open>What a caller can catch: the error \<open>fetch\<close> rejects with, an \<open>ApiError\<close>, or the
  \<open>SyntaxError\<close> of \<open>JSON.parse\<close>.\<close>

datatype api_error =
    FetchError string
  | ApiError nat string
  | JsonSyntaxError

type_synonym fetcher = "string \<Rightarrow> request_init \<Rightarrow> fetch_result"

abbreviation no_options :: RequestOptions where
  "no_options \<equiv> \<lparr>opt_method = None, opt_body = None, opt_signal = None\<rparr>"

abbreviation opts_with :: "string \<Rightarrow> json option \<Rightarrow> RequestOptions" where
  "opts_with m b \<equiv> \<lparr>opt_method = Some m, opt_body = b, opt_signal = None\<rparr>"

definition res_ok :: "response \<Rightarrow> bool" where
  "res_ok res = (200 \<le> res_status res \<and> res_status res \<le> 299)"

definition error_text :: "json \<Rightarrow> string option" where
  "error_text body =
     (if is_record body then
        (case get_prop body ''error'' of
           Some (JStr s) \<Rightarrow> if length s > 0 then Some s else None
         | _ \<Rightarrow> None)
      else None)"

definition parseError :: "response \<Rightarrow> api_error" where
  "parseError res =
     (let message = nat_str 10 (res_status res) @ '' '' @ res_statusText res;
          message = (case res_body res of
                       NotJson t \<Rightarrow> message
                     | AsJson body \<Rightarrow> or_else (error_text body) message)
      in ApiError (res_status res) message)"

definition buildInit :: "RequestOptions \<Rightarrow> request_init" where
  "buildInit options =
     \<lparr>ri_method = or_else (opt_method options) ''GET'', ri_credentials = ''same-origin'',
      ri_headers = (if opt_body options \<noteq> None then [(''Content-Type'', ''application/json'')] else []),
      ri_body = map_option BodyJson (opt_body options),
      ri_signal = opt_signal options\<rparr>"

definition send_checked :: "fetcher \<Rightarrow> string \<Rightarrow> request_init \<Rightarrow> api_error + response" where
  "send_checked fetch path init =
     (case fetch path init of
        Rejected e \<Rightarrow> Inl (FetchError e)
      | Answered res \<Rightarrow> if \<not> res_ok res then Inl (parseError res) else Inr res)"

definition apiJson :: "fetcher \<Rightarrow> string \<Rightarrow> RequestOptions \<Rightarrow> api_error + json" where
  "apiJson fetch path options =
     (case send_checked fetch path (buildInit options) of
        Inl e \<Rightarrow> Inl e
      | Inr res \<Rightarrow> (case res_body res of NotJson t \<Rightarrow> Inl JsonSyntaxError | AsJson v \<Rightarrow> Inr v))"

definition apiVoid :: "fetcher \<Rightarrow> string \<Rightarrow> RequestOptions \<Rightarrow> api_error + unit" where
  "apiVoid fetch path options =
     (case send_checked fetch path (buildInit options) of Inl e \<Rightarrow> Inl e | Inr res \<Rightarrow> Inr ())"

definition apiRaw ::
  "fetcher \<Rightarrow> string \<Rightarrow> string option \<Rightarrow> body_init \<Rightarrow> nat option \<Rightarrow> api_error + response" where
  "apiRaw fetch path meth body sig =
     send_checked fetch path
       \<lparr>ri_method = or_else meth ''POST'', ri_credentials = ''same-origin'', ri_headers = [],
        ri_body = Some body, ri_signal = sig\<rparr>"

section \<open>Query strings\<close>

text \<open>\<open>URLSearchParams.set\<close>: the first pair of that name gets the value, later ones go.\<close>

fun usp_set :: "string \<Rightarrow> string \<Rightarrow> (string \<times> string) list \<Rightarrow> (string \<times> string) list" where
  "usp_set k v [] = [(k, v)]"
| "usp_set k v (p # ps) =
     (if fst p = k then (k, v) # filter (\<lambda>q. fst q \<noteq> k) ps else p # usp_set k v ps)"

fun usp_string :: "(string \<times> string) list \<Rightarrow> string" where
  "usp_string [] = []"
| "usp_string [(k, v)] = form_encode k @ ''='' @ form_encode v"
| "usp_string ((k, v) # p # ps) = form_encode k @ ''='' @ form_encode v @ ''&'' @ usp_string (p # ps)"

definition usp_of :: "(string \<times> string option) list \<Rightarrow> (string \<times> string) list" where
  "usp_of params =
     fold (\<lambda>(k, v) usp. case v of None \<Rightarrow> usp | Some x \<Rightarrow> usp_set k x usp) params []"

definition qs :: "(string \<times> string option) list \<Rightarrow> string" where
  "qs params = (let s = usp_string (usp_of params) in if length s > 0 then ''?'' @ s else '''')"

text \<open>The reader of a query string (the server's, or \<open>new URLSearchParams\<close>).\<close>

lemma dropWhile_tl_shorter:
  "c \<in> set s \<Longrightarrow> length (dropWhile P s) - Suc 0 < length s"
  using length_dropWhile_le [of P s] by (cases s) auto

function js_split :: "char \<Rightarrow> string \<Rightarrow> string list" where
  "js_split c s =
     (let a = takeWhile (\<lambda>x. x \<noteq> c) s; r = dropWhile (\<lambda>x. x \<noteq> c) s
      in if r = [] then [a] else a # js_split c (tl r))"
  by pat_completeness auto
termination
  by (relation "measure (\<lambda>(c, s). length s)") (simp_all add: dropWhile_tl_shorter)

declare js_split.simps [simp del]

definition read_pair :: "string \<Rightarrow> string \<times> string" where
  "read_pair s = (pct_decode True (takeWhile (\<lambda>x. x \<noteq> CHR ''='') s),
                  pct_decode True (drop 1 (dropWhile (\<lambda>x. x \<noteq> CHR ''='') s)))"

definition parse_query :: "string \<Rightarrow> (string \<times> string) list" where
  "parse_query s =
     (case s of [] \<Rightarrow> [] | c # r \<Rightarrow> map read_pair (filter (\<lambda>p. p \<noteq> []) (js_split CHR ''&'' r)))"

lemma js_split_none: "c \<notin> set s \<Longrightarrow> js_split c s = [s]"
proof -
  assume "c \<notin> set s"
  then have "\<forall>x \<in> set s. x \<noteq> c" by auto
  then show ?thesis by (subst js_split.simps) (simp add: Let_def takeWhile_eq_all_conv)
qed

lemma js_split_cons: "c \<notin> set s \<Longrightarrow> js_split c (s @ c # r) = s # js_split c r"
proof -
  assume "c \<notin> set s"
  then have "\<forall>x \<in> set s. x \<noteq> c" by auto
  then show ?thesis by (subst js_split.simps) (simp add: Let_def)
qed

lemma read_pair_encoded: "read_pair (form_encode k @ CHR ''='' # form_encode v) = (k, v)"
  by (simp add: read_pair_def form_eq.takeWhile_enc form_eq.dropWhile_enc decode_form_encode
      del: takeWhile_append dropWhile_append)

lemma pair_no_amp: "CHR ''&'' \<notin> set (form_encode k @ CHR ''='' # form_encode v)"
  using form_amp.enc_no_sep [of k] form_amp.enc_no_sep [of v] by simp

lemma split_usp_string:
  "ps \<noteq> [] \<Longrightarrow>
   js_split CHR ''&'' (usp_string ps) = map (\<lambda>(k, v). form_encode k @ CHR ''='' # form_encode v) ps"
proof (induction ps rule: usp_string.induct)
  case (2 k v)
  then show ?case using js_split_none [OF pair_no_amp] by simp
next
  case (3 k v p ps)
  then show ?case using js_split_cons [OF pair_no_amp, of k v "usp_string (p # ps)"] by simp
qed simp

lemma usp_string_nonempty: "ps \<noteq> [] \<Longrightarrow> usp_string ps \<noteq> []"
  by (induction ps rule: usp_string.induct) auto

lemma usp_set_new: "k \<notin> fst ` set ps \<Longrightarrow> usp_set k v ps = ps @ [(k, v)]"
  by (induction ps) auto

lemma usp_of_distinct:
  assumes "distinct (map fst params)"
  shows "usp_of params = [(k, x). (k, Some x) \<leftarrow> params]"
  using assms
proof (induction params rule: rev_induct)
  case (snoc p ps)
  obtain k v where p: "p = (k, v)" by (cases p)
  have "k \<notin> fst ` set [(k, x). (k, Some x) \<leftarrow> ps]"
    using snoc.prems p by (auto split: option.splits) (metis fst_conv image_eqI)
  moreover have "usp_of ps = [(k, x). (k, Some x) \<leftarrow> ps]" using snoc by simp
  ultimately show ?case using p
    by (cases v) (simp_all add: usp_of_def usp_set_new)
qed (simp add: usp_of_def)
section \<open>The server's resources\<close>

definition workspace_path :: "string \<Rightarrow> string" where
  "workspace_path wsId = ''/api/workspaces/'' @ encodeURIComponent wsId"

definition terminals_path :: "string \<Rightarrow> string" where
  "terminals_path wsId = ''/api/workspaces/'' @ encodeURIComponent wsId @ ''/terminals''"

definition terminal_path :: "string \<Rightarrow> string \<Rightarrow> string" where
  "terminal_path wsId tmId =
     ''/api/workspaces/'' @ encodeURIComponent wsId @ ''/terminals/'' @ encodeURIComponent tmId"

definition createTerminal :: "fetcher \<Rightarrow> string \<Rightarrow> string \<Rightarrow> api_error + json" where
  "createTerminal fetch wsId name =
     apiJson fetch (terminals_path wsId) (opts_with ''POST'' (Some (JObj [(''name'', JStr name)])))"

definition deleteTerminal :: "fetcher \<Rightarrow> string \<Rightarrow> string \<Rightarrow> api_error + unit" where
  "deleteTerminal fetch wsId tmId = apiVoid fetch (terminal_path wsId tmId) (opts_with ''DELETE'' None)"

definition renameTerminal :: "fetcher \<Rightarrow> string \<Rightarrow> string \<Rightarrow> string \<Rightarrow> api_error + json" where
  "renameTerminal fetch wsId tmId name =
     apiJson fetch (terminal_path wsId tmId)
       (opts_with ''PATCH'' (Some (JObj [(''name'', JStr name)])))"

definition getAttachCmd :: "fetcher \<Rightarrow> string \<Rightarrow> string \<Rightarrow> api_error + json" where
  "getAttachCmd fetch wsId tmId = apiJson fetch (terminal_path wsId tmId @ ''/attach-cmd'') no_options"

definition wsPath :: "string \<Rightarrow> string \<Rightarrow> string" where
  "wsPath wsId tmId = terminal_path wsId tmId @ ''/ws''"

definition uploadFiles ::
  "fetcher \<Rightarrow> string \<Rightarrow> string \<Rightarrow> upload_file list \<Rightarrow> api_error + unit" where
  "uploadFiles fetch wsId tmId files =
     (let form = BodyForm (map (\<lambda>f. (''files'', f, file_name f)) files)
      in case apiRaw fetch (terminal_path wsId tmId @ ''/upload'') (Some ''POST'') form None of
           Inl e \<Rightarrow> Inl e
         | Inr res \<Rightarrow> Inr ())"

definition fsList :: "fetcher \<Rightarrow> string \<Rightarrow> api_error + json" where
  "fsList fetch path = apiJson fetch (''/api/fs/list'' @ qs [(''path'', Some path)]) no_options"

definition fsBrowse :: "fetcher \<Rightarrow> string \<Rightarrow> api_error + json" where
  "fsBrowse fetch path = apiJson fetch (''/api/fs/browse'' @ qs [(''path'', Some path)]) no_options"

definition downloadUrl :: "string \<Rightarrow> string" where
  "downloadUrl path = ''/api/fs/download'' @ qs [(''path'', Some path)]"

definition fsRead :: "fetcher \<Rightarrow> string \<Rightarrow> api_error + json" where
  "fsRead fetch path = apiJson fetch (''/api/fs/read'' @ qs [(''path'', Some path)]) no_options"

definition fsWrite :: "fetcher \<Rightarrow> string \<Rightarrow> string \<Rightarrow> api_error + unit" where
  "fsWrite fetch path content =
     apiVoid fetch (''/api/fs/write'' @ qs [(''path'', Some path)])
       (opts_with ''POST'' (Some (JObj [(''content'', JStr content)])))"

definition listWorkspaces :: "fetcher \<Rightarrow> api_error + json" where
  "listWorkspaces fetch = apiJson fetch ''/api/workspaces'' no_options"

definition createWorkspace :: "fetcher \<Rightarrow> string \<Rightarrow> string \<Rightarrow> api_error + json" where
  "createWorkspace fetch name path =
     apiJson fetch ''/api/workspaces''
       (opts_with ''POST'' (Some (JObj [(''name'', JStr name), (''path'', JStr path)])))"

definition deleteWorkspace :: "fetcher \<Rightarrow> string \<Rightarrow> api_error + unit" where
  "deleteWorkspace fetch i = apiVoid fetch (workspace_path i) (opts_with ''DELETE'' None)"

definition renameWorkspace :: "fetcher \<Rightarrow> string \<Rightarrow> string \<Rightarrow> api_error + json" where
  "renameWorkspace fetch i name =
     apiJson fetch (workspace_path i) (opts_with ''PATCH'' (Some (JObj [(''name'', JStr name)])))"

definition login :: "fetcher \<Rightarrow> string \<Rightarrow> api_error + unit" where
  "login fetch password =
     apiVoid fetch ''/api/login'' (opts_with ''POST'' (Some (JObj [(''password'', JStr password)])))"

definition logout :: "fetcher \<Rightarrow> api_error + unit" where
  "logout fetch = apiVoid fetch ''/api/logout'' (opts_with ''POST'' None)"

definition checkAuth :: "fetcher \<Rightarrow> bool" where
  "checkAuth fetch =
     (case apiVoid fetch ''/api/auth/check'' no_options of Inr u \<Rightarrow> True | Inl e \<Rightarrow> False)"

definition getSystemStats :: "fetcher \<Rightarrow> api_error + json" where
  "getSystemStats fetch = apiJson fetch ''/api/system/stats'' no_options"

text \<open>\<open>getLayout\<close> reads a property of the parsed value: of \<open>null\<close> that is a
  \<open>TypeError\<close>, represented as the syntax error; the caller treats all failures alike.
  \<open>None\<close> is \<open>undefined\<close>.\<close>

definition getLayout :: "fetcher \<Rightarrow> api_error + json option" where
  "getLayout fetch =
     (case apiJson fetch ''/api/layout'' no_options of
        Inl e \<Rightarrow> Inl e
      | Inr v \<Rightarrow> if v = JNull then Inl JsonSyntaxError else Inr (get_prop v ''layout''))"

definition putLayout :: "fetcher \<Rightarrow> json \<Rightarrow> api_error + unit" where
  "putLayout fetch layout = apiVoid fetch ''/api/layout'' (opts_with ''PUT'' (Some layout))"

section \<open>What the server can read\<close>

definition path_segments :: "string \<Rightarrow> string list" where
  "path_segments p = map (pct_decode False) (js_split CHR ''/'' p)"

lemma path_segments_end: "path_segments (encodeURIComponent a) = [a]"
  by (simp add: path_segments_def js_split_none uri.enc_no_sep decode_encodeURIComponent)

lemma path_segments_enc:
  "path_segments (encodeURIComponent a @ CHR ''/'' # r) = a # path_segments r"
  by (simp add: path_segments_def js_split_cons uri.enc_no_sep decode_encodeURIComponent)

lemma path_segments_lit:
  "CHR ''/'' \<notin> set l \<Longrightarrow> path_segments (l @ CHR ''/'' # r) = pct_decode False l # path_segments r"
  by (simp add: path_segments_def js_split_cons)

lemma path_segments_lit_end: "CHR ''/'' \<notin> set l \<Longrightarrow> path_segments l = [pct_decode False l]"
  by (simp add: path_segments_def js_split_none)

lemma segments_prefix:
  "path_segments (''/api/workspaces/'' @ r) = '''' # ''api'' # ''workspaces'' # path_segments r"
  using path_segments_lit [of "''''" "''api/workspaces/'' @ r"]
    path_segments_lit [of "''api''" "''workspaces/'' @ r"] path_segments_lit [of "''workspaces''" r]
  by simp

lemma segments_terminals: "path_segments (''terminals/'' @ r) = ''terminals'' # path_segments r"
  using path_segments_lit [of "''terminals''" r] by simp

lemmas segment_simps = segments_prefix segments_terminals path_segments_enc path_segments_end

text \<open>
  The identifiers put into a resource path can be read back from it: whatever characters
  a workspace or terminal identifier has (slashes, percent signs, question marks, non-ASCII bytes),
  splitting the path at slashes and decoding each segment gives the fixed segments and the
  two identifiers, for the workspace, the terminal, its terminal list, its WebSocket, its
  attach command and its upload.
\<close>

theorem resource_paths_readable:
  "path_segments (workspace_path w) = ['''', ''api'', ''workspaces'', w]
   \<and> path_segments (terminals_path w) = ['''', ''api'', ''workspaces'', w, ''terminals'']
   \<and> path_segments (terminal_path w t) = ['''', ''api'', ''workspaces'', w, ''terminals'', t]
   \<and> path_segments (wsPath w t) = ['''', ''api'', ''workspaces'', w, ''terminals'', t, ''ws'']
   \<and> path_segments (terminal_path w t @ ''/attach-cmd'')
       = ['''', ''api'', ''workspaces'', w, ''terminals'', t, ''attach-cmd'']
   \<and> path_segments (terminal_path w t @ ''/upload'')
       = ['''', ''api'', ''workspaces'', w, ''terminals'', t, ''upload'']"
proof -
  have 1: "path_segments (terminal_path w t @ CHR ''/'' # l)
      = '''' # ''api'' # ''workspaces'' # w # ''terminals'' # t # path_segments l" for l
    using segments_prefix segments_terminals path_segments_enc
    by (simp add: terminal_path_def)
  show ?thesis
    using segment_simps path_segments_lit_end [of "''terminals''"] path_segments_lit_end [of "''ws''"]
      path_segments_lit_end [of "''attach-cmd''"] path_segments_lit_end [of "''upload''"]
    by (simp add: 1 workspace_path_def terminals_path_def wsPath_def terminal_path_def)
qed
text \<open>
  Query strings can be read back: for an object of parameters (distinct keys), the pairs
  read from \<open>qs params\<close> are the keys with a defined value, in order, with their exact
  values, whatever characters keys and values have; the query is empty only when there is
  no such pair.
\<close>

theorem qs_roundtrip:
  assumes "distinct (map fst params)"
  shows "parse_query (qs params) = [(k, x). (k, Some x) \<leftarrow> params]
    \<and> (qs params = '''' \<longleftrightarrow> (\<forall>p \<in> set params. snd p = None))"
proof -
  let ?ps = "[(k, x). (k, Some x) \<leftarrow> params]"
  have ps: "usp_of params = ?ps" by (rule usp_of_distinct [OF assms])
  have empty: "(?ps = []) = (\<forall>p \<in> set params. snd p = None)"
    by (auto split: option.splits)
  show ?thesis
  proof (cases "?ps = []")
    case True
    then have "qs params = ''''" unfolding qs_def ps by (simp only: usp_string.simps Let_def) simp
    with True empty show ?thesis by (simp add: parse_query_def)
  next
    case False
    let ?enc = "\<lambda>(k, v). form_encode k @ CHR ''='' # form_encode v"
    have str: "qs params = CHR ''?'' # usp_string ?ps"
      using usp_string_nonempty [OF False] by (simp add: qs_def ps)
    have "filter (\<lambda>p. p \<noteq> []) (map ?enc ?ps) = map ?enc ?ps"
      by (intro filter_True) auto
    moreover have "map read_pair (map ?enc ?ps) = ?ps"
      by (simp add: o_def read_pair_encoded case_prod_beta map_idI)
    ultimately have "parse_query (qs params) = ?ps"
      unfolding str parse_query_def by (simp only: list.case split_usp_string [OF False])
    moreover have "qs params \<noteq> ''''" unfolding str by simp
    ultimately show ?thesis using False empty by blast
  qed
qed

theorem qs_roundtrip_witness:
  "parse_query (qs [(''path'', Some ''/a&b=c d'')]) = [(''path'', ''/a&b=c d'')]"
  using qs_roundtrip [of "[(''path'', Some ''/a&b=c d'')]"] by simp


text \<open>
  \<open>checkAuth\<close> never throws and is true exactly when the server answered the check with a
  status 200-299: a network failure and an error status both count as logged out.
\<close>

theorem checkAuth_iff:
  "checkAuth fetch =
     (\<exists>res. fetch ''/api/auth/check'' (buildInit no_options) = Answered res
            \<and> res_status res \<in> {200..299})"
  by (auto simp: checkAuth_def apiVoid_def send_checked_def res_ok_def
      split: fetch_result.splits sum.splits)

text \<open>
  Joining a folder and a name and taking the base name gives the name back, for every
  folder with or without a trailing slash (the root and the empty path included) and every
  non-empty name without a slash; the joined path keeps the folder as its prefix and adds
  at most one slash.
\<close>

theorem basename_joinPath:
  assumes "CHR ''/'' \<notin> set name" and "name \<noteq> []"
  shows "basename (joinPath base name) = name \<and> basename (joinPath base name @ ''/'') = name
    \<and> (\<exists>p. joinPath base name = p @ CHR ''/'' # name
           \<and> (p = base \<or> p @ ''/'' = base))"
proof -
  obtain p where p: "joinPath base name = p @ CHR ''/'' # name" "p = base \<or> p @ ''/'' = base"
  proof (cases "base = [] \<or> \<not> endsWith_char CHR ''/'' base")
    case True
    with that [of base] show ?thesis by (auto simp: joinPath_def)
  next
    case False
    then have "butlast base @ ''/'' = base"
      by (simp add: endsWith_char_def) (metis append_butlast_last_id)
    moreover from this have "base @ name = butlast base @ CHR ''/'' # name"
      by (metis append.assoc append_Cons append_Nil)
    ultimately show ?thesis using False that [of "butlast base"] by (simp add: joinPath_def)
  qed
  have "basename (joinPath base name @ ''/'') = basename (joinPath base name)"
    using basename_after_slash [OF assms, of p] assms
    by (simp add: p(1) basename_def endsWith_char_def Let_def lastIndexOf_append butlast_append)
  then show ?thesis
    using basename_after_slash [OF assms, of p] p by auto
qed

theorem basename_joinPath_witness:
  "basename (joinPath ''/home/'' ''src'') = ''src'' \<and> basename ''/home/src/'' = ''src''"
  using basename_joinPath [of "''src''" "''/home/''"] by (simp add: joinPath_def endsWith_char_def)

end
