(* ===== verification/TerminalHook.thy ===== *)
theory TerminalHook
  imports WsConn TermIO UrlApi
begin

text \<open>
  \<^verbatim>\<open>features/split/useTerminal.ts\<close>: one mounted terminal, from mount to unmount (the pane
  mounts it anew for every session, \<^verbatim>\<open>SplitView.tsx\<close> keys it by the terminal id). The state
  machine of \<open>WsConn\<close> is a component of its state: a browser event goes to \<open>ws_step\<close> first and
  the callbacks this emits are then handled by the hook, in order. A fit takes the
  environment it is measured in as an argument of the event that causes it.
\<close>

section \<open>State\<close>

datatype ConnStatus = Connecting | Open | Reconnecting | Closed

datatype term_out = TermWrite string | TermFocus

record hook_state =
  h_conn :: ws_state
  h_status :: ConnStatus
  composing :: bool
  pendingFit :: bool
  grid :: "jsnum \<times> jsnum"
  h_font :: "string \<times> jsnum"
  mounted :: bool
  screen :: "term_out list"

text \<open>The location of the page and the options \<open>useTerminal\<close> gives to \<open>connectWs\<close>.\<close>

definition hook_cfg :: "bool \<Rightarrow> string \<Rightarrow> string \<Rightarrow> string \<Rightarrow> ws_config" where
  "hook_cfg secure hst wsId tmId =
     \<lparr>https = secure, host = hst, wspath = wsPath wsId tmId,
      reconnect = Some (\<lambda>code. \<not> isCleanClose code), closes_in_onClose = (\<lambda>code. False)\<rparr>"

section \<open>Operations\<close>

definition deferIfComposing :: "hook_state \<Rightarrow> bool \<times> hook_state" where
  "deferIfComposing h = (if composing h then (True, h\<lparr>pendingFit := True\<rparr>) else (False, h))"

definition conn_send :: "json \<Rightarrow> hook_state \<Rightarrow> hook_state" where
  "conn_send msg h = h\<lparr>h_conn := snd (ws_send msg (h_conn h))\<rparr>"

definition sendResize :: "hook_state \<Rightarrow> hook_state" where
  "sendResize h = (if mounted h then conn_send (resize_msg (fst (grid h)) (snd (grid h))) h else h)"

text \<open>The flag of the result says that the call threw (xterm refused the size).\<close>

definition doFit :: "fit_env \<Rightarrow> hook_state \<Rightarrow> bool \<times> hook_state" where
  "doFit env h =
     (let (deferred, h1) = deferIfComposing h in
      if deferred then (False, h1)
      else case fitFullWidth env (grid h1) of
             FitThrows \<Rightarrow> (True, h1)
           | FitDone ok g \<Rightarrow> (False, sendResize (h1\<lparr>grid := g\<rparr>)))"

definition settleComposition :: "fit_env \<Rightarrow> hook_state \<Rightarrow> hook_state" where
  "settleComposition env h =
     (let h1 = h\<lparr>composing := False\<rparr> in
      if pendingFit h1 then snd (doFit env (h1\<lparr>pendingFit := False\<rparr>)) else h1)"

definition onCompositionStart :: "hook_state \<Rightarrow> hook_state" where
  "onCompositionStart h = h\<lparr>composing := True\<rparr>"

definition onBlur :: "fit_env \<Rightarrow> hook_state \<Rightarrow> hook_state" where
  "onBlur env h = (if composing h then settleComposition env h else h)"

definition term_do :: "term_out \<Rightarrow> hook_state \<Rightarrow> hook_state" where
  "term_do x h = h\<lparr>screen := screen h @ [x]\<rparr>"

definition hook_onOpen :: "fit_env \<Rightarrow> hook_state \<Rightarrow> hook_state" where
  "hook_onOpen env h =
     (let (threw, h1) = doFit env (h\<lparr>h_status := Open\<rparr>) in if threw then h1 else term_do TermFocus h1)"

definition hook_onMessage :: "json \<Rightarrow> hook_state \<Rightarrow> hook_state" where
  "hook_onMessage msg h = (case output_data msg of Some d \<Rightarrow> term_do (TermWrite d) h | None \<Rightarrow> h)"

definition hook_onClose :: "nat \<Rightarrow> hook_state \<Rightarrow> hook_state" where
  "hook_onClose code h = h\<lparr>h_status := (if isCleanClose code then Closed else Reconnecting)\<rparr>"

fun hook_callback :: "fit_env \<Rightarrow> ws_out \<Rightarrow> hook_state \<Rightarrow> hook_state" where
  "hook_callback env CbOpen h = hook_onOpen env h"
| "hook_callback env (CbMessage msg) h = hook_onMessage msg h"
| "hook_callback env (CbClose code) h = hook_onClose code h"
| "hook_callback env _ h = h"

definition on_data :: "string \<Rightarrow> hook_state \<Rightarrow> hook_state" where
  "on_data d h = (if malformed_mouse d then h else conn_send (input_msg d) h)"

definition on_key :: "key_event \<Rightarrow> hook_state \<Rightarrow> hook_state" where
  "on_key ev h =
     (case key_handler (composing h) ev of Some d \<Rightarrow> conn_send (input_msg d) h | None \<Rightarrow> h)"

definition apply_font :: "string \<Rightarrow> jsnum \<Rightarrow> fit_env \<Rightarrow> hook_state \<Rightarrow> hook_state" where
  "apply_font stack fsize env h =
     (if \<not> mounted h then h
      else let (deferred, h1) = deferIfComposing (h\<lparr>h_font := (stack, fsize)\<rparr>) in
        if deferred then h1
        else case fitFullWidth env (grid h1) of
               FitThrows \<Rightarrow> h1
             | FitDone ok g \<Rightarrow> if \<not> ok then h1\<lparr>grid := g\<rparr> else sendResize (h1\<lparr>grid := g\<rparr>))"

definition apply_focus :: "bool \<Rightarrow> hook_state \<Rightarrow> hook_state" where
  "apply_focus focused h = (if focused \<and> mounted h then term_do TermFocus h else h)"

definition hook_unmount :: "hook_state \<Rightarrow> hook_state" where
  "hook_unmount h =
     h\<lparr>composing := False, pendingFit := False, h_conn := ws_close (h_conn h), mounted := False\<rparr>"

text \<open>Mounting: the first fit, the connection, then the effects for font and focus.
  \<open>None\<close>: the first fit threw, and React removes the component.\<close>

definition hook_mount ::
  "ws_config \<Rightarrow> jsnum \<times> jsnum \<Rightarrow> string \<Rightarrow> jsnum \<Rightarrow> bool \<Rightarrow> fit_env \<Rightarrow> hook_state option" where
  "hook_mount cfg g0 stack fsize focused env =
     (case fitFullWidth env g0 of
        FitThrows \<Rightarrow> None
      | FitDone ok g \<Rightarrow>
          Some (apply_focus focused (apply_font stack fsize env
            \<lparr>h_conn = connectWs cfg, h_status = Connecting, composing = False, pendingFit = False,
             grid = g, h_font = (stack, fsize), mounted = True, screen = []\<rparr>)))"

section \<open>Events\<close>

datatype hook_event =
    Browser ws_event fit_env
  | CompositionStart
  | CompositionEnd fit_env
  | Blurred fit_env
  | Resized fit_env
  | TermData string
  | KeyPressed key_event
  | FontChanged string jsnum fit_env
  | FocusChanged bool
  | Unmounted

definition hook_conn_step :: "ws_config \<Rightarrow> ws_event \<Rightarrow> fit_env \<Rightarrow> hook_state \<Rightarrow> hook_state" where
  "hook_conn_step cfg e env h =
     (let c = ws_step cfg (h_conn h) e in
      fold (hook_callback env) (drop (length (out (h_conn h))) (out c)) (h\<lparr>h_conn := c\<rparr>))"

text \<open>After the unmount only the closed connection can still get events; every listener and
  subscription of the hook is gone.\<close>

fun hook_step :: "ws_config \<Rightarrow> hook_state \<Rightarrow> hook_event \<Rightarrow> hook_state" where
  "hook_step cfg h (Browser e env) = hook_conn_step cfg e env h"
| "hook_step cfg h CompositionStart = (if mounted h then onCompositionStart h else h)"
| "hook_step cfg h (CompositionEnd env) = (if mounted h then settleComposition env h else h)"
| "hook_step cfg h (Blurred env) = (if mounted h then onBlur env h else h)"
| "hook_step cfg h (Resized env) = (if mounted h then snd (doFit env h) else h)"
| "hook_step cfg h (TermData d) = (if mounted h then on_data d h else h)"
| "hook_step cfg h (KeyPressed ev) = (if mounted h then on_key ev h else h)"
| "hook_step cfg h (FontChanged stack fsize env) = apply_font stack fsize env h"
| "hook_step cfg h (FocusChanged b) = apply_focus b h"
| "hook_step cfg h Unmounted = (if mounted h then hook_unmount h else h)"

text \<open>The events the environment can deliver: the calls of the connection's handle are the
  hook's own, and xterm accepts the sizes that are measured.\<close>

fun event_env :: "hook_event \<Rightarrow> fit_env option" where
  "event_env (Browser e env) = Some env"
| "event_env (CompositionEnd env) = Some env"
| "event_env (Blurred env) = Some env"
| "event_env (Resized env) = Some env"
| "event_env (FontChanged stack fsize env) = Some env"
| "event_env _ = None"

definition client_call :: "ws_event \<Rightarrow> bool" where
  "client_call e = (case e of CallSend m \<Rightarrow> True | CallClose \<Rightarrow> True | _ \<Rightarrow> False)"

fun browser_only :: "hook_event \<Rightarrow> bool" where
  "browser_only (Browser e env) = (\<not> client_call e)"
| "browser_only _ = True"

definition hook_ok :: "hook_state \<Rightarrow> hook_event \<Rightarrow> bool" where
  "hook_ok h e =
     (browser_only e \<and>
      (case event_env e of None \<Rightarrow> True | Some env \<Rightarrow> fitFullWidth env (grid h) \<noteq> FitThrows))"

section \<open>What the hook relies on from the connection\<close>

definition live_sock :: "ws_state \<Rightarrow> nat option" where
  "live_sock c =
     (case socket c of None \<Rightarrow> None | Some i \<Rightarrow> if sock_ready i c = OPEN then Some i else None)"

fun is_status_cb :: "ws_out \<Rightarrow> bool" where
  "is_status_cb CbOpen = True"
| "is_status_cb (CbClose code) = True"
| "is_status_cb _ = False"

fun quiet_out :: "ws_out \<Rightarrow> bool" where
  "quiet_out (SockSend i m) = (m = ping_msg)"
| "quiet_out x = (\<not> is_status_cb x)"

text \<open>The status a client derives from the callbacks it has seen, and the last size it told
  the server on a socket.\<close>

definition status_step :: "ws_out \<Rightarrow> ConnStatus \<Rightarrow> ConnStatus" where
  "status_step x s =
     (case x of CbOpen \<Rightarrow> Open
      | CbClose code \<Rightarrow> if isCleanClose code then Closed else Reconnecting
      | _ \<Rightarrow> s)"

definition status_of :: "ws_out list \<Rightarrow> ConnStatus" where
  "status_of xs = fold status_step xs Connecting"

definition is_resize :: "json \<Rightarrow> bool" where
  "is_resize m = (get_prop m ''type'' = Some (JStr ''resize''))"

definition size_step :: "nat \<Rightarrow> ws_out \<Rightarrow> json option \<Rightarrow> json option" where
  "size_step i x s =
     (case x of SockSend j m \<Rightarrow> if j = i \<and> is_resize m then Some m else s | _ \<Rightarrow> s)"

definition pty_size :: "nat \<Rightarrow> ws_out list \<Rightarrow> json option" where
  "pty_size i xs = fold (size_step i) xs None"

lemma status_of_append [simp]: "status_of (xs @ ys) = fold status_step ys (status_of xs)"
  by (simp add: status_of_def)

lemma pty_size_append [simp]: "pty_size i (xs @ ys) = fold (size_step i) ys (pty_size i xs)"
  by (simp add: pty_size_def)

lemma resize_msgs [simp]:
  "is_resize (resize_msg c r)" "\<not> is_resize (input_msg d)" "\<not> is_resize ping_msg"
  by (simp_all add: is_resize_def resize_msg_def input_msg_def ping_msg_def)

lemma quiet_status: "\<forall>x \<in> set xs. quiet_out x \<Longrightarrow> fold status_step xs s = s"
proof (induction xs arbitrary: s)
  case (Cons x xs)
  have "status_step x s = s" using Cons.prems by (cases x) (auto simp: status_step_def)
  with Cons show ?case by simp
qed simp

lemma quiet_size: "\<forall>x \<in> set xs. quiet_out x \<Longrightarrow> fold (size_step i) xs s = s"
proof (induction xs arbitrary: s)
  case (Cons x xs)
  have "size_step i x s = s" using Cons.prems by (cases x) (auto simp: size_step_def)
  with Cons show ?case by simp
qed simp

text \<open>
  The contract of a reconnecting connection, as its client sees it: one event either opens a
  socket, or closes the current one (with a veto exactly for a clean code), or is quiet; a
  send goes to the live socket or nowhere.
\<close>

locale connection =
  fixes step :: "'c \<Rightarrow> ws_event \<Rightarrow> 'c"
    and send :: "json \<Rightarrow> 'c \<Rightarrow> 'c"
    and outs :: "'c \<Rightarrow> ws_out list"
    and live :: "'c \<Rightarrow> nat option"
    and vetoed :: "'c \<Rightarrow> bool"
    and inv :: "'c \<Rightarrow> bool"
  assumes inv_step: "inv c \<Longrightarrow> inv (step c e)"
    and inv_send: "inv c \<Longrightarrow> inv (send m c)"
    and send_frame: "live (send m c) = live c" "vetoed (send m c) = vetoed c"
    and send_outs: "outs (send m c) = outs c @ (case live c of None \<Rightarrow> [] | Some i \<Rightarrow> [SockSend i m])"
    and step_outs: "inv c \<Longrightarrow> \<not> client_call e \<Longrightarrow> \<exists>new. outs (step c e) = outs c @ new \<and>
      ((new = [CbOpen] \<and> \<not> vetoed c \<and> \<not> vetoed (step c e) \<and> live (step c e) \<noteq> None)
       \<or> (\<exists>code. new = [CbClose code] \<and> \<not> vetoed c \<and> vetoed (step c e) = isCleanClose code
                 \<and> live (step c e) = None)
       \<or> ((\<forall>x \<in> set new. quiet_out x) \<and> vetoed (step c e) = vetoed c
           \<and> (live (step c e) = None \<or> live (step c e) = live c)))"
begin

lemma step_cases [consumes 2, case_names opened ended quiet]:
  assumes "inv c" and "\<not> client_call e"
  obtains i where "outs (step c e) = outs c @ [CbOpen]" and "\<not> vetoed c" and "\<not> vetoed (step c e)"
      and "live (step c e) = Some i"
  | code where "outs (step c e) = outs c @ [CbClose code]" and "\<not> vetoed c"
      and "vetoed (step c e) = isCleanClose code"
      and "live (step c e) = None"
  | new where "outs (step c e) = outs c @ new" and "\<forall>x \<in> set new. quiet_out x"
      and "vetoed (step c e) = vetoed c" and "live (step c e) = None \<or> live (step c e) = live c"
  using step_outs [OF assms] by blast

text \<open>A client that folds the callbacks shows \<open>Closed\<close> exactly for a vetoed connection.\<close>

lemma status_agrees_step:
  assumes "inv c" and "\<not> client_call e" and "(status_of (outs c) = Closed) = vetoed c"
  shows "(status_of (outs (step c e)) = Closed) = vetoed (step c e)"
  using assms(1,2)
proof (cases rule: step_cases)
  case (quiet new)
  with assms(3) show ?thesis by (simp add: quiet_status)
qed (simp_all add: status_step_def)

lemma status_send: "status_of (outs (send m c)) = status_of (outs c)"
  by (simp add: send_outs status_step_def split: option.split)

text \<open>After a resize has been sent, the live socket knows that size; quiet events keep it.\<close>

lemma size_send_resize: "live c = Some i \<Longrightarrow> is_resize m \<Longrightarrow> pty_size i (outs (send m c)) = Some m"
  by (simp add: send_outs size_step_def)

lemma size_send_other: "\<not> is_resize m \<Longrightarrow> pty_size i (outs (send m c)) = pty_size i (outs c)"
  by (simp add: send_outs size_step_def split: option.split)

end

lemma send_simps [simp]:
  "live_sock (snd (ws_send m c)) = live_sock c"
  "reconnectVetoed (snd (ws_send m c)) = reconnectVetoed c"
  "out (snd (ws_send m c)) = out c @ (case live_sock c of None \<Rightarrow> [] | Some i \<Rightarrow> [SockSend i m])"
  by (auto simp: ws_send_def live_sock_def emit_def sock_ready_def split: option.splits)

lemma live_close: "live_sock (ws_close c) = None"
  by (simp add: live_sock_def ws_close_def Let_def split: option.split)

lemma live_current: "live_sock c = Some i \<Longrightarrow> socket c = Some i \<and> sock_ready i c = OPEN"
  by (auto simp: live_sock_def split: option.splits if_splits)

lemma live_open_ws: "live_sock (open_ws cfg c) = None \<or> live_sock (open_ws cfg c) = live_sock c"
  by (simp add: open_ws_def Let_def live_sock_def ws_prims sock_ready_def split: option.split)

lemma out_open_ws: "\<exists>new. out (open_ws cfg c) = out c @ new \<and> (\<forall>x \<in> set new. quiet_out x)"
  by (cases "closed c"; cases "socket c") (simp_all add: open_ws_def Let_def ws_prims)

lemma live_sock_close: "live_sock (sock_close i code c) = None \<or> live_sock (sock_close i code c) = live_sock c"
proof -
  have m: "max r CLOSING \<noteq> OPEN" for r :: ready_state
    by (cases r) (simp_all add: max_def ready_order)
  show ?thesis
    by (auto simp: live_sock_def ws_prims sock_ready_def nth_list_update m split: option.splits if_splits)
qed

lemma quiet_tick:
  "\<exists>new. out (tick i c) = out c @ new \<and> (\<forall>x \<in> set new. quiet_out x)"
  "live_sock (tick i c) = None \<or> live_sock (tick i c) = live_sock c"
proof -
  show "\<exists>new. out (tick i c) = out c @ new \<and> (\<forall>x \<in> set new. quiet_out x)"
    by (simp add: tick_def ws_prims)
  show "live_sock (tick i c) = None \<or> live_sock (tick i c) = live_sock c"
  proof (cases "closed c \<or> sock_ready i c \<noteq> OPEN \<or> awaitingPong c")
    case True
    then show ?thesis using live_sock_close [of i _ c] by (auto simp: tick_def)
  next
    case False
    then show ?thesis by (simp add: tick_def emit_def setTimeout_def live_sock_def sock_ready_def split: option.split)
  qed
qed

lemma clearTimeout_live [simp]: "live_sock (clearTimeout k c) = live_sock c"
  by (simp add: live_sock_def clearTimeout_def sock_ready_def split: option.split)

lemma clearTimeout_out [simp]:
  "out (clearTimeout k c) = out c" "reconnectVetoed (clearTimeout k c) = reconnectVetoed c"
  by (simp_all add: clearTimeout_def)

lemma open_ws_veto [simp]: "reconnectVetoed (open_ws cfg c) = reconnectVetoed c"
  by (simp add: open_ws_def Let_def ws_prims split: option.split)

lemma quiet_timer:
  "\<exists>new. out (timer_fires cfg cb c) = out c @ new \<and> (\<forall>x \<in> set new. quiet_out x)"
  "live_sock (timer_fires cfg cb c) = None \<or> live_sock (timer_fires cfg cb c) = live_sock c"
  "reconnectVetoed (timer_fires cfg cb c) = reconnectVetoed c"
proof -
  show "\<exists>new. out (timer_fires cfg cb c) = out c @ new \<and> (\<forall>x \<in> set new. quiet_out x)"
    using out_open_ws quiet_tick(1) by (cases cb) (auto simp: pong_timeout_def ws_prims)
  show "live_sock (timer_fires cfg cb c) = None \<or> live_sock (timer_fires cfg cb c) = live_sock c"
    using live_open_ws quiet_tick(2) live_sock_close by (cases cb) (auto simp: pong_timeout_def)
  show "reconnectVetoed (timer_fires cfg cb c) = reconnectVetoed c"
    by (cases cb) (auto simp: pong_timeout_def tick_def ws_prims)
qed

lemma not_closed_not_vetoed:
  assumes "ws_inv c" and "i < length (socks c)" and "socket c = Some i" and "sock_ready i c \<noteq> CLOSED"
  shows "\<not> reconnectVetoed c"
  using assms current_socket(5,6) [OF ws_invD(1) [OF assms(1)] assms(3)] ws_invD(4) [OF assms(1)]
  by (auto simp: veto_inv_def)

lemma step_SockOpened:
  assumes "ws_inv c" and "i < length (socks c)" and "sock_ready i c = CONNECTING"
  shows "out (ws_step cfg c (SockOpened i)) = out c @ [CbOpen]"
    and "\<not> reconnectVetoed c" and "\<not> reconnectVetoed (ws_step cfg c (SockOpened i))"
    and "live_sock (ws_step cfg c (SockOpened i)) = Some i"
proof -
  have cur: "socket c = Some i"
    using current_socket(2) [OF ws_invD(1) [OF assms(1)] assms(2)] assms(3) by (simp add: ready_order)
  have h: "onopen (socks c ! i)" using ws_invD(1) [OF assms(1)] cur assms(2) by (auto simp: sock_inv_def)
  show nv: "\<not> reconnectVetoed c" using not_closed_not_vetoed [OF assms(1,2) cur] assms(3) by simp
  show "out (ws_step cfg c (SockOpened i)) = out c @ [CbOpen]"
      "\<not> reconnectVetoed (ws_step cfg c (SockOpened i))"
      "live_sock (ws_step cfg c (SockOpened i)) = Some i"
    using assms(2,3) h cur nv
    by (simp_all add: ws_onopen_def startHeartbeat_def setTimeout_def clearTimers_def emit_def Let_def
        sock_map_def live_sock_def sock_ready_def clearTimeout_def)
qed

lemma step_SockClosed:
  assumes "ws_inv c" and "i < length (socks c)" and "sock_ready i c \<noteq> CLOSED" and "onclose (socks c ! i)"
    and "cfg = hook_cfg secure hst wsId tmId"
  shows "out (ws_step cfg c (SockClosed i code)) = out c @ [CbClose code]"
    and "\<not> reconnectVetoed c"
    and "reconnectVetoed (ws_step cfg c (SockClosed i code)) = isCleanClose code"
    and "live_sock (ws_step cfg c (SockClosed i code)) = None"
proof -
  have cur: "socket c = Some i" using current_socket(3) [OF ws_invD(1) [OF assms(1)] assms(2,4)] .
  have nc: "\<not> closed c" using current_socket(6) [OF ws_invD(1) [OF assms(1)] cur] .
  show nv: "\<not> reconnectVetoed c" using not_closed_not_vetoed [OF assms(1,2) cur assms(3)] .
  show "out (ws_step cfg c (SockClosed i code)) = out c @ [CbClose code]"
      "reconnectVetoed (ws_step cfg c (SockClosed i code)) = isCleanClose code"
      "live_sock (ws_step cfg c (SockClosed i code)) = None"
    using assms cur nc nv
    by (simp_all add: ws_onclose_def hook_cfg_def Let_def scheduleReconnect_def setTimeout_def
        emit_def sock_map_def live_sock_def sock_ready_def clearTimers_def clearTimeout_def)
qed

lemma ws_step_outs:
  assumes "ws_inv c" and "\<not> client_call e" and cfg: "cfg = hook_cfg secure hst wsId tmId"
  shows "\<exists>new. out (ws_step cfg c e) = out c @ new \<and>
      ((new = [CbOpen] \<and> \<not> reconnectVetoed c \<and> \<not> reconnectVetoed (ws_step cfg c e)
          \<and> live_sock (ws_step cfg c e) \<noteq> None)
       \<or> (\<exists>code. new = [CbClose code] \<and> \<not> reconnectVetoed c
                \<and> reconnectVetoed (ws_step cfg c e) = isCleanClose code
                \<and> live_sock (ws_step cfg c e) = None)
       \<or> ((\<forall>x \<in> set new. quiet_out x) \<and> reconnectVetoed (ws_step cfg c e) = reconnectVetoed c
           \<and> (live_sock (ws_step cfg c e) = None \<or> live_sock (ws_step cfg c e) = live_sock c)))"
    (is "\<exists>new. ?O new \<and> (?A new \<or> ?B new \<or> ?C new)")
proof -
  have quiet: "\<exists>new. ?O new \<and> ?C new" if "ws_step cfg c e = c" using that by simp
  show ?thesis
  proof (cases e)
    case (SockOpened i)
    show ?thesis
    proof (cases "i < length (socks c) \<and> sock_ready i c = CONNECTING")
      case True
      then have "?O [CbOpen] \<and> ?A [CbOpen]" using step_SockOpened [OF assms(1), of i] SockOpened by blast
      then show ?thesis by blast
    next
      case False
      then have "ws_step cfg c e = c" using SockOpened by auto
      with quiet show ?thesis by blast
    qed
  next
    case (SockClosed i code)
    show ?thesis
    proof (cases "i < length (socks c) \<and> sock_ready i c \<noteq> CLOSED \<and> onclose (socks c ! i)")
      case True
      then have "?O [CbClose code] \<and> ?B [CbClose code]"
        using step_SockClosed(1,3,4) [OF assms(1) _ _ _ cfg, of i code]
          step_SockClosed(2) [OF assms(1) _ _ _ cfg, of i] SockClosed by blast
      then show ?thesis by blast
    next
      case False
      then have "?O [] \<and> ?C []"
        using SockClosed
        by (auto simp: Let_def sock_map_def live_sock_def sock_ready_def nth_list_update split: option.split if_splits)
      then show ?thesis by blast
    qed
  next
    case (TimerFires k)
    show ?thesis
    proof (cases "map_of (timers c) k")
      case None
      then have "ws_step cfg c e = c" using TimerFires by simp
      with quiet show ?thesis by blast
    next
      case (Some t)
      obtain cb d where "t = (cb, d)" by (cases t)
      with Some TimerFires show ?thesis
        using quiet_timer [of cfg cb "clearTimeout k c"] by auto
    qed
  next
    case (Visibility v)
    show ?thesis
    proof (cases "ws_step cfg c e = c")
      case False
      then have "ws_step cfg c e = open_ws cfg ((clearTimeout (retryTimer c) c)\<lparr>attempt := 0\<rparr>)"
        using Visibility by (auto simp: onVisibility_def split: if_splits)
      moreover have "live_sock ((clearTimeout k c)\<lparr>attempt := 0\<rparr>) = live_sock c" for k
        by (simp add: live_sock_def clearTimeout_def sock_ready_def split: option.split)
      ultimately show ?thesis
        using out_open_ws [of cfg "(clearTimeout (retryTimer c) c)\<lparr>attempt := 0\<rparr>"]
          live_open_ws [of cfg "(clearTimeout (retryTimer c) c)\<lparr>attempt := 0\<rparr>"] by auto
    qed (use quiet in blast)
  next
    case (SockMessage i fr)
    then show ?thesis
      by (auto simp: ws_onmessage_def emit_def live_sock_def sock_ready_def clearTimeout_def
          split: frame.split option.split)
  next
    case (SockErrored i)
    then show ?thesis
      by (auto simp: ws_onerror_def emit_def live_sock_def sock_ready_def split: option.split)
  qed (use assms(2) in \<open>auto simp: client_call_def\<close>)
qed

interpretation conn: connection "ws_step (hook_cfg secure hst wsId tmId)" "\<lambda>m c. snd (ws_send m c)"
  out live_sock reconnectVetoed ws_inv
proof
  fix c :: ws_state and e :: ws_event and m :: json
  show "ws_inv c \<Longrightarrow> ws_inv (snd (ws_send m c))" using ws_inv_step [of c undefined "CallSend m"] by simp
  assume "ws_inv c" and "\<not> client_call e"
  then show "\<exists>new. out (ws_step (hook_cfg secure hst wsId tmId) c e) = out c @ new \<and>
      ((new = [CbOpen] \<and> \<not> reconnectVetoed c \<and> \<not> reconnectVetoed (ws_step (hook_cfg secure hst wsId tmId) c e)
          \<and> live_sock (ws_step (hook_cfg secure hst wsId tmId) c e) \<noteq> None)
       \<or> (\<exists>code. new = [CbClose code] \<and> \<not> reconnectVetoed c
                \<and> reconnectVetoed (ws_step (hook_cfg secure hst wsId tmId) c e) = isCleanClose code
                \<and> live_sock (ws_step (hook_cfg secure hst wsId tmId) c e) = None)
       \<or> ((\<forall>x \<in> set new. quiet_out x)
           \<and> reconnectVetoed (ws_step (hook_cfg secure hst wsId tmId) c e) = reconnectVetoed c
           \<and> (live_sock (ws_step (hook_cfg secure hst wsId tmId) c e) = None
              \<or> live_sock (ws_step (hook_cfg secure hst wsId tmId) c e) = live_sock c)))"
    by (rule ws_step_outs) simp
qed (simp_all add: ws_inv_step)

section \<open>Invariant\<close>

text \<open>The size the server was last told on the live socket is the terminal's, unless a fit is
  being held back by a composition.\<close>

definition size_known :: "hook_state \<Rightarrow> bool" where
  "size_known h =
     (\<forall>i. mounted h \<longrightarrow> live_sock (h_conn h) = Some i \<longrightarrow> \<not> pendingFit h \<longrightarrow>
        pty_size i (out (h_conn h)) = Some (resize_msg (fst (grid h)) (snd (grid h))))"

definition hook_inv :: "hook_state \<Rightarrow> bool" where
  "hook_inv h =
     (ws_inv (h_conn h)
      \<and> (pendingFit h \<longrightarrow> composing h)
      \<and> (mounted h \<longrightarrow> h_status h = status_of (out (h_conn h))
                     \<and> (status_of (out (h_conn h)) = Closed) = reconnectVetoed (h_conn h))
      \<and> size_known h)"

text \<open>Everything but \<open>size_known\<close>; what a handler has while the size is out of date.\<close>

definition pre_inv :: "hook_state \<Rightarrow> bool" where
  "pre_inv h =
     (ws_inv (h_conn h)
      \<and> (pendingFit h \<longrightarrow> composing h)
      \<and> (mounted h \<longrightarrow> h_status h = status_of (out (h_conn h))
                     \<and> (status_of (out (h_conn h)) = Closed) = reconnectVetoed (h_conn h)))"

lemma hook_inv_iff: "hook_inv h = (pre_inv h \<and> size_known h)"
  by (simp add: hook_inv_def pre_inv_def)

lemma conn_send_fields [simp]:
  "composing (conn_send m h) = composing h" "pendingFit (conn_send m h) = pendingFit h"
  "grid (conn_send m h) = grid h" "mounted (conn_send m h) = mounted h"
  "h_status (conn_send m h) = h_status h" "screen (conn_send m h) = screen h"
  "h_conn (conn_send m h) = snd (ws_send m (h_conn h))"
  by (simp_all add: conn_send_def)

lemma pre_conn_send: "pre_inv h \<Longrightarrow> pre_inv (conn_send m h)"
  using conn.inv_send [of "h_conn h" m] conn.status_send [of m "h_conn h"]
  by (auto simp: pre_inv_def simp del: status_of_append send_simps(3))

lemma size_conn_send: "\<not> is_resize m \<Longrightarrow> size_known h \<Longrightarrow> size_known (conn_send m h)"
  using conn.size_send_other [of m _ "h_conn h"]
  by (simp add: size_known_def del: pty_size_append send_simps(3))

lemma size_sendResize: "size_known (sendResize h)"
  using conn.size_send_resize [of "h_conn h"]
  by (simp add: size_known_def sendResize_def del: pty_size_append send_simps(3))

lemma pre_sendResize: "pre_inv h \<Longrightarrow> pre_inv (sendResize h)"
  by (simp add: sendResize_def pre_conn_send)

lemma pre_grid [simp]: "pre_inv (h\<lparr>grid := g\<rparr>) = pre_inv h"
  by (simp add: pre_inv_def)

lemma inv_doFit:
  assumes "pre_inv h" and "fitFullWidth env (grid h) \<noteq> FitThrows"
  shows "hook_inv (snd (doFit env h))" and "\<not> fst (doFit env h)"
proof -
  have "hook_inv (snd (doFit env h)) \<and> \<not> fst (doFit env h)"
  proof (cases "composing h")
    case True
    with assms(1) show ?thesis
      by (simp add: doFit_def deferIfComposing_def hook_inv_def pre_inv_def size_known_def)
  next
    case False
    obtain ok g where g: "fitFullWidth env (grid h) = FitDone ok g"
      using assms(2) by (cases "fitFullWidth env (grid h)") auto
    have "hook_inv (sendResize (h\<lparr>grid := g\<rparr>))"
      using assms(1) by (simp add: hook_inv_iff pre_sendResize size_sendResize)
    with False g show ?thesis by (simp add: doFit_def deferIfComposing_def)
  qed
  then show "hook_inv (snd (doFit env h))" and "\<not> fst (doFit env h)" by auto
qed

lemma inv_settle:
  assumes "hook_inv h" and "fitFullWidth env (grid h) \<noteq> FitThrows"
  shows "hook_inv (settleComposition env h)"
proof (cases "pendingFit h")
  case True
  have "pre_inv (h\<lparr>composing := False, pendingFit := False\<rparr>)"
    using assms(1) by (simp add: hook_inv_def pre_inv_def)
  from inv_doFit(1) [OF this] assms(2) True show ?thesis
    by (simp add: settleComposition_def Let_def)
next
  case False
  with assms(1) show ?thesis by (simp add: settleComposition_def hook_inv_def size_known_def)
qed

lemma inv_term_do [simp]: "hook_inv (term_do x h) = hook_inv h"
  by (simp add: term_do_def hook_inv_def size_known_def)

lemma quiet_callbacks:
  "\<forall>x \<in> set new. quiet_out x \<Longrightarrow> hook_inv h \<Longrightarrow> hook_inv (fold (hook_callback env) new h)"
proof (induction new arbitrary: h)
  case (Cons x xs)
  have "hook_inv (hook_callback env x h)"
    using Cons.prems by (cases x) (auto simp: hook_onMessage_def split: option.split)
  with Cons show ?case by simp
qed simp

lemma inv_conn_step:
  assumes inv: "hook_inv h" and e: "\<not> client_call e" and fit: "fitFullWidth env (grid h) \<noteq> FitThrows"
  shows "hook_inv (hook_conn_step (hook_cfg secure hst wsId tmId) e env h)"
proof -
  let ?cfg = "hook_cfg secure hst wsId tmId"
  let ?c = "ws_step ?cfg (h_conn h) e"
  have c: "ws_inv (h_conn h)" using inv by (simp add: hook_inv_def)
  have c': "ws_inv ?c" using c by (rule ws_inv_step)
  from c e show ?thesis
  proof (cases rule: conn.step_cases [of _ _ secure hst wsId tmId])
    case (opened i)
    have "pre_inv (h\<lparr>h_conn := ?c, h_status := Open\<rparr>)"
      using inv c' opened by (simp add: hook_inv_def pre_inv_def status_step_def)
    from inv_doFit [OF this, of env] fit opened(1) show ?thesis
      by (auto simp: hook_conn_step_def hook_onOpen_def Let_def split: prod.split)
  next
    case (ended code)
    then show ?thesis using inv c'
      by (auto simp: hook_conn_step_def hook_onClose_def hook_inv_def size_known_def status_step_def)
  next
    case (quiet new)
    have "hook_inv (h\<lparr>h_conn := ?c\<rparr>)"
      using inv c' quiet by (auto simp: hook_inv_def size_known_def quiet_status quiet_size)
    with quiet(1,2) show ?thesis by (simp add: hook_conn_step_def quiet_callbacks)
  qed
qed

lemma fit_failed_keeps: "fitFullWidth env g0 = FitDone False g \<Longrightarrow> g = g0"
  by (auto simp: fitFullWidth_def fit_fallback_def Let_def split: option.splits if_splits prod.splits)

lemma inv_apply_font:
  assumes inv: "hook_inv h" and fit: "fitFullWidth env (grid h) \<noteq> FitThrows"
  shows "hook_inv (apply_font stack fsize env h)"
proof (cases "\<not> mounted h \<or> composing h")
  case True
  with inv show ?thesis
    by (auto simp: apply_font_def deferIfComposing_def hook_inv_def size_known_def)
next
  case False
  obtain ok g where g: "fitFullWidth env (grid h) = FitDone ok g"
    using fit by (cases "fitFullWidth env (grid h)") auto
  have keep: "hook_inv (h\<lparr>h_font := (stack, fsize), grid := grid h\<rparr>)"
    using inv by (simp add: hook_inv_def size_known_def)
  then have "hook_inv (sendResize (h\<lparr>h_font := (stack, fsize), grid := g\<rparr>))"
    using pre_sendResize [of "h\<lparr>h_font := (stack, fsize), grid := g\<rparr>"] size_sendResize
    by (simp add: hook_inv_iff pre_inv_def)
  moreover have "\<not> ok \<Longrightarrow> g = grid h" using g fit_failed_keeps by (cases ok) auto
  ultimately show ?thesis
    using False g keep by (cases ok) (simp_all add: apply_font_def deferIfComposing_def)
qed

lemma hook_inv_step:
  assumes "hook_inv h" and "hook_ok h e"
  shows "hook_inv (hook_step (hook_cfg secure hst wsId tmId) h e)"
proof (cases e)
  case (Browser b env)
  with assms show ?thesis by (simp add: hook_ok_def inv_conn_step)
next
  case CompositionStart
  with assms show ?thesis by (simp add: onCompositionStart_def hook_inv_def size_known_def)
next
  case (CompositionEnd env)
  with assms show ?thesis by (simp add: hook_ok_def inv_settle)
next
  case (Blurred env)
  with assms show ?thesis by (simp add: hook_ok_def onBlur_def inv_settle)
next
  case (Resized env)
  with assms show ?thesis by (simp add: hook_ok_def hook_inv_iff [of h] inv_doFit)
next
  case (TermData d)
  with assms show ?thesis by (simp add: on_data_def hook_inv_iff pre_conn_send size_conn_send)
next
  case (KeyPressed ev)
  with assms show ?thesis
    by (simp add: on_key_def hook_inv_iff pre_conn_send size_conn_send split: option.split)
next
  case (FontChanged stack fsize env)
  with assms show ?thesis by (simp add: hook_ok_def inv_apply_font)
next
  case (FocusChanged b)
  with assms show ?thesis by (simp add: apply_focus_def)
next
  case Unmounted
  with assms ws_inv_step [of "h_conn h" undefined CallClose] show ?thesis
    by (simp add: hook_unmount_def hook_inv_def size_known_def)
qed

interpretation hook_run: machine_inv "hook_step (hook_cfg secure hst wsId tmId)" hook_ok hook_inv
  by unfold_locales (rule hook_inv_step)

section \<open>Properties of a mounted terminal\<close>

lemma fit_again: "fitFullWidth env g0 = FitDone ok g \<Longrightarrow> fitFullWidth env g \<noteq> FitThrows"
  by (auto simp: fitFullWidth_def fit_fallback_def Let_def split: option.splits if_splits prod.splits)

lemma apply_focus_fields [simp]:
  "hook_inv (apply_focus b h) = hook_inv h" "mounted (apply_focus b h) = mounted h"
  by (simp_all add: apply_focus_def) (simp add: term_do_def)

lemma mount_inv:
  assumes "hook_mount (hook_cfg secure hst wsId tmId) g0 stack fsize focused env = Some h"
  shows "hook_inv h"
proof -
  obtain ok g where g: "fitFullWidth env g0 = FitDone ok g"
    using assms by (cases "fitFullWidth env g0") (auto simp: hook_mount_def)
  let ?c = "connectWs (hook_cfg secure hst wsId tmId)"
  have live: "live_sock ?c = None" "\<not> reconnectVetoed ?c" "status_of (out ?c) = Connecting"
    by (simp_all add: live_sock_def connectWs_def open_ws_def ws_blank_def Let_def sock_ready_def emit_def
        status_of_def status_step_def)
  have "hook_inv \<lparr>h_conn = ?c, h_status = Connecting, composing = False, pendingFit = False,
     grid = g, h_font = (stack, fsize), mounted = True, screen = []\<rparr>"
    using live by (simp add: hook_inv_def size_known_def ws_inv_connect)
  from inv_apply_font [OF this, of env stack fsize] fit_again [OF g] assms g show ?thesis
    by (auto simp: hook_mount_def)
qed

lemma mounted_run_inv:
  assumes "hook_mount (hook_cfg secure hst wsId tmId) g0 stack fsize focused env = Some h"
    and "run_ok (hook_step (hook_cfg secure hst wsId tmId)) hook_ok h es"
  shows "hook_inv (run (hook_step (hook_cfg secure hst wsId tmId)) h es)"
  using hook_run.run_inv [OF mount_inv [OF assms(1)] assms(2)] .

text \<open>
  The server always knows the terminal's size: after any events since the mount, when the
  connection is open and no composition is holding a fit back, the last resize message sent
  on the live socket carries exactly the terminal's columns and rows -- over reconnects,
  container and font changes and compositions. No fit stays deferred without a composition
  to end it.
\<close>

theorem terminal_size_known:
  assumes "hook_mount (hook_cfg secure hst wsId tmId) g0 stack fsize focused env = Some h0"
    and "run_ok (hook_step (hook_cfg secure hst wsId tmId)) hook_ok h0 es"
  shows "let h = run (hook_step (hook_cfg secure hst wsId tmId)) h0 es in
     (pendingFit h \<longrightarrow> composing h) \<and>
     (mounted h \<longrightarrow> \<not> composing h \<longrightarrow> (\<forall>i. live_sock (h_conn h) = Some i \<longrightarrow>
        pty_size i (out (h_conn h)) = Some (resize_msg (fst (grid h)) (snd (grid h)))))"
  using mounted_run_inv [OF assms] by (auto simp: Let_def hook_inv_def size_known_def)

definition demo_hook :: hook_state where
  "demo_hook = \<lparr>h_conn = connectWs (hook_cfg False ''h'' ''w'' ''t''), h_status = Connecting,
     composing = False, pendingFit = False, grid = (Num 80, Num 24), h_font = (''mono'', Num 13),
     mounted = True, screen = []\<rparr>"

definition plain_fit :: fit_env where
  "plain_fit = \<lparr>cell = None, has_parent = True, paddingLeft = '''', paddingRight = '''', paddingTop = '''',
     paddingBottom = '''', parentWidth = '''', parentHeight = '''', addon_fit = Some (Num 80, Num 24),
     accepts = (\<lambda>c r. True)\<rparr>"

lemma plain_fit_grid [simp]: "fitFullWidth plain_fit g = FitDone True (Num 80, Num 24)"
  by (simp add: fitFullWidth_def fit_fallback_def plain_fit_def)

lemmas hook_eval = hook_conn_step_def hook_onOpen_def doFit_def deferIfComposing_def sendResize_def
  hook_cfg_def ws_onopen_def startHeartbeat_def clearTimers_def connectWs_def open_ws_def ws_blank_def
  sock_ready_def ws_prims Let_def live_sock_def hook_ok_def client_call_def ws_send_def conn_send_def

lemma demo_mount:
  "hook_mount (hook_cfg False ''h'' ''w'' ''t'') (Num 80, Num 24) ''mono'' (Num 13) False plain_fit = Some demo_hook"
  by (simp add: hook_mount_def apply_focus_def apply_font_def demo_hook_def hook_eval)

theorem terminal_size_known_witness:
  "let h = run (hook_step (hook_cfg False ''h'' ''w'' ''t'')) demo_hook [Browser (SockOpened 0) plain_fit] in
     (pendingFit h \<longrightarrow> composing h) \<and>
     (mounted h \<longrightarrow> \<not> composing h \<longrightarrow> (\<forall>i. live_sock (h_conn h) = Some i \<longrightarrow>
        pty_size i (out (h_conn h)) = Some (resize_msg (fst (grid h)) (snd (grid h)))))"
  by (rule terminal_size_known [OF demo_mount]) (simp add: hook_ok_def client_call_def)

lemma vetoed_stays:
  assumes "hook_inv h" and "hook_ok h e" and "reconnectVetoed (h_conn h)"
  shows "reconnectVetoed (h_conn (hook_step (hook_cfg secure hst wsId tmId) h e))"
proof -
  have fit: "h_conn (snd (doFit env k)) = h_conn k \<or> (\<exists>m. h_conn (snd (doFit env k)) = snd (ws_send m (h_conn k)))"
    for env k by (auto simp: doFit_def deferIfComposing_def sendResize_def split: fit_result.split)
  have conn: "h_conn (hook_callback env x k) = h_conn k" if "quiet_out x" for env x k
    using that by (cases x) (auto simp: hook_onMessage_def term_do_def split: option.split)
  have fold_conn: "h_conn (fold (hook_callback env) xs k) = h_conn k" if "\<forall>x \<in> set xs. quiet_out x" for env xs k
    using that by (induction xs arbitrary: k) (auto simp: conn)
  show ?thesis
  proof (cases e)
    case (Browser b env)
    have "\<not> client_call b" using assms(2) Browser by (simp add: hook_ok_def)
    with assms(1) have "ws_inv (h_conn h)" "\<not> client_call b" by (simp_all add: hook_inv_def)
    then show ?thesis
    proof (cases rule: conn.step_cases [of _ _ secure hst wsId tmId])
      case (quiet new)
      with assms(3) Browser show ?thesis by (simp add: hook_conn_step_def Let_def fold_conn)
    qed (use assms(3) in auto)
  next
    case (Resized env)
    with assms(3) fit [of env h] show ?thesis by auto
  next
    case (CompositionEnd env)
    with assms(3) fit [of env "h\<lparr>composing := False, pendingFit := False\<rparr>"] show ?thesis
      by (auto simp: settleComposition_def Let_def)
  next
    case (Blurred env)
    with assms(3) fit [of env "h\<lparr>composing := False, pendingFit := False\<rparr>"] show ?thesis
      by (auto simp: onBlur_def settleComposition_def Let_def)
  qed (use assms(3) in \<open>auto simp: onCompositionStart_def on_data_def on_key_def apply_font_def
      deferIfComposing_def sendResize_def apply_focus_def term_do_def hook_unmount_def
      ws_close_def clearTimers_def Let_def ws_prims split: option.split fit_result.split\<close>)
qed

interpretation veto_run: machine_inv "hook_step (hook_cfg secure hst wsId tmId)" hook_ok
  "\<lambda>h. hook_inv h \<and> reconnectVetoed (h_conn h)"
  by unfold_locales (blast intro: hook_inv_step vetoed_stays)


text \<open>
  C24. The pane shows the state of its connection: \<open>Closed\<close> exactly when the connection has
  been given up after a clean close, and then for good -- it stays \<open>Closed\<close> until the
  unmount, whatever happens. In every other state the status is the one of the last
  callback.
\<close>

theorem status_closed_final:
  assumes "hook_mount (hook_cfg secure hst wsId tmId) g0 stack fsize focused env = Some h0"
    and "run_ok (hook_step (hook_cfg secure hst wsId tmId)) hook_ok h0 (es @ es')"
  shows "let h = run (hook_step (hook_cfg secure hst wsId tmId)) h0 es;
             h' = run (hook_step (hook_cfg secure hst wsId tmId)) h0 (es @ es') in
     (mounted h \<longrightarrow> h_status h = status_of (out (h_conn h))
        \<and> (h_status h = Closed) = reconnectVetoed (h_conn h))
     \<and> (mounted h \<longrightarrow> mounted h' \<longrightarrow> h_status h = Closed \<longrightarrow> h_status h' = Closed)"
proof -
  let ?step = "hook_step (hook_cfg secure hst wsId tmId)"
  have ok: "run_ok ?step hook_ok h0 es" "run_ok ?step hook_ok (run ?step h0 es) es'"
    using assms(2) by simp_all
  have inv: "hook_inv (run ?step h0 es)" by (rule mounted_run_inv [OF assms(1) ok(1)])
  have inv': "hook_inv (run ?step h0 (es @ es'))"
    by (rule mounted_run_inv [OF assms(1)]) (rule assms(2))
  have "reconnectVetoed (h_conn (run ?step h0 (es @ es')))"
    if "reconnectVetoed (h_conn (run ?step h0 es))"
    using veto_run.run_inv [OF _ ok(2)] inv that by auto
  with inv inv' show ?thesis by (auto simp: hook_inv_def Let_def simp del: run_append)
qed

theorem status_closed_final_witness:
  "let h = run (hook_step (hook_cfg False ''h'' ''w'' ''t'')) demo_hook [Browser (SockClosed 0 1000) plain_fit];
       h' = run (hook_step (hook_cfg False ''h'' ''w'' ''t'')) demo_hook
              ([Browser (SockClosed 0 1000) plain_fit] @ [Browser (Visibility True) plain_fit]) in
     (mounted h \<longrightarrow> h_status h = status_of (out (h_conn h))
        \<and> (h_status h = Closed) = reconnectVetoed (h_conn h))
     \<and> (mounted h \<longrightarrow> mounted h' \<longrightarrow> h_status h = Closed \<longrightarrow> h_status h' = Closed)"
  by (rule status_closed_final [OF demo_mount]) (simp add: hook_ok_def client_call_def)

section \<open>Compositions\<close>

definition resizes :: "ws_out list \<Rightarrow> ws_out list" where
  "resizes xs = filter (\<lambda>x. case x of SockSend i m \<Rightarrow> is_resize m | _ \<Rightarrow> False) xs"

definition during_composition :: "hook_event \<Rightarrow> bool" where
  "during_composition e =
     (browser_only e \<and> (case e of CompositionEnd env \<Rightarrow> False | Blurred env \<Rightarrow> False | Unmounted \<Rightarrow> False | _ \<Rightarrow> True))"

definition held :: "jsnum \<times> jsnum \<Rightarrow> ws_out list \<Rightarrow> hook_state \<Rightarrow> bool" where
  "held g rs h = (ws_inv (h_conn h) \<and> composing h \<and> mounted h \<and> grid h = g \<and> resizes (out (h_conn h)) = rs)"

lemma resizes_append [simp]: "resizes (xs @ ys) = resizes xs @ resizes ys"
  by (simp add: resizes_def)

lemma quiet_resizes: "\<forall>x \<in> set xs. quiet_out x \<Longrightarrow> resizes xs = []"
  by (auto simp: resizes_def filter_empty_conv split: ws_out.split)

lemma held_callback: "held g rs h \<Longrightarrow> held g rs (hook_callback env x h)"
  by (cases x) (auto simp: held_def hook_onOpen_def hook_onMessage_def hook_onClose_def doFit_def
      deferIfComposing_def term_do_def split: option.split)

lemma held_callbacks: "held g rs h \<Longrightarrow> held g rs (fold (hook_callback env) xs h)"
  by (induction xs arbitrary: h) (auto simp: held_callback)

lemma held_send: "held g rs h \<Longrightarrow> \<not> is_resize m \<Longrightarrow> held g rs (conn_send m h)"
  using conn.inv_send [of "h_conn h" m] by (auto simp: held_def resizes_def split: option.split)

lemma held_step:
  assumes "held g rs h" and "during_composition e"
  shows "held g rs (hook_step (hook_cfg secure hst wsId tmId) h e)"
proof (cases e)
  case (Browser b env)
  let ?c = "ws_step (hook_cfg secure hst wsId tmId) (h_conn h) b"
  have c: "ws_inv (h_conn h)" "\<not> client_call b"
    using assms Browser by (simp_all add: held_def during_composition_def)
  have "held g rs (h\<lparr>h_conn := ?c\<rparr>)"
    using c
  proof (cases rule: conn.step_cases [of _ _ secure hst wsId tmId])
    case (quiet new)
    with assms(1) c show ?thesis by (simp add: held_def ws_inv_step quiet_resizes)
  qed (use assms(1) c in \<open>simp_all add: held_def ws_inv_step, simp_all add: resizes_def\<close>)
  with Browser show ?thesis by (simp add: hook_conn_step_def Let_def held_callbacks)
next
  case (TermData d)
  with assms show ?thesis by (simp add: on_data_def held_send)
qed (use assms in \<open>auto simp: during_composition_def apply_font_def
    on_key_def doFit_def deferIfComposing_def onCompositionStart_def apply_focus_def term_do_def held_def\<close>)

interpretation held_run: machine_inv "hook_step (hook_cfg secure hst wsId tmId)"
  "\<lambda>h. during_composition" "held g rs"
  by unfold_locales (rule held_step)

text \<open>
  C27. A composition is never disturbed: between its start and its end (or the loss of focus, or
  the unmount) no event changes the terminal's grid or sends a size -- container and font
  changes, reconnects and input included.
\<close>

theorem composition_undisturbed:
  assumes "hook_mount (hook_cfg secure hst wsId tmId) g0 stack fsize focused env = Some h0"
    and "run_ok (hook_step (hook_cfg secure hst wsId tmId)) hook_ok h0 es"
    and "h = run (hook_step (hook_cfg secure hst wsId tmId)) h0 es" and "mounted h" and "composing h"
    and "\<forall>e \<in> set es'. during_composition e"
    and "h' = run (hook_step (hook_cfg secure hst wsId tmId)) h es'"
  shows "composing h' \<and> grid h' = grid h \<and> resizes (out (h_conn h')) = resizes (out (h_conn h))"
proof -
  let ?step = "hook_step (hook_cfg secure hst wsId tmId)"
  have "held (grid h) (resizes (out (h_conn h))) h"
    using mounted_run_inv [OF assms(1,2)] assms(3-5) by (simp add: held_def hook_inv_def)
  moreover have "run_ok ?step (\<lambda>h. during_composition) h es'"
    using assms(6) by (induction es' arbitrary: h) auto
  ultimately have "held (grid h) (resizes (out (h_conn h))) h'"
    unfolding assms(7) by (rule held_run.run_inv)
  then show ?thesis by (simp add: held_def)
qed

theorem composition_undisturbed_witness:
  "let h = run (hook_step (hook_cfg False ''h'' ''w'' ''t'')) demo_hook [CompositionStart];
       h' = run (hook_step (hook_cfg False ''h'' ''w'' ''t'')) h [Resized plain_fit] in
     composing h' \<and> grid h' = grid h \<and> resizes (out (h_conn h')) = resizes (out (h_conn h))"
  unfolding Let_def
  by (rule composition_undisturbed [OF demo_mount _ refl _ _ _ refl])
    (simp_all add: hook_ok_def during_composition_def onCompositionStart_def demo_hook_def)

section \<open>What reaches the shell\<close>

text \<open>
  What holds of every frame a terminal sends. A law \<open>P\<close> of frames that pings and well-formed input
  satisfy, and sizes of the grids in \<open>Q\<close>, holds of all that was ever sent, as long as xterm
  measures grids in \<open>Q\<close>.
\<close>

definition sent_all :: "(json \<Rightarrow> bool) \<Rightarrow> hook_state \<Rightarrow> bool" where
  "sent_all P h = (\<forall>i m. SockSend i m \<in> set (out (h_conn h)) \<longrightarrow> P m)"

definition fits_to :: "(jsnum \<times> jsnum \<Rightarrow> bool) \<Rightarrow> fit_env \<Rightarrow> jsnum \<times> jsnum \<Rightarrow> bool" where
  "fits_to Q env g = (case fitFullWidth env g of FitThrows \<Rightarrow> True | FitDone ok g' \<Rightarrow> Q g')"

definition wire_ok :: "(jsnum \<times> jsnum \<Rightarrow> bool) \<Rightarrow> hook_state \<Rightarrow> hook_event \<Rightarrow> bool" where
  "wire_ok Q h e = (hook_ok h e \<and> (case event_env e of None \<Rightarrow> True | Some env \<Rightarrow> fits_to Q env (grid h)))"

lemma key_data_clean: "key_handler c ev = Some d \<Longrightarrow> \<not> malformed_mouse d"
  by (auto simp: key_handler_def Let_def remap_arrow_def remap_edit_def ARROW_KEYS_def META_EDIT_KEYS_def
      SHIFT_ENTER_def malformed_at_def starts_with_def ESC_def split: option.splits if_splits)

lemma ping_not_input [simp]: "ping_msg \<noteq> input_msg d" "input_msg d \<noteq> ping_msg"
  by (simp_all add: ping_msg_def input_msg_def)

lemma sent_all_upd [simp]:
  "sent_all P (h\<lparr>composing := b\<rparr>) = sent_all P h" "sent_all P (h\<lparr>pendingFit := b\<rparr>) = sent_all P h"
  "sent_all P (h\<lparr>grid := g\<rparr>) = sent_all P h" "sent_all P (h\<lparr>h_font := f\<rparr>) = sent_all P h"
  "sent_all P (h\<lparr>h_status := st\<rparr>) = sent_all P h" "sent_all P (term_do x h) = sent_all P h"
  by (simp_all add: sent_all_def term_do_def)

lemma sent_all_send: "sent_all P h \<Longrightarrow> P m \<Longrightarrow> sent_all P (conn_send m h)"
  by (auto simp: sent_all_def split: option.splits)

lemma sent_all_unmount: "sent_all P h \<Longrightarrow> sent_all P (hook_unmount h)"
  by (auto simp: sent_all_def hook_unmount_def ws_close_def Let_def ws_prims clearTimers_def split: option.splits)

lemma grid_upd [simp]: "grid (term_do x h) = grid h" "grid (hook_unmount h) = grid h"
  by (simp_all add: term_do_def hook_unmount_def)

locale wire_law =
  fixes P :: "json \<Rightarrow> bool" and Q :: "jsnum \<times> jsnum \<Rightarrow> bool"
  assumes ping_law: "P ping_msg"
    and input_law: "\<not> malformed_mouse d \<Longrightarrow> P (input_msg d)"
    and resize_law: "Q (c, r) \<Longrightarrow> P (resize_msg c r)"
begin

definition wired :: "hook_state \<Rightarrow> bool" where
  "wired h = (sent_all P h \<and> Q (grid h))"

lemma wired_sendResize: "wired h \<Longrightarrow> wired (sendResize h)"
  using resize_law [of "fst (grid h)" "snd (grid h)"] by (simp add: wired_def sendResize_def sent_all_send)

lemma wired_doFit: "wired h \<Longrightarrow> fits_to Q env (grid h) \<Longrightarrow> wired (snd (doFit env h))"
  using wired_sendResize [of "h\<lparr>grid := _\<rparr>"]
  by (auto simp: doFit_def deferIfComposing_def fits_to_def wired_def split: fit_result.split)

lemma wired_settle: "wired h \<Longrightarrow> fits_to Q env (grid h) \<Longrightarrow> wired (settleComposition env h)"
  using wired_doFit [of "h\<lparr>composing := False, pendingFit := False\<rparr>" env]
  by (simp add: settleComposition_def Let_def) (simp add: wired_def)

lemma wired_onOpen: "wired h \<Longrightarrow> fits_to Q env (grid h) \<Longrightarrow> wired (hook_onOpen env h)"
  using wired_doFit [of "h\<lparr>h_status := Open\<rparr>" env]
  by (auto simp: hook_onOpen_def wired_def split: prod.split)

lemma wired_callbacks:
  "wired h \<Longrightarrow> \<forall>x \<in> set xs. quiet_out x \<or> is_status_cb x \<and> x \<noteq> CbOpen \<Longrightarrow> wired (fold (hook_callback env) xs h)"
proof (induction xs arbitrary: h)
  case (Cons x xs)
  have "wired (hook_callback env x h)"
    using Cons.prems by (cases x) (auto simp: hook_onMessage_def hook_onClose_def wired_def split: option.split)
  with Cons show ?case by simp
qed simp

lemma wired_font: "wired h \<Longrightarrow> fits_to Q env (grid h) \<Longrightarrow> wired (apply_font stack fsize env h)"
  using wired_sendResize [of "h\<lparr>h_font := _, grid := _\<rparr>"]
  by (auto simp: apply_font_def deferIfComposing_def fits_to_def wired_def split: fit_result.split)

lemma wired_conn_step:
  assumes "hook_inv h" and "wired h" and "\<not> client_call b" and "fits_to Q env (grid h)"
  shows "wired (hook_conn_step (hook_cfg secure hst wsId tmId) b env h)"
proof -
  let ?c = "ws_step (hook_cfg secure hst wsId tmId) (h_conn h) b"
  have "ws_inv (h_conn h)" using assms(1) by (simp add: hook_inv_def)
  from this assms(3) show ?thesis
  proof (cases rule: conn.step_cases [of _ _ secure hst wsId tmId])
    case (opened i)
    then have "wired (h\<lparr>h_conn := ?c\<rparr>)" using assms(2) by (auto simp: wired_def sent_all_def)
    with opened(1) assms(4) wired_onOpen [of "h\<lparr>h_conn := ?c\<rparr>" env] show ?thesis
      by (simp add: hook_conn_step_def Let_def)
  next
    case (ended code)
    then have "wired (h\<lparr>h_conn := ?c\<rparr>)" using assms(2) by (auto simp: wired_def sent_all_def)
    with ended(1) show ?thesis
      using wired_callbacks [of "h\<lparr>h_conn := ?c\<rparr>" "[CbClose code]" env] by (simp add: hook_conn_step_def Let_def)
  next
    case (quiet new)
    then have "wired (h\<lparr>h_conn := ?c\<rparr>)" using assms(2) ping_law by (fastforce simp: wired_def sent_all_def)
    with quiet(1,2) show ?thesis using wired_callbacks by (simp add: hook_conn_step_def Let_def)
  qed
qed

lemma wired_step:
  assumes "hook_inv h \<and> wired h" and "wire_ok Q h e"
  shows "wired (hook_step (hook_cfg secure hst wsId tmId) h e)"
proof (cases e)
  case (Browser b env)
  with assms show ?thesis by (simp add: wired_conn_step wire_ok_def hook_ok_def)
next
  case (TermData d)
  with assms input_law show ?thesis by (auto simp: on_data_def wired_def intro!: sent_all_send)
next
  case (KeyPressed ev)
  with assms show ?thesis
    by (auto simp: on_key_def wired_def intro!: sent_all_send input_law dest: key_data_clean split: option.split)
next
  case (FontChanged stack fsize env)
  with assms show ?thesis by (simp add: wired_font wire_ok_def)
next
  case Unmounted
  with assms show ?thesis by (simp add: wired_def sent_all_unmount)
qed (use assms in \<open>auto simp: wire_ok_def wired_doFit wired_settle onBlur_def onCompositionStart_def apply_focus_def\<close>,
    auto simp: wired_def)

lemma wired_mount:
  assumes "hook_mount (hook_cfg secure hst wsId tmId) g0 stack fsize focused env = Some h"
    and "fits_to Q env g0" and "\<And>g. Q g \<Longrightarrow> fits_to Q env g"
  shows "wired h"
proof -
  have "wired k \<Longrightarrow> wired (apply_focus b (apply_font s f env k))" for b s f k
    using wired_font [of k env s f] assms(3) [of "grid k"] by (auto simp: apply_focus_def wired_def)
  moreover have "sent_all P \<lparr>h_conn = connectWs cfg, h_status = st, composing = b, pendingFit = p,
     grid = g, h_font = f, mounted = m, screen = sc\<rparr>" for cfg st b p g f m sc
    by (auto simp: sent_all_def connectWs_def open_ws_def ws_blank_def Let_def emit_def)
  ultimately show ?thesis using assms(1,2) by (auto simp: hook_mount_def fits_to_def wired_def split: fit_result.splits)
qed

lemma wired_run:
  assumes "hook_mount (hook_cfg secure hst wsId tmId) g0 stack fsize focused env = Some h"
    and "fits_to Q env g0" and "\<And>g. Q g \<Longrightarrow> fits_to Q env g"
    and "run_ok (hook_step (hook_cfg secure hst wsId tmId)) (wire_ok Q) h es"
  shows "sent_all P (run (hook_step (hook_cfg secure hst wsId tmId)) h es)
    \<and> Q (grid (run (hook_step (hook_cfg secure hst wsId tmId)) h es))
    \<and> hook_inv (run (hook_step (hook_cfg secure hst wsId tmId)) h es)"
proof -
  have "hook_inv k \<and> wired k \<Longrightarrow> run_ok (hook_step (hook_cfg secure hst wsId tmId)) (wire_ok Q) k es \<Longrightarrow>
      hook_inv (run (hook_step (hook_cfg secure hst wsId tmId)) k es)
      \<and> wired (run (hook_step (hook_cfg secure hst wsId tmId)) k es)" for k
  proof (induction es arbitrary: k)
    case (Cons e es)
    then have "hook_ok k e" by (simp add: wire_ok_def)
    with Cons wired_step [of k e] hook_inv_step [of k e] show ?case by simp
  qed simp
  from this [of h] show ?thesis
    using assms(4) mount_inv [OF assms(1)] wired_mount [OF assms(1-3)] by (auto simp: wired_def)
qed

end

interpretation clean: wire_law "\<lambda>m. \<forall>d. m = input_msg d \<longrightarrow> \<not> malformed_mouse d" "\<lambda>g. True"
  by unfold_locales simp_all

lemma fits_True [simp]: "fits_to (\<lambda>g. True) env g" "wire_ok (\<lambda>g. True) = hook_ok"
  by (auto simp: fits_to_def wire_ok_def split: fit_result.split option.split intro!: ext)

text \<open>
  Nothing typed, pasted or remapped reaches the shell as a malformed mouse report: no input
  message ever sent since the mount contains a mouse report with \<open>NaN\<close> coordinates, whatever
  data xterm produced.
\<close>

theorem no_malformed_input:
  assumes "hook_mount (hook_cfg secure hst wsId tmId) g0 stack fsize focused env = Some h0"
    and "run_ok (hook_step (hook_cfg secure hst wsId tmId)) hook_ok h0 es"
    and "SockSend i (input_msg d) \<in> set (out (h_conn (run (hook_step (hook_cfg secure hst wsId tmId)) h0 es)))"
  shows "\<not> malformed_mouse d"
  using clean.wired_run [OF assms(1) fits_True(1) fits_True(1), unfolded fits_True, OF assms(2)] assms(3)
  by (auto simp: sent_all_def)

theorem no_malformed_input_witness: "\<not> malformed_mouse ''ls''"
  by (rule no_malformed_input [OF demo_mount, of "[Browser (SockOpened 0) plain_fit, TermData ''ls'']" 0])
    (simp_all add: hook_eval on_data_def malformed_at_def starts_with_def demo_hook_def term_do_def)

text \<open>
  The status can be stale: when the heartbeat has closed a dead socket and the page becomes
  visible before its close event, the new attempt detaches the old socket, no close callback
  comes, and the pane keeps showing \<open>Open\<close> while the only socket is still connecting and all
  input is dropped.
\<close>

theorem status_open_while_connecting:
  "\<exists>es. let h = run (hook_step (hook_cfg False ''h'' ''w'' ''t'')) demo_hook es in
     run_ok (hook_step (hook_cfg False ''h'' ''w'' ''t'')) hook_ok demo_hook es
     \<and> mounted h \<and> h_status h = Open \<and> socket (h_conn h) = Some 1
     \<and> sock_ready 1 (h_conn h) = CONNECTING"
proof -
  let ?es = "[Browser (SockOpened 0) plain_fit, Browser (TimerFires 1) plain_fit,
     Browser (TimerFires 2) plain_fit, Browser (Visibility True) plain_fit]"
  show ?thesis
    by (rule exI [of _ ?es])
      (simp add: hook_eval demo_hook_def term_do_def tick_def pong_timeout_def onVisibility_def max_def ready_order)
qed

end
