(* ===== verification/Clipboard.thy ===== *)
theory Clipboard
  imports JsBase
begin

text \<open>
  Copying: the OSC 52 handler of \<^verbatim>\<open>terminalClipboard.ts\<close> (a program in the terminal sets the
  clipboard) and \<open>copyText\<close> of \<^verbatim>\<open>terminalTouchSelect.ts\<close>. \<open>atob\<close> is the forgiving base64
  decoder of the browser; \<open>btoa\<close>, which the sending side applies, is its specification. Text
  is a sequence of UTF-8 bytes; \<open>TextDecoder\<close> is an argument.
\<close>

section \<open>Base64\<close>

definition b64_alphabet :: string where
  "b64_alphabet = ''ABCDEFGHIJKLMNOPQRSTUVWXYZabcdefghijklmnopqrstuvwxyz0123456789+/''"

definition b64_char :: "nat \<Rightarrow> char" where
  "b64_char n = b64_alphabet ! n"

definition b64_val :: "char \<Rightarrow> nat option" where
  "b64_val c = (let n = length (takeWhile (\<lambda>x. x \<noteq> c) b64_alphabet) in if n < 64 then Some n else None)"

fun b64_bytes :: "nat list \<Rightarrow> string" where
  "b64_bytes (a # b # c # d # r) =
     char_of (a * 4 + b div 16) # char_of (b mod 16 * 16 + c div 4) # char_of (c mod 4 * 64 + d) # b64_bytes r"
| "b64_bytes [a, b, c] = [char_of (a * 4 + b div 16), char_of (b mod 16 * 16 + c div 4)]"
| "b64_bytes [a, b] = [char_of (a * 4 + b div 16)]"
| "b64_bytes _ = []"

fun all_some :: "'a option list \<Rightarrow> 'a list option" where
  "all_some [] = Some []"
| "all_some (None # r) = None"
| "all_some (Some x # r) = map_option (Cons x) (all_some r)"

definition drop_end :: "char \<Rightarrow> string \<Rightarrow> string" where
  "drop_end c s = (if s \<noteq> [] \<and> last s = c then butlast s else s)"

definition atob :: "string \<Rightarrow> string option" where
  "atob s =
     (let s1 = filter (\<lambda>c. c \<notin> {CHR '' '', CHR 0x09, CHR 0x0A, CHR 0x0C, CHR 0x0D}) s;
          s2 = (if length s1 mod 4 = 0 then drop_end CHR ''='' (drop_end CHR ''='' s1) else s1)
      in if length s2 mod 4 = 1 then None else map_option b64_bytes (all_some (map b64_val s2)))"

fun btoa_codes :: "nat list \<Rightarrow> nat list" where
  "btoa_codes (x # y # z # r) =
     x div 4 # (x mod 4 * 16 + y div 16) # (y mod 16 * 4 + z div 64) # z mod 64 # btoa_codes r"
| "btoa_codes [x, y] = [x div 4, x mod 4 * 16 + y div 16, y mod 16 * 4]"
| "btoa_codes [x] = [x div 4, x mod 4 * 16]"
| "btoa_codes [] = []"

definition btoa :: "string \<Rightarrow> string" where
  "btoa s =
     (let cs = map b64_char (btoa_codes (map of_char s))
      in cs @ replicate ((4 - length cs mod 4) mod 4) CHR ''='')"

lemma of_char_256: "(of_char c :: nat) < 256"
  using of_char_mod_256 [of c, where ?'a = nat] mod_less_divisor [of 256 "of_char c"] by simp

lemma b64_alphabet_facts: "length b64_alphabet = 64" "distinct b64_alphabet"
  "\<forall>c \<in> set b64_alphabet. c \<notin> {CHR '' '', CHR 0x09, CHR 0x0A, CHR 0x0C, CHR 0x0D, CHR ''=''}"
  by code_simp+

lemma takeWhile_nth: "distinct xs \<Longrightarrow> n < length xs \<Longrightarrow> takeWhile (\<lambda>x. x \<noteq> xs ! n) xs = take n xs"
proof (induction xs arbitrary: n)
  case (Cons x xs)
  then show ?case by (cases n) auto
qed simp

lemma b64_val_char: "n < 64 \<Longrightarrow> b64_val (b64_char n) = Some n"
  using takeWhile_nth [OF b64_alphabet_facts(2), of n] b64_alphabet_facts(1)
  by (simp add: b64_val_def b64_char_def)

lemma b64_char_plain: "n < 64 \<Longrightarrow> b64_char n \<notin> {CHR '' '', CHR 0x09, CHR 0x0A, CHR 0x0C, CHR 0x0D, CHR ''=''}"
  unfolding b64_char_def using b64_alphabet_facts(1,3) nth_mem [of n b64_alphabet] by simp

lemma group_parts:
  fixes x y z :: nat
  assumes "x < 256" "y < 256" "z < 256"
  shows "x div 4 < 64" "x mod 4 \<le> 3" "y div 16 \<le> 15" "y mod 16 \<le> 15" "z div 64 \<le> 3" "z mod 64 < 64"
  using assms by (auto simp: div_less_iff_less_mult less_Suc_eq_le [symmetric])

lemma group_bound:
  fixes x y z :: nat
  assumes "x < 256" "y < 256" "z < 256"
  shows "x mod 4 * 16 + y div 16 < 64" "y mod 16 * 4 + z div 64 < 64"
  using group_parts [OF assms] by linarith+

lemma group_bytes:
  fixes x y z :: nat
  assumes "x < 256" "y < 256" "z < 256"
  shows "x div 4 * 4 + (x mod 4 * 16 + y div 16) div 16 = x"
    and "(x mod 4 * 16 + y div 16) mod 16 * 16 + (y mod 16 * 4 + z div 64) div 4 = y"
    and "(y mod 16 * 4 + z div 64) mod 4 * 64 + z mod 64 = z"
proof -
  have c: "y div 16 < 16" and e: "z div 64 < 4" using group_parts [OF assms] by linarith+
  have "(x mod 4 * 16 + y div 16) div 16 = x mod 4" "(x mod 4 * 16 + y div 16) mod 16 = y div 16"
      "(y mod 16 * 4 + z div 64) div 4 = y mod 16" "(y mod 16 * 4 + z div 64) mod 4 = z div 64"
    using c e by simp_all
  then show "x div 4 * 4 + (x mod 4 * 16 + y div 16) div 16 = x"
      "(x mod 4 * 16 + y div 16) mod 16 * 16 + (y mod 16 * 4 + z div 64) div 4 = y"
      "(y mod 16 * 4 + z div 64) mod 4 * 64 + z mod 64 = z"
    by simp_all
qed

lemma btoa_codes_bound: "\<forall>x \<in> set xs. x < 256 \<Longrightarrow> \<forall>n \<in> set (btoa_codes xs). n < 64"
proof (induction xs rule: btoa_codes.induct)
  case (1 x y z r)
  then show ?case using group_bound [of x y z] group_parts [of x y z] by simp
next
  case (2 x y)
  then show ?case using group_bound [of x y 0] group_parts [of x y 0] by simp
next
  case (3 x)
  then show ?case using group_bound [of x 0 0] group_parts [of x 0 0] by simp
qed simp

lemma b64_bytes_codes: "\<forall>x \<in> set xs. x < 256 \<Longrightarrow> b64_bytes (btoa_codes xs) = map char_of xs"
proof (induction xs rule: btoa_codes.induct)
  case (1 x y z r)
  then show ?case using group_bytes [of x y z] by simp
next
  case (2 x y)
  then show ?case using group_bytes [of x y 0] by simp
next
  case (3 x)
  then show ?case using group_bytes [of x 0 0] by simp
qed simp

lemma length_btoa_codes: "length (btoa_codes xs) mod 4 \<noteq> 1"
  by (induction xs rule: btoa_codes.induct) auto

lemma all_some_map: "(\<And>x. x \<in> set xs \<Longrightarrow> f (g x) = Some x) \<Longrightarrow> all_some (map (f \<circ> g) xs) = Some xs"
  by (induction xs) auto

lemma drop_end_plain: "c \<notin> set s \<Longrightarrow> drop_end c s = s"
  by (auto simp: drop_end_def)

lemma drop_end_pad [simp]: "drop_end c (s @ [c]) = s"
  by (simp add: drop_end_def)

text \<open>\<open>atob\<close> undoes \<open>btoa\<close>.\<close>

lemma atob_btoa: "atob (btoa s) = Some s"
proof -
  let ?ns = "btoa_codes (map of_char s)"
  let ?cs = "map b64_char ?ns"
  let ?k = "(4 - length ?cs mod 4) mod 4"
  have bytes: "\<forall>x \<in> set (map of_char s). x < (256 :: nat)" by (simp add: of_char_256)
  note bound = btoa_codes_bound [OF bytes]
  have ceq: "CHR ''='' \<notin> set ?cs" using bound b64_char_plain by fastforce
  have plain: "filter (\<lambda>c. c \<notin> {CHR '' '', CHR 0x09, CHR 0x0A, CHR 0x0C, CHR 0x0D}) (?cs @ replicate ?k CHR ''='')
      = ?cs @ replicate ?k CHR ''=''"
    using bound b64_char_plain by (intro filter_True) fastforce
  have m: "length ?cs mod 4 \<noteq> 1" using length_btoa_codes by simp
  then consider "length ?cs mod 4 = 0" | "length ?cs mod 4 = 2" | "length ?cs mod 4 = 3" by linarith
  then have strip: "drop_end CHR ''='' (drop_end CHR ''='' (?cs @ replicate ?k CHR ''='')) = ?cs"
    and len: "length (?cs @ replicate ?k CHR ''='') mod 4 = 0"
  proof (atomize (full), cases)
    case 1
    then show "drop_end CHR ''='' (drop_end CHR ''='' (?cs @ replicate ?k CHR ''='')) = ?cs
        \<and> length (?cs @ replicate ?k CHR ''='') mod 4 = 0"
      using ceq by (simp add: drop_end_plain)
  next
    case 2
    then show "drop_end CHR ''='' (drop_end CHR ''='' (?cs @ replicate ?k CHR ''='')) = ?cs
        \<and> length (?cs @ replicate ?k CHR ''='') mod 4 = 0"
      using drop_end_pad [of "CHR ''=''" "?cs @ ''=''"] mod_add_left_eq [of "length ?cs" 4 2]
      by (simp add: numeral_2_eq_2)
  next
    case 3
    then show "drop_end CHR ''='' (drop_end CHR ''='' (?cs @ replicate ?k CHR ''='')) = ?cs
        \<and> length (?cs @ replicate ?k CHR ''='') mod 4 = 0"
      using ceq mod_add_left_eq [of "length ?cs" 4 1] by (simp add: drop_end_plain)
  qed
  have "all_some (map b64_val ?cs) = Some ?ns"
    using all_some_map [of ?ns b64_val b64_char] bound b64_val_char by simp
  moreover have "b64_bytes ?ns = s" using b64_bytes_codes [OF bytes] by (simp add: o_def map_idI)
  ultimately show ?thesis
    using m by (simp only: atob_def btoa_def Let_def plain strip len) simp
qed

section \<open>The OSC 52 handler\<close>

datatype clip_effect =
    ClipWrite string            \<comment> \<open>\<open>navigator.clipboard.writeText\<close>\<close>
  | AreaAppended string         \<comment> \<open>a helper textarea with this value\<close>
  | AreaSelected
  | ExecCopy                    \<comment> \<open>\<open>document.execCommand("copy")\<close>\<close>
  | AreaRemoved
  | DebugLog

text \<open>The browser at the time of the call: is there a Clipboard API, does its write succeed,
  what does \<open>execCommand\<close> return (\<open>None\<close>: it throws).\<close>

record clip_env =
  has_clipboard :: bool
  write_ok :: bool
  exec_copy :: "bool option"

definition legacy_effects :: "string \<Rightarrow> clip_effect list" where
  "legacy_effects str = [AreaAppended str, AreaSelected, ExecCopy, AreaRemoved]"

definition after_separator :: "string \<Rightarrow> string option" where
  "after_separator s =
     (case dropWhile (\<lambda>c. c \<noteq> CHR '';'') s of [] \<Rightarrow> None | x # r \<Rightarrow> Some r)"

text \<open>The value the handler's promise resolves to and its effects, in order.\<close>

definition osc52 :: "(string \<Rightarrow> string) \<Rightarrow> clip_env \<Rightarrow> string \<Rightarrow> bool \<times> clip_effect list" where
  "osc52 decode_text env data =
     (case after_separator data of
        None \<Rightarrow> (True, [])
      | Some payload \<Rightarrow>
          if payload = ''?'' then (True, [])
          else case atob payload of
            None \<Rightarrow> (True, [DebugLog])
          | Some encoded \<Rightarrow>
              let str = decode_text encoded in
              if has_clipboard env then
                (True, if write_ok env then [ClipWrite str] else [ClipWrite str, DebugLog])
              else
                (True, legacy_effects str @ (if exec_copy env = None then [DebugLog] else [])))"

section \<open>copyText\<close>

definition copyText :: "clip_env \<Rightarrow> string \<Rightarrow> bool \<times> clip_effect list" where
  "copyText env str =
     (if has_clipboard env \<and> write_ok env then (True, [ClipWrite str])
      else ((case exec_copy env of Some ok \<Rightarrow> ok | None \<Rightarrow> False),
            (if has_clipboard env then [ClipWrite str] else []) @ legacy_effects str))"

text \<open>What the clipboard holds after the effects, given what the browser accepted.\<close>

fun clip_after :: "clip_env \<Rightarrow> clip_effect list \<Rightarrow> string option \<Rightarrow> string option \<Rightarrow> string option" where
  "clip_after env [] area clip = clip"
| "clip_after env (ClipWrite t # es) area clip = clip_after env es area (if write_ok env then Some t else clip)"
| "clip_after env (AreaAppended t # es) area clip = clip_after env es (Some t) clip"
| "clip_after env (ExecCopy # es) area clip =
     clip_after env es area (if exec_copy env = Some True then area else clip)"
| "clip_after env (AreaRemoved # es) area clip = clip_after env es None clip"
| "clip_after env (_ # es) area clip = clip_after env es area clip"

text \<open>The helper textareas left in the page.\<close>

fun areas_left :: "clip_effect list \<Rightarrow> nat \<Rightarrow> nat" where
  "areas_left [] n = n"
| "areas_left (AreaAppended t # es) n = areas_left es (Suc n)"
| "areas_left (AreaRemoved # es) n = areas_left es (n - 1)"
| "areas_left (_ # es) n = areas_left es n"

lemma legacy_clip [simp]:
  "clip_after env (legacy_effects t @ es) a clip = clip_after env es None (if exec_copy env = Some True then Some t else clip)"
  "areas_left (legacy_effects t @ es) n = areas_left es n"
  "clip_after env (legacy_effects t) a clip = (if exec_copy env = Some True then Some t else clip)"
  "areas_left (legacy_effects t) n = n"
  by (simp_all add: legacy_effects_def)

lemma after_separator_cons: "CHR '';'' \<notin> set sel \<Longrightarrow> after_separator (sel @ CHR '';'' # r) = Some r"
proof -
  assume "CHR '';'' \<notin> set sel"
  then have "\<forall>c \<in> set sel. c \<noteq> CHR '';''" by auto
  then show ?thesis by (simp add: after_separator_def)
qed

lemma length_btoa: "length (btoa s) mod 4 = 0"
proof -
  have "(n + (4 - n mod 4) mod 4) mod 4 = (0 :: nat)" for n
  proof -
    have "n mod 4 = 0 \<or> n mod 4 = 1 \<or> n mod 4 = 2 \<or> n mod 4 = 3" by linarith
    moreover have "(n + j) mod 4 = (n mod 4 + j) mod 4" for j by (simp add: mod_add_left_eq)
    ultimately show ?thesis by auto
  qed
  then show ?thesis by (simp add: btoa_def Let_def)
qed

text \<open>
  A program in the terminal can set the clipboard to any text: for every selection name and
  every text that \<open>TextDecoder\<close> reads back from its UTF-8 bytes, the OSC 52 sequence with the
  base64 of the text leaves exactly that text on the clipboard, through the Clipboard API
  where there is one and it accepts, and through the helper textarea where there is none.
\<close>

theorem osc52_copies:
  assumes "CHR '';'' \<notin> set sel" and "decode_text str = str"
    and "if has_clipboard env then write_ok env else exec_copy env = Some True"
  shows "clip_after env (snd (osc52 decode_text env (sel @ CHR '';'' # btoa str))) None old = Some str"
proof -
  have "btoa str \<noteq> ''?''" using length_btoa [of str] by auto
  then show ?thesis
    using assms by (auto simp: osc52_def after_separator_cons atob_btoa Let_def)
qed

definition lan_env :: clip_env where
  "lan_env = \<lparr>has_clipboard = False, write_ok = False, exec_copy = Some True\<rparr>"

theorem osc52_copies_witness:
  "clip_after lan_env (snd (osc52 (\<lambda>b. b) lan_env (''c'' @ CHR '';'' # btoa ''hi''))) None None = Some ''hi''"
  by (rule osc52_copies) (simp_all add: lan_env_def)

text \<open>
  The OSC 52 handler is total and harmless on any data: it always resolves to true, leaves
  no helper textarea behind, and without a separator, on a query (\<open>?\<close>) and on invalid base64
  it does not touch the clipboard, nor does it ever copy anything but the decoded payload.
\<close>

theorem osc52_total:
  "fst (osc52 decode_text env data)
   \<and> areas_left (snd (osc52 decode_text env data)) 0 = 0
   \<and> (clip_after env (snd (osc52 decode_text env data)) None old = old
      \<or> (\<exists>payload bytes. after_separator data = Some payload \<and> payload \<noteq> ''?'' \<and> atob payload = Some bytes
           \<and> clip_after env (snd (osc52 decode_text env data)) None old = Some (decode_text bytes)))"
  by (auto simp: osc52_def Let_def split: option.split)

text \<open>
  \<open>copyText\<close> reports success exactly when the text is on the clipboard because of it: when it
  returns true the clipboard holds the text, when it returns false the clipboard is as it
  was; either way the page has no extra textarea.
\<close>

theorem copyText_honest:
  "areas_left (snd (copyText env str)) n = n
   \<and> clip_after env (snd (copyText env str)) None old = (if fst (copyText env str) then Some str else old)"
  by (auto simp: copyText_def split: option.split)

end
