(* ===== verification/TouchSelect.thy ===== *)
theory TouchSelect
  imports Clipboard
begin

text \<open>
  \<^verbatim>\<open>features/split/terminalTouchSelect.ts\<close>: long-press selection on a touch screen, as a state
  machine. The state holds the closure variables of \<open>registerTouchSelect\<close>, the pending
  long-press timers and the log of synthetic mouse events and other effects. The touches of
  an event are its \<open>touches\<close> list (\<open>changedTouches\<close> for the end of a touch); the application's
  mouse mode, the element under a point and the selection are read from xterm and the page,
  and come with the event that reads them. Copying is \<open>copyText\<close> of \<open>Clipboard\<close>.
\<close>

section \<open>State\<close>

type_synonym point = "rat \<times> rat"

datatype mouse_target = ElementAt point | PaneElement | DocumentRoot

record mouse_event =
  m_type :: string
  m_at :: point
  m_target :: mouse_target
  m_buttons :: nat
  m_shift :: bool
  m_alt :: bool

datatype touch_out =
    Mouse mouse_event
  | Vibrate nat
  | PreventDefault
  | StopPropagation
  | CopyStarted string
  | OnCopied

record touch_state =
  ts_timer :: nat
  selecting :: bool
  start :: point
  ts_pending :: "nat list"
  ts_next :: nat
  isMac :: bool
  attached :: bool
  ts_out :: "touch_out list"

definition MOVE_CANCEL_PX :: rat where "MOVE_CANCEL_PX = 10"
definition LONG_PRESS_MS :: nat where "LONG_PRESS_MS = 500"

section \<open>Handlers\<close>

definition ts_emit :: "touch_out \<Rightarrow> touch_state \<Rightarrow> touch_state" where
  "ts_emit x s = s\<lparr>ts_out := ts_out s @ [x]\<rparr>"

text \<open>\<open>tracking\<close>: the application owns the mouse (\<open>mouseTrackingMode\<close> is not \<open>none\<close>).\<close>

definition fireMouse :: "bool \<Rightarrow> string \<Rightarrow> point \<Rightarrow> mouse_target \<Rightarrow> touch_state \<Rightarrow> touch_state" where
  "fireMouse tracking typ pos tgt s =
     ts_emit (Mouse \<lparr>m_type = typ, m_at = pos, m_target = tgt,
       m_buttons = (if typ = ''mouseup'' then 0 else 1),
       m_shift = (tracking \<and> \<not> isMac s), m_alt = (tracking \<and> isMac s)\<rparr>) s"

definition ts_clear :: "touch_state \<Rightarrow> touch_state" where
  "ts_clear s = s\<lparr>ts_pending := filter (\<lambda>k. k \<noteq> ts_timer s) (ts_pending s)\<rparr>"

definition onTouchStart :: "point list \<Rightarrow> touch_state \<Rightarrow> touch_state" where
  "onTouchStart touches s =
     (case touches of
        [t] \<Rightarrow>
          let s1 = ts_clear (s\<lparr>start := t\<rparr>) in
          s1\<lparr>ts_timer := ts_next s1, ts_pending := ts_pending s1 @ [ts_next s1], ts_next := Suc (ts_next s1)\<rparr>
      | _ \<Rightarrow> s)"

definition long_press :: "bool \<Rightarrow> mouse_target option \<Rightarrow> touch_state \<Rightarrow> touch_state" where
  "long_press tracking el s =
     fireMouse tracking ''mousedown'' (start s) (case el of Some e \<Rightarrow> e | None \<Rightarrow> PaneElement)
       (ts_emit (Vibrate 10) (s\<lparr>selecting := True\<rparr>))"

definition far :: "point \<Rightarrow> point \<Rightarrow> bool" where
  "far a b = ((fst a - fst b) * (fst a - fst b) + (snd a - snd b) * (snd a - snd b)
              > MOVE_CANCEL_PX * MOVE_CANCEL_PX)"

definition onTouchMove :: "bool \<Rightarrow> point list \<Rightarrow> touch_state \<Rightarrow> touch_state" where
  "onTouchMove tracking touches s =
     (case touches of
        [] \<Rightarrow> s
      | t # _ \<Rightarrow>
          if \<not> selecting s then (if far t (start s) then ts_clear s else s)
          else fireMouse tracking ''mousemove'' t DocumentRoot (ts_emit StopPropagation (ts_emit PreventDefault s)))"

definition onTouchEnd :: "bool \<Rightarrow> string \<Rightarrow> point list \<Rightarrow> touch_state \<Rightarrow> touch_state" where
  "onTouchEnd tracking selection changed s =
     (let s1 = ts_clear s in
      if \<not> selecting s1 then s1
      else let s2 = s1\<lparr>selecting := False\<rparr> in
        case changed of
          [] \<Rightarrow> s2
        | t # _ \<Rightarrow>
            let s3 = fireMouse tracking ''mouseup'' t DocumentRoot s2;
                s4 = (if js_trim selection \<noteq> [] then ts_emit (CopyStarted selection) s3 else s3)
            in ts_emit StopPropagation s4)"

definition onTouchCancel :: "touch_state \<Rightarrow> touch_state" where
  "onTouchCancel s =
     (let s1 = ts_clear s; s2 = (if selecting s1 then ts_emit StopPropagation s1 else s1)
      in s2\<lparr>selecting := False\<rparr>)"

definition ts_dispose :: "touch_state \<Rightarrow> touch_state" where
  "ts_dispose s = (ts_clear s)\<lparr>attached := False\<rparr>"

definition registerTouchSelect :: "bool \<Rightarrow> touch_state" where
  "registerTouchSelect mac =
     \<lparr>ts_timer = 0, selecting = False, start = (0, 0), ts_pending = [], ts_next = 1, isMac = mac,
      attached = True, ts_out = []\<rparr>"

section \<open>Events\<close>

datatype touch_event =
    TouchStart "point list"
  | LongPress nat bool "mouse_target option"
  | TouchMove bool "point list"
  | TouchEnd bool string "point list"
  | TouchCancel
  | CopyResult bool
  | TouchDispose

fun touch_step :: "touch_state \<Rightarrow> touch_event \<Rightarrow> touch_state" where
  "touch_step s (TouchStart ts) = (if attached s then onTouchStart ts s else s)"
| "touch_step s (LongPress k tracking el) =
     (if k \<in> set (ts_pending s)
      then long_press tracking el (s\<lparr>ts_pending := filter (\<lambda>j. j \<noteq> k) (ts_pending s)\<rparr>) else s)"
| "touch_step s (TouchMove tracking ts) = (if attached s then onTouchMove tracking ts s else s)"
| "touch_step s (TouchEnd tracking sel ts) = (if attached s then onTouchEnd tracking sel ts s else s)"
| "touch_step s TouchCancel = (if attached s then onTouchCancel s else s)"
| "touch_step s (CopyResult ok) = (if ok then ts_emit OnCopied s else s)"
| "touch_step s TouchDispose = (if attached s then ts_dispose s else s)"

section \<open>Invariant\<close>

text \<open>The state of the mouse button xterm believes in, and whether a log of synthetic events is
  one it can follow: moves and releases only while the button is down.\<close>

fun button_step :: "touch_out \<Rightarrow> bool \<Rightarrow> bool" where
  "button_step (Mouse m) b = (m_type m \<noteq> ''mouseup'')"
| "button_step _ b = b"

fun mouse_log_ok :: "bool \<Rightarrow> touch_out list \<Rightarrow> bool" where
  "mouse_log_ok b [] = True"
| "mouse_log_ok b (Mouse m # xs) =
     ((m_type m = ''mousedown'' \<or> b) \<and> mouse_log_ok (m_type m \<noteq> ''mouseup'') xs)"
| "mouse_log_ok b (_ # xs) = mouse_log_ok b xs"

definition button :: "touch_out list \<Rightarrow> bool" where
  "button xs = fold button_step xs False"

lemma button_append [simp]: "button (xs @ ys) = fold button_step ys (button xs)"
  by (simp add: button_def)

lemma log_append [simp]:
  "mouse_log_ok b (xs @ ys) = (mouse_log_ok b xs \<and> mouse_log_ok (fold button_step xs b) ys)"
  by (induction b xs rule: mouse_log_ok.induct) auto

text \<open>The modifier that forces a local selection: Option on a Mac, Shift elsewhere.\<close>

fun mods_ok :: "bool \<Rightarrow> touch_out \<Rightarrow> bool" where
  "mods_ok mac (Mouse m) = ((m_shift m \<longrightarrow> \<not> mac) \<and> (m_alt m \<longrightarrow> mac))"
| "mods_ok mac _ = True"

definition touch_inv :: "touch_state \<Rightarrow> bool" where
  "touch_inv s =
     (set (ts_pending s) \<subseteq> {ts_timer s} \<and> distinct (ts_pending s) \<and> ts_timer s < ts_next s
      \<and> (\<not> attached s \<longrightarrow> ts_pending s = [])
      \<and> (selecting s \<longrightarrow> button (ts_out s))
      \<and> mouse_log_ok False (ts_out s)
      \<and> (\<forall>x \<in> set (ts_out s). mods_ok (isMac s) x))"

lemma touch_inv_init: "touch_inv (registerTouchSelect mac)"
  by (simp add: touch_inv_def registerTouchSelect_def)

lemmas touch_defs = onTouchStart_def long_press_def onTouchMove_def onTouchEnd_def onTouchCancel_def
  ts_dispose_def fireMouse_def ts_emit_def ts_clear_def Let_def

lemma only_timer: "set xs \<subseteq> {k} \<Longrightarrow> filter (\<lambda>j. j \<noteq> k) xs = []"
  by (auto simp: filter_empty_conv)

lemma touch_inv_step:
  assumes "touch_inv s"
  shows "touch_inv (touch_step s e)"
proof (cases e)
  case (TouchStart ts)
  with assms show ?thesis
    by (auto simp: touch_inv_def touch_defs only_timer split: list.split)
next
  case (LongPress k tracking el)
  with assms show ?thesis
    by (auto simp: touch_inv_def touch_defs button_def [symmetric])
next
  case (TouchMove tracking ts)
  with assms show ?thesis
    by (auto simp: touch_inv_def touch_defs button_def [symmetric]
        only_timer split: list.split)
next
  case (TouchEnd tracking sel ts)
  with assms show ?thesis
    by (auto simp: touch_inv_def touch_defs button_def [symmetric]
        only_timer split: list.split)
next
  case TouchCancel
  with assms show ?thesis
    by (auto simp: touch_inv_def touch_defs button_def [symmetric] only_timer)
next
  case (CopyResult ok)
  with assms show ?thesis
    by (auto simp: touch_inv_def touch_defs button_def [symmetric])
next
  case TouchDispose
  with assms show ?thesis by (auto simp: touch_inv_def touch_defs only_timer)
qed

interpretation touch_run: machine_inv touch_step "\<lambda>s e. True" touch_inv
  by unfold_locales (rule touch_inv_step)

definition touch_after :: "bool \<Rightarrow> touch_event list \<Rightarrow> touch_state" where
  "touch_after mac es = run touch_step (registerTouchSelect mac) es"

lemma touch_after_inv: "touch_inv (touch_after mac es)"
  unfolding touch_after_def by (rule touch_run.run_inv) (simp_all add: touch_inv_init run_ok_trivial)


section \<open>When nothing is selected\<close>

definition is_mouse_or_stop :: "touch_out \<Rightarrow> bool" where
  "is_mouse_or_stop x = (case x of Mouse m \<Rightarrow> True | PreventDefault \<Rightarrow> True | StopPropagation \<Rightarrow> True | _ \<Rightarrow> False)"

definition idle :: "touch_out list \<Rightarrow> touch_state \<Rightarrow> bool" where
  "idle base s =
     (\<not> selecting s \<and> ts_pending s = [] \<and> filter is_mouse_or_stop (ts_out s) = base)"

definition no_touchstart :: "touch_event \<Rightarrow> bool" where
  "no_touchstart e = (case e of TouchStart ts \<Rightarrow> False | _ \<Rightarrow> True)"

lemma idle_step: "idle base s \<Longrightarrow> \<not> attached s \<or> no_touchstart e \<Longrightarrow> idle base (touch_step s e)"
  by (cases e) (auto simp: idle_def no_touchstart_def touch_defs is_mouse_or_stop_def split: list.split)

lemma attached_step: "\<not> attached s \<Longrightarrow> \<not> attached (touch_step s e)"
  by (cases e) (auto simp: touch_defs)

interpretation idle_run: machine_inv touch_step "\<lambda>s e. no_touchstart e" "idle base"
  by unfold_locales (blast intro: idle_step)

interpretation gone_run: machine_inv touch_step "\<lambda>s e. True" "\<lambda>s. idle base s \<and> \<not> attached s"
  by unfold_locales (simp add: idle_step attached_step)

text \<open>
  Scrolling stays scrolling: when a finger has moved more than ten pixels before the long
  press, then until the next touch starts the code dispatches no mouse event, prevents no
  default and hides no touch from xterm, whatever the finger does.
\<close>

theorem scroll_not_hijacked:
  assumes "s = touch_after mac es" and "attached s" and "\<not> selecting s"
    and "far t (start s)" and "\<forall>e \<in> set es'. no_touchstart e"
  shows "filter is_mouse_or_stop (ts_out (run touch_step s (TouchMove tracking (t # ts) # es')))
       = filter is_mouse_or_stop (ts_out s)"
proof -
  have "touch_inv s" unfolding assms(1) by (rule touch_after_inv)
  then have "idle (filter is_mouse_or_stop (ts_out s)) (touch_step s (TouchMove tracking (t # ts)))"
    using assms(2-4) by (auto simp: idle_def touch_defs touch_inv_def only_timer)
  moreover have "run_ok touch_step (\<lambda>s e. no_touchstart e) s' es'" for s'
    using assms(5) by (induction es' arbitrary: s') auto
  ultimately show ?thesis using idle_run.run_inv by (auto simp: idle_def)
qed

theorem scroll_not_hijacked_witness:
  "filter is_mouse_or_stop (ts_out (run touch_step (touch_after False [TouchStart [(5, 5)]])
     [TouchMove False [(5, 30)], LongPress 1 False None, TouchEnd False ''sel'' [(5, 30)]]))
   = filter is_mouse_or_stop (ts_out (touch_after False [TouchStart [(5, 5)]]))"
  by (rule scroll_not_hijacked [OF refl])
    (simp_all add: touch_after_def registerTouchSelect_def touch_defs far_def MOVE_CANCEL_PX_def no_touchstart_def)

text \<open>
  After the listeners have been removed outside a selection, nothing is ever dispatched
  again, not even by a long press that was pending.
\<close>

theorem disposed_is_silent:
  assumes "\<not> selecting (touch_after mac es)"
  shows "filter is_mouse_or_stop (ts_out (touch_after mac (es @ TouchDispose # es')))
       = filter is_mouse_or_stop (ts_out (touch_after mac es))"
proof -
  let ?s = "touch_after mac es"
  let ?base = "filter is_mouse_or_stop (ts_out ?s)"
  have "touch_inv ?s" by (rule touch_after_inv)
  then have "idle ?base (touch_step ?s TouchDispose) \<and> \<not> attached (touch_step ?s TouchDispose)"
    using assms by (cases "attached ?s") (auto simp: idle_def touch_defs touch_inv_def only_timer)
  from gone_run.run_inv [OF this, of es'] show ?thesis
    by (simp add: touch_after_def idle_def run_ok_trivial)
qed

theorem disposed_is_silent_witness:
  "filter is_mouse_or_stop (ts_out (touch_after True ([TouchStart [(1, 1)]] @ TouchDispose # [LongPress 1 False None])))
   = filter is_mouse_or_stop (ts_out (touch_after True [TouchStart [(1, 1)]]))"
  by (rule disposed_is_silent) (simp add: touch_after_def registerTouchSelect_def touch_defs)

text \<open>
  Two gestures the machine does not end cleanly: a cancelled touch (the system takes over
  during a selection) leaves xterm with the mouse button down, since no \<open>mouseup\<close> follows;
  and a second finger does not stop the long press of the first, so a pinch turns into a
  selection.
\<close>

theorem cancel_and_pinch:
  "button (ts_out (touch_after False [TouchStart [(1, 1)], LongPress 1 False None, TouchCancel]))
   \<and> \<not> selecting (touch_after False [TouchStart [(1, 1)], LongPress 1 False None, TouchCancel])
   \<and> selecting (touch_after False [TouchStart [(1, 1)], TouchStart [(1, 1), (90, 90)], LongPress 1 False None])"
  by (simp add: touch_after_def registerTouchSelect_def touch_defs button_def)

end
