(* ===== verification/Settings.thy ===== *)
theory Settings
  imports JsBase
begin

text \<open>
  What the browser remembers: \<^verbatim>\<open>lib/font.ts\<close>, \<^verbatim>\<open>i18n/index.ts\<close>, the setters of
  \<^verbatim>\<open>App.tsx\<close> and \<^verbatim>\<open>SettingsMenu.tsx\<close>, and the width of the file panel
  (\<^verbatim>\<open>features/split/useFilesResize.ts\<close>). \<open>localStorage\<close> is a map from strings to strings.
  Each setting provides the interface \<open>persisted_setting\<close>; a reload reads them all back.
\<close>

type_synonym storage = "string \<rightharpoonup> string"

section \<open>The interface of a setting\<close>

locale persisted_setting =
  fixes key :: string
    and save :: "'v \<Rightarrow> storage \<Rightarrow> storage"
    and detect :: "storage \<Rightarrow> 'v"
    and ok :: "'v \<Rightarrow> bool"
    and norm :: "'v \<Rightarrow> 'v"
  assumes save_other: "k \<noteq> key \<Longrightarrow> save v ls k = ls k"
    and detect_cong: "ls key = ls' key \<Longrightarrow> detect ls = detect ls'"
    and detect_save: "ok v \<Longrightarrow> detect (save v ls) = norm v"
begin

lemma save_twice: "ok v \<Longrightarrow> detect (save v (save u ls)) = norm v"
  by (rule detect_save)

text \<open>Writes that leave the key alone do not matter.\<close>

lemma detect_frame: "(\<And>ls. f ls key = ls key) \<Longrightarrow> detect (f ls) = detect ls"
  by (rule detect_cong) simp

lemma detect_run:
  assumes "\<forall>f \<in> set fs. \<forall>ls. f ls key = ls key" and "ok v"
  shows "detect (fold (\<lambda>f. f) fs (save v ls)) = norm v"
proof -
  have "(fold (\<lambda>f. f) fs l) key = l key" for l
    using assms(1) by (induction fs arbitrary: l) auto
  then show ?thesis using detect_cong [of "fold (\<lambda>f. f) fs (save v ls)" "save v ls"] assms(2)
    by (simp add: detect_save)
qed

end

section \<open>Language\<close>

datatype Lang = En | Ko

fun lang_str :: "Lang \<Rightarrow> string" where
  "lang_str En = ''en''"
| "lang_str Ko = ''ko''"

definition lower_char :: "char \<Rightarrow> char" where
  "lower_char c = (let n = of_char c :: nat in if 65 \<le> n \<and> n \<le> 90 then char_of (n + 32) else c)"

definition LANG_KEY :: string where "LANG_KEY = ''th-lang''"

definition detectLang :: "string \<Rightarrow> storage \<Rightarrow> Lang" where
  "detectLang navigator_language ls =
     (if ls LANG_KEY = Some ''en'' then En
      else if ls LANG_KEY = Some ''ko'' then Ko
      else if take 2 (map lower_char navigator_language) = ''ko'' then Ko else En)"

definition persistLang :: "Lang \<Rightarrow> storage \<Rightarrow> storage" where
  "persistLang l ls = ls(LANG_KEY \<mapsto> lang_str l)"

interpretation lang: persisted_setting LANG_KEY persistLang "detectLang nav" "\<lambda>l. True" "\<lambda>l. l"
proof
  fix l ls
  show "detectLang nav (persistLang l ls) = l"
    by (cases l) (simp_all add: detectLang_def persistLang_def)
qed (simp_all add: persistLang_def detectLang_def)

section \<open>Font\<close>

datatype FontId = FSystem | FNanum | FJetbrains | FFira | FIbmplex | FSourcecode

fun font_str :: "FontId \<Rightarrow> string" where
  "font_str FSystem = ''system''"
| "font_str FNanum = ''nanum''"
| "font_str FJetbrains = ''jetbrains''"
| "font_str FFira = ''fira''"
| "font_str FIbmplex = ''ibmplex''"
| "font_str FSourcecode = ''sourcecode''"

record FontPreset =
  fp_id :: FontId
  fp_labelKey :: string
  fp_stack :: string

definition KOREAN_MONO :: string where
  \<open>KOREAN_MONO = ''"Nanum Gothic Coding"''\<close>

definition KOREAN_SANS_TAIL :: string where
  \<open>KOREAN_SANS_TAIL = ''"Nanum Gothic", "Malgun Gothic", "Apple SD Gothic Neo", monospace''\<close>

definition SYSTEM_FONT_STACK :: string where
  \<open>SYSTEM_FONT_STACK = ''ui-monospace, "SF Mono", "Cascadia Code", Menlo, Consolas, '' @ KOREAN_MONO
     @ '', '' @ KOREAN_SANS_TAIL\<close>

definition FONT_PRESETS :: "FontPreset list" where
  \<open>FONT_PRESETS =
     [\<lparr>fp_id = FSystem, fp_labelKey = ''font.system'', fp_stack = SYSTEM_FONT_STACK\<rparr>,
      \<lparr>fp_id = FNanum, fp_labelKey = ''font.nanum'', fp_stack = KOREAN_MONO @ '', '' @ KOREAN_SANS_TAIL\<rparr>,
      \<lparr>fp_id = FJetbrains, fp_labelKey = ''font.jetbrains'',
        fp_stack = ''"JetBrains Mono", '' @ KOREAN_MONO @ '', '' @ KOREAN_SANS_TAIL\<rparr>,
      \<lparr>fp_id = FFira, fp_labelKey = ''font.fira'',
        fp_stack = ''"Fira Code", '' @ KOREAN_MONO @ '', '' @ KOREAN_SANS_TAIL\<rparr>,
      \<lparr>fp_id = FIbmplex, fp_labelKey = ''font.ibmplex'',
        fp_stack = ''"IBM Plex Mono", '' @ KOREAN_MONO @ '', '' @ KOREAN_SANS_TAIL\<rparr>,
      \<lparr>fp_id = FSourcecode, fp_labelKey = ''font.sourcecode'',
        fp_stack = ''"Source Code Pro", '' @ KOREAN_MONO @ '', '' @ KOREAN_SANS_TAIL\<rparr>]\<close>

definition FONT_KEY :: string where "FONT_KEY = ''th-font''"

definition detectFont :: "storage \<Rightarrow> FontId" where
  "detectFont ls =
     (case find (\<lambda>p. ls FONT_KEY = Some (font_str (fp_id p))) FONT_PRESETS of
        Some p \<Rightarrow> fp_id p | None \<Rightarrow> FSystem)"

definition persistFont :: "FontId \<Rightarrow> storage \<Rightarrow> storage" where
  "persistFont i ls = ls(FONT_KEY \<mapsto> font_str i)"

text \<open>The stack a pane uses (\<^verbatim>\<open>TerminalPane.tsx\<close>).\<close>

definition font_stack :: "FontId \<Rightarrow> string" where
  "font_stack font =
     (case find (\<lambda>p. fp_id p = font) FONT_PRESETS of Some p \<Rightarrow> fp_stack p | None \<Rightarrow> SYSTEM_FONT_STACK)"

interpretation font: persisted_setting FONT_KEY persistFont detectFont "\<lambda>i. True" "\<lambda>i. i"
proof
  fix i ls
  show "detectFont (persistFont i ls) = i"
    by (cases i) (simp_all add: detectFont_def persistFont_def FONT_PRESETS_def)
qed (simp_all add: persistFont_def detectFont_def)

section \<open>Font size\<close>

definition FONT_SIZE_MIN :: rat where "FONT_SIZE_MIN = 10"
definition FONT_SIZE_MAX :: rat where "FONT_SIZE_MAX = 24"
definition FONT_SIZE_DEFAULT :: rat where "FONT_SIZE_DEFAULT = 13"
definition SIZE_KEY :: string where "SIZE_KEY = ''th-font-size''"

definition clampFontSize :: "jsnum \<Rightarrow> jsnum" where
  "clampFontSize n = js_min (Num FONT_SIZE_MAX) (js_max (Num FONT_SIZE_MIN) n)"

text \<open>\<open>raw === null ? NaN : parseInt(raw, 10)\<close>.\<close>

definition stored_int :: "string \<Rightarrow> storage \<Rightarrow> jsnum" where
  "stored_int k ls = (case ls k of None \<Rightarrow> NaN | Some raw \<Rightarrow> parseInt10 raw)"

definition detectFontSize :: "storage \<Rightarrow> jsnum" where
  "detectFontSize ls =
     (let parsed = stored_int SIZE_KEY ls in
      if js_isFinite parsed then clampFontSize parsed else Num FONT_SIZE_DEFAULT)"

definition persistFontSize :: "jsnum \<Rightarrow> storage \<Rightarrow> storage" where
  "persistFontSize n ls = ls(SIZE_KEY \<mapsto> js_String (clampFontSize n))"

lemma clampFontSize_Num: "clampFontSize (Num r) = Num (min 24 (max 10 r))"
  by (simp add: clampFontSize_def FONT_SIZE_MIN_def FONT_SIZE_MAX_def)

lemma clampFontSize_range:
  "n \<noteq> NaN \<Longrightarrow> \<exists>r. clampFontSize n = Num r \<and> 10 \<le> r \<and> r \<le> 24"
  using js_clamp_range [of 10 24 n] by (simp add: clampFontSize_def FONT_SIZE_MIN_def FONT_SIZE_MAX_def)

interpretation size: persisted_setting SIZE_KEY persistFontSize detectFontSize "\<lambda>n. n \<noteq> NaN"
  "\<lambda>n. js_floor (clampFontSize n)"
proof
  fix n :: jsnum and ls :: storage
  assume "n \<noteq> NaN"
  then obtain r where r: "clampFontSize n = Num r" "10 \<le> r" "r \<le> 24" using clampFontSize_range by blast
  have "10 \<le> \<lfloor>r\<rfloor>" "\<lfloor>r\<rfloor> \<le> 24" using r(2,3) by (simp_all add: le_floor_iff floor_le_iff)
  then have "(10 :: rat) \<le> of_int \<lfloor>r\<rfloor>" "of_int \<lfloor>r\<rfloor> \<le> (24 :: rat)" by simp_all
  then show "detectFontSize (persistFontSize n ls) = js_floor (clampFontSize n)"
    using r parseInt10_js_String [of r]
    by (simp add: detectFontSize_def persistFontSize_def stored_int_def Let_def clampFontSize_Num)
qed (simp_all add: persistFontSize_def detectFontSize_def stored_int_def)

section \<open>The file panel\<close>

definition FILES_DEFAULT_W :: rat where "FILES_DEFAULT_W = 320"
definition FILES_MIN_W :: rat where "FILES_MIN_W = 220"
definition RESIZE_STEP :: rat where "RESIZE_STEP = 24"
definition FILES_KEY :: string where "FILES_KEY = ''th-files-w''"

definition clampFilesWidth :: "jsnum \<Rightarrow> jsnum" where
  "clampFilesWidth w = js_max (Num FILES_MIN_W) w"

definition storedFilesWidth :: "storage \<Rightarrow> jsnum" where
  "storedFilesWidth ls =
     (let parsed = stored_int FILES_KEY ls in
      if js_isFinite parsed then clampFilesWidth parsed else Num FILES_DEFAULT_W)"

definition persist_width :: "jsnum \<Rightarrow> storage \<Rightarrow> storage" where
  "persist_width w ls = ls(FILES_KEY \<mapsto> js_String w)"

interpretation width: persisted_setting FILES_KEY persist_width storedFilesWidth
  "\<lambda>w. \<exists>r. w = Num r \<and> FILES_MIN_W \<le> r" js_floor
proof
  fix w ls
  assume "\<exists>r. w = Num r \<and> FILES_MIN_W \<le> r"
  then obtain r where r: "w = Num r" "220 \<le> r" by (auto simp: FILES_MIN_W_def)
  have "220 \<le> \<lfloor>r\<rfloor>" using r(2) by (simp add: le_floor_iff)
  then have "(220 :: rat) \<le> of_int \<lfloor>r\<rfloor>" by simp
  then show "storedFilesWidth (persist_width w ls) = js_floor w"
    using r parseInt10_js_String [of r]
    by (simp add: storedFilesWidth_def persist_width_def stored_int_def Let_def clampFilesWidth_def FILES_MIN_W_def)
qed (simp_all add: persist_width_def storedFilesWidth_def stored_int_def)

section \<open>The settings of the running application\<close>

record settings_state =
  ss_store :: storage
  ss_lang :: Lang
  ss_font :: FontId
  ss_size :: jsnum
  filesWidth :: jsnum
  resizing :: bool
  drag :: "(rat \<times> jsnum) option"   \<comment> \<open>\<open>startX\<close>, \<open>startWidth\<close>\<close>

definition load_settings :: "string \<Rightarrow> storage \<Rightarrow> settings_state" where
  "load_settings nav ls =
     \<lparr>ss_store = ls, ss_lang = detectLang nav ls, ss_font = detectFont ls, ss_size = detectFontSize ls,
      filesWidth = storedFilesWidth ls, resizing = False, drag = None\<rparr>"

definition setLang :: "Lang \<Rightarrow> settings_state \<Rightarrow> settings_state" where
  "setLang l s = s\<lparr>ss_lang := l, ss_store := persistLang l (ss_store s)\<rparr>"

definition setFont :: "FontId \<Rightarrow> settings_state \<Rightarrow> settings_state" where
  "setFont f s = s\<lparr>ss_font := f, ss_store := persistFont f (ss_store s)\<rparr>"

definition setFontSize :: "jsnum \<Rightarrow> settings_state \<Rightarrow> settings_state" where
  "setFontSize n s = s\<lparr>ss_size := n, ss_store := persistFontSize n (ss_store s)\<rparr>"

text \<open>The controls of the settings menu: the select and the two buttons with their
  \<open>disabled\<close> conditions.\<close>

definition choose_font :: "string \<Rightarrow> settings_state \<Rightarrow> settings_state" where
  "choose_font v s =
     (case find (\<lambda>p. font_str (fp_id p) = v) FONT_PRESETS of Some p \<Rightarrow> setFont (fp_id p) s | None \<Rightarrow> s)"

definition size_down :: "settings_state \<Rightarrow> settings_state" where
  "size_down s =
     (if js_le (ss_size s) (Num FONT_SIZE_MIN) then s else setFontSize (js_sub (ss_size s) (Num 1)) s)"

definition size_up :: "settings_state \<Rightarrow> settings_state" where
  "size_up s =
     (if js_le (Num FONT_SIZE_MAX) (ss_size s) then s else setFontSize (js_add (ss_size s) (Num 1)) s)"

definition set_width :: "jsnum \<Rightarrow> settings_state \<Rightarrow> settings_state" where
  "set_width w s = s\<lparr>filesWidth := w, ss_store := persist_width w (ss_store s)\<rparr>"

definition onResizePointerDown :: "rat \<Rightarrow> settings_state \<Rightarrow> settings_state" where
  "onResizePointerDown x s = s\<lparr>drag := Some (x, filesWidth s), resizing := True\<rparr>"

definition drag_width :: "rat \<times> jsnum \<Rightarrow> rat \<Rightarrow> jsnum" where
  "drag_width d x = clampFilesWidth (js_add (snd d) (js_sub (Num (fst d)) (Num x)))"

definition onResizePointerMove :: "rat \<Rightarrow> settings_state \<Rightarrow> settings_state" where
  "onResizePointerMove x s =
     (case drag s of None \<Rightarrow> s | Some d \<Rightarrow> s\<lparr>filesWidth := drag_width d x\<rparr>)"

definition endResize :: "rat \<Rightarrow> settings_state \<Rightarrow> settings_state" where
  "endResize x s =
     (case drag s of None \<Rightarrow> s
      | Some d \<Rightarrow> set_width (drag_width d x) (s\<lparr>drag := None, resizing := False\<rparr>))"

definition resetFilesWidth :: "settings_state \<Rightarrow> settings_state" where
  "resetFilesWidth s = set_width (Num FILES_DEFAULT_W) s"

definition onResizeKeyDown :: "string \<Rightarrow> settings_state \<Rightarrow> settings_state" where
  "onResizeKeyDown k s =
     (if k = ''ArrowLeft'' then set_width (clampFilesWidth (js_add (filesWidth s) (Num RESIZE_STEP))) s
      else if k = ''ArrowRight'' then set_width (clampFilesWidth (js_add (filesWidth s) (Num (- RESIZE_STEP)))) s
      else if k = ''Home'' then resetFilesWidth s
      else s)"

datatype settings_event =
    ChooseLang Lang
  | ChooseFont string
  | SizeDown
  | SizeUp
  | DragStart rat
  | DragMove rat
  | DragEnd rat
  | KeyResize string
  | DoubleClick

fun settings_step :: "settings_state \<Rightarrow> settings_event \<Rightarrow> settings_state" where
  "settings_step s (ChooseLang l) = setLang l s"
| "settings_step s (ChooseFont v) = choose_font v s"
| "settings_step s SizeDown = size_down s"
| "settings_step s SizeUp = size_up s"
| "settings_step s (DragStart x) = onResizePointerDown x s"
| "settings_step s (DragMove x) = onResizePointerMove x s"
| "settings_step s (DragEnd x) = endResize x s"
| "settings_step s (KeyResize k) = onResizeKeyDown k s"
| "settings_step s DoubleClick = resetFilesWidth s"

lemma keys_distinct [simp]:
  "LANG_KEY \<noteq> FONT_KEY" "LANG_KEY \<noteq> SIZE_KEY" "LANG_KEY \<noteq> FILES_KEY" "FONT_KEY \<noteq> LANG_KEY"
  "FONT_KEY \<noteq> SIZE_KEY" "FONT_KEY \<noteq> FILES_KEY" "SIZE_KEY \<noteq> LANG_KEY" "SIZE_KEY \<noteq> FONT_KEY"
  "SIZE_KEY \<noteq> FILES_KEY" "FILES_KEY \<noteq> LANG_KEY" "FILES_KEY \<noteq> FONT_KEY" "FILES_KEY \<noteq> SIZE_KEY"
  by (simp_all add: LANG_KEY_def FONT_KEY_def SIZE_KEY_def FILES_KEY_def)

definition wide :: "jsnum \<Rightarrow> bool" where
  "wide w = (\<exists>r. w = Num r \<and> FILES_MIN_W \<le> r)"

definition whole_size :: "jsnum \<Rightarrow> bool" where
  "whole_size n = (\<exists>k :: int. n = Num (of_int k) \<and> 10 \<le> k \<and> k \<le> 24)"

definition settings_inv :: "string \<Rightarrow> settings_state \<Rightarrow> bool" where
  "settings_inv nav s =
     (ss_lang s = detectLang nav (ss_store s)
      \<and> ss_font s = detectFont (ss_store s)
      \<and> ss_size s = detectFontSize (ss_store s)
      \<and> whole_size (ss_size s)
      \<and> wide (filesWidth s)
      \<and> (case drag s of None \<Rightarrow> storedFilesWidth (ss_store s) = js_floor (filesWidth s) | Some d \<Rightarrow> wide (snd d))
      \<and> resizing s = (drag s \<noteq> None))"

lemma clamp_wide: "wide (clampFilesWidth (js_add (Num a) (Num b)))"
  by (auto simp: wide_def clampFilesWidth_def)

lemma drag_wide: "wide (snd d) \<Longrightarrow> wide (drag_width d x)"
  by (auto simp: wide_def drag_width_def clampFilesWidth_def)

lemma wide_step: "wide w \<Longrightarrow> wide (clampFilesWidth (js_add w (Num d)))"
  by (auto simp: wide_def clampFilesWidth_def)

lemma detected_int:
  fixes i :: int
  shows "clampFilesWidth (Num (of_int i)) = Num (of_int (max 220 i))"
    and "clampFontSize (Num (of_int i)) = Num (of_int (min 24 (max 10 i)))"
  by (simp_all add: clampFilesWidth_def FILES_MIN_W_def clampFontSize_Num of_int_max of_int_min)

lemma stored_int_cases: "stored_int k ls = NaN \<or> (\<exists>i :: int. stored_int k ls = Num (of_int i))"
  by (auto simp: stored_int_def parseInt10_def Let_def split: option.split prod.split)

lemma settings_inv_load: "settings_inv nav (load_settings nav ls)"
proof -
  have "whole_size (detectFontSize ls)"
    using stored_int_cases [of SIZE_KEY ls]
    by (auto simp: whole_size_def detectFontSize_def detected_int FONT_SIZE_DEFAULT_def intro: exI [of _ 13])
  moreover have "\<exists>i :: int. storedFilesWidth ls = Num (of_int i) \<and> 220 \<le> i"
    using stored_int_cases [of FILES_KEY ls]
    by (auto simp: storedFilesWidth_def detected_int FILES_DEFAULT_W_def intro: exI [of _ 320])
  ultimately show ?thesis
    by (auto simp: settings_inv_def load_settings_def wide_def FILES_MIN_W_def)
qed

lemma inv_set_width:
  assumes "settings_inv nav s" and "wide w"
  shows "settings_inv nav (set_width w s)"
proof -
  note frame = lang.detect_cong [of _ "ss_store s" nav] font.detect_cong [of _ "ss_store s"]
    size.detect_cong [of _ "ss_store s"]
  have "storedFilesWidth (persist_width w (ss_store s)) = js_floor w"
    using assms(2) by (intro width.detect_save) (simp add: wide_def)
  moreover have "detectLang nav (persist_width w (ss_store s)) = detectLang nav (ss_store s)"
      "detectFont (persist_width w (ss_store s)) = detectFont (ss_store s)"
      "detectFontSize (persist_width w (ss_store s)) = detectFontSize (ss_store s)"
    by (intro frame; simp add: width.save_other)+
  ultimately show ?thesis
    using assms by (auto simp: settings_inv_def set_width_def split: option.splits)
qed

lemma inv_setLang: "settings_inv nav s \<Longrightarrow> settings_inv nav (setLang l s)"
  using font.detect_cong [of "persistLang l (ss_store s)" "ss_store s"]
    size.detect_cong [of "persistLang l (ss_store s)" "ss_store s"]
    width.detect_cong [of "persistLang l (ss_store s)" "ss_store s"]
  by (auto simp: settings_inv_def setLang_def lang.detect_save lang.save_other split: option.splits)

lemma inv_setFont: "settings_inv nav s \<Longrightarrow> settings_inv nav (setFont f s)"
  using lang.detect_cong [of "persistFont f (ss_store s)" "ss_store s" nav]
    size.detect_cong [of "persistFont f (ss_store s)" "ss_store s"]
    width.detect_cong [of "persistFont f (ss_store s)" "ss_store s"]
  by (auto simp: settings_inv_def setFont_def font.detect_save font.save_other split: option.splits)

lemma inv_setFontSize:
  assumes "settings_inv nav s" and "n = Num (of_int k)" and "10 \<le> k" and "k \<le> 24"
  shows "settings_inv nav (setFontSize n s)"
proof -
  have "detectFontSize (persistFontSize n (ss_store s)) = n"
    using size.detect_save [of n "ss_store s"] assms(2-4) by (simp add: detected_int)
  moreover have "whole_size n" using assms(2-4) by (auto simp: whole_size_def)
  ultimately show ?thesis
    using lang.detect_cong [of "persistFontSize n (ss_store s)" "ss_store s" nav]
      font.detect_cong [of "persistFontSize n (ss_store s)" "ss_store s"]
      width.detect_cong [of "persistFontSize n (ss_store s)" "ss_store s"] assms
    by (auto simp: settings_inv_def setFontSize_def size.save_other split: option.splits)
qed

lemma settings_inv_step:
  assumes "settings_inv nav s"
  shows "settings_inv nav (settings_step s e)"
proof -
  obtain k :: int where k: "ss_size s = Num (of_int k)" "10 \<le> k" "k \<le> 24"
    using assms unfolding settings_inv_def whole_size_def by blast
  have w: "wide (filesWidth s)" using assms by (simp add: settings_inv_def)
  have dw: "settings_inv nav (set_width (Num FILES_DEFAULT_W) s)"
    by (rule inv_set_width [OF assms]) (simp add: wide_def FILES_DEFAULT_W_def FILES_MIN_W_def)
  show ?thesis
  proof (cases e)
    case (ChooseLang l)
    then show ?thesis by (simp add: inv_setLang assms)
  next
    case (ChooseFont v)
    then show ?thesis by (simp add: choose_font_def inv_setFont assms split: option.split)
  next
    case SizeDown
    then show ?thesis
      using k assms inv_setFontSize [OF assms, of "Num (of_int (k - 1))" "k - 1"]
      by (auto simp: size_down_def FONT_SIZE_MIN_def)
  next
    case SizeUp
    then show ?thesis
      using k assms inv_setFontSize [OF assms, of "Num (of_int (k + 1))" "k + 1"]
      by (auto simp: size_up_def FONT_SIZE_MAX_def)
  next
    case (DragStart x)
    with assms w show ?thesis
      by (auto simp: onResizePointerDown_def settings_inv_def)
  next
    case (DragMove x)
    with assms drag_wide show ?thesis
      by (auto simp: onResizePointerMove_def settings_inv_def split: option.splits)
  next
    case (DragEnd x)
    show ?thesis
    proof (cases "drag s")
      case (Some d)
      have wide: "wide (drag_width d x)" using assms Some by (auto simp: settings_inv_def intro: drag_wide)
      have "settings_inv nav ((set_width (drag_width d x) s)\<lparr>drag := None, resizing := False\<rparr>)"
        using inv_set_width [OF assms wide] width.detect_save [of "drag_width d x" "ss_store s"] wide
        by (auto simp: settings_inv_def set_width_def wide_def)
      moreover have "set_width v (s\<lparr>drag := None, resizing := False\<rparr>)
          = (set_width v s)\<lparr>drag := None, resizing := False\<rparr>" for v
        by (simp add: set_width_def)
      ultimately show ?thesis using DragEnd Some by (simp add: endResize_def)
    qed (use DragEnd assms in \<open>simp add: endResize_def\<close>)
  next
    case (KeyResize key)
    then show ?thesis
      using inv_set_width [OF assms wide_step [OF w, of RESIZE_STEP]]
        inv_set_width [OF assms wide_step [OF w, of "- RESIZE_STEP"]] dw assms
      by (simp add: onResizeKeyDown_def resetFilesWidth_def)
  next
    case DoubleClick
    then show ?thesis using dw by (simp add: resetFilesWidth_def)
  qed
qed

interpretation settings_run: machine_inv settings_step "\<lambda>s e. True" "settings_inv nav"
  by unfold_locales (rule settings_inv_step)

text \<open>
  Settings survive a reload: whatever the stored values were and whatever the user changed,
  reading storage again gives the current language, font and font size, and -- outside a drag
  -- the whole pixels of the current width of the file panel. No control overwrites another's
  value, the font size stays a whole number from 10 to 24, and the panel never gets narrower
  than 220 pixels.
\<close>

theorem settings_survive_reload:
  "let s = run settings_step (load_settings nav ls) es; s' = load_settings nav (ss_store s) in
     ss_lang s' = ss_lang s \<and> ss_font s' = ss_font s \<and> ss_size s' = ss_size s
     \<and> (\<exists>k :: int. ss_size s = Num (of_int k) \<and> k \<in> {10..24})
     \<and> (\<exists>w. filesWidth s = Num w \<and> 220 \<le> w
            \<and> (if drag s = None then filesWidth s' = Num (of_int \<lfloor>w\<rfloor>) else resizing s))"
proof -
  define s where "s = run settings_step (load_settings nav ls) es"
  have inv: "settings_inv nav s"
    unfolding s_def by (rule settings_run.run_inv) (simp_all add: settings_inv_load run_ok_trivial)
  obtain k :: int where k: "ss_size s = Num (of_int k)" "10 \<le> k" "k \<le> 24"
    using inv unfolding settings_inv_def whole_size_def by blast
  obtain w where w: "filesWidth s = Num w" "220 \<le> w"
    using inv unfolding settings_inv_def wide_def FILES_MIN_W_def by blast
  have eqs: "detectLang nav (ss_store s) = ss_lang s" "detectFont (ss_store s) = ss_font s"
      "detectFontSize (ss_store s) = ss_size s" "resizing s = (drag s \<noteq> None)"
      "drag s = None \<Longrightarrow> storedFilesWidth (ss_store s) = js_floor (filesWidth s)"
    using inv unfolding settings_inv_def by (auto split: option.splits)
  show ?thesis
    unfolding Let_def s_def [symmetric] using eqs k w by (auto simp: load_settings_def)
qed

lemma moves_keep_drag:
  "drag (run settings_step s (map DragMove xs)) = drag s
   \<and> ss_store (run settings_step s (map DragMove xs)) = ss_store s"
  by (induction xs arbitrary: s) (auto simp: onResizePointerMove_def split: option.split)

text \<open>
  A drag of the panel's edge follows the pointer from where it was grabbed: after any moves
  the release at \<open>x\<close> sets and stores the width at the start plus the distance to \<open>x\<close>, at
  least 220 -- moves in between and their order do not matter.
\<close>

theorem drag_follows_pointer:
  assumes "filesWidth s = Num w"
  shows "let s' = run settings_step s (DragStart x0 # map DragMove xs @ [DragEnd x]) in
     filesWidth s' = Num (max 220 (w + (x0 - x)))
     \<and> ss_store s' = (ss_store s)(FILES_KEY \<mapsto> js_String (Num (max 220 (w + (x0 - x)))))
     \<and> drag s' = None \<and> \<not> resizing s'"
  using moves_keep_drag [of "onResizePointerDown x0 s" xs] assms
  by (simp add: Let_def endResize_def onResizePointerDown_def drag_width_def clampFilesWidth_def
      FILES_MIN_W_def set_width_def persist_width_def)

theorem drag_follows_pointer_witness:
  "let s' = run settings_step (load_settings ''en'' Map.empty) (DragStart 900 # map DragMove [880, 950] @ [DragEnd 860]) in
     filesWidth s' = Num (max 220 (320 + (900 - 860)))
     \<and> ss_store s' = Map.empty(FILES_KEY \<mapsto> js_String (Num (max 220 (320 + (900 - 860)))))
     \<and> drag s' = None \<and> \<not> resizing s'"
  using drag_follows_pointer [of "load_settings ''en'' Map.empty" 320 900 "[880, 950]" 860]
  by (simp add: load_settings_def storedFilesWidth_def stored_int_def FILES_DEFAULT_W_def)

section \<open>Translation\<close>

text \<open>
  \<open>translate\<close>: the template of the key in the language's table, else in the English one, else
  the key itself; then every \<open>{name}\<close> whose name is in the variables is replaced. The two
  tables (\<^verbatim>\<open>locales/en.json\<close>, \<^verbatim>\<open>locales/ko.json\<close>) are an argument.
\<close>

datatype tr_value = VStr string | VNum jsnum

fun value_str :: "tr_value \<Rightarrow> string" where
  "value_str (VStr s) = s"
| "value_str (VNum n) = js_String n"

definition word_char :: "char \<Rightarrow> bool" where
  "word_char c = (let n = of_char c :: nat in
     (48 \<le> n \<and> n \<le> 57) \<or> (65 \<le> n \<and> n \<le> 90) \<or> (97 \<le> n \<and> n \<le> 122) \<or> n = 95)"

function fill_template :: "(string \<rightharpoonup> tr_value) \<Rightarrow> string \<Rightarrow> string" where
  "fill_template vars [] = []"
| "fill_template vars (c # cs) =
     (let name = takeWhile word_char cs; rest = dropWhile word_char cs in
      if c = CHR ''{'' \<and> name \<noteq> [] \<and> rest \<noteq> [] \<and> hd rest = CHR ''}'' then
        (case vars name of Some v \<Rightarrow> value_str v | None \<Rightarrow> CHR ''{'' # name @ ''}'')
          @ fill_template vars (tl rest)
      else c # fill_template vars cs)"
  by pat_completeness auto
termination
proof (relation "measure (\<lambda>(vars, s). length s)", goal_cases)
  case (2 vars c cs name rest)
  then have "length rest \<le> length cs" by (simp add: length_dropWhile_le)
  then show ?case by (auto intro: le_less_trans [OF diff_le_self])
qed auto

declare fill_template.simps(2) [simp del]
lemmas fill_step = fill_template.simps(2)

definition translate ::
  "(Lang \<Rightarrow> string \<rightharpoonup> string) \<Rightarrow> Lang \<Rightarrow> string \<Rightarrow> (string \<rightharpoonup> tr_value) option \<Rightarrow> string" where
  "translate tables l key vars =
     (let template = (case tables l key of Some s \<Rightarrow> s
                      | None \<Rightarrow> (case tables En key of Some s \<Rightarrow> s | None \<Rightarrow> key))
      in case vars of None \<Rightarrow> template | Some vs \<Rightarrow> fill_template vs template)"

text \<open>A template as its author reads it: text without braces, and placeholders.\<close>

datatype piece = Lit string | Hole string

fun piece_ok :: "piece \<Rightarrow> bool" where
  "piece_ok (Lit s) = (CHR ''{'' \<notin> set s)"
| "piece_ok (Hole n) = (n \<noteq> [] \<and> (\<forall>c \<in> set n. word_char c))"

fun piece_str :: "piece \<Rightarrow> string" where
  "piece_str (Lit s) = s"
| "piece_str (Hole n) = CHR ''{'' # n @ ''}''"

fun piece_value :: "(string \<rightharpoonup> tr_value) \<Rightarrow> piece \<Rightarrow> string" where
  "piece_value vars (Lit s) = s"
| "piece_value vars (Hole n) = (case vars n of Some v \<Rightarrow> value_str v | None \<Rightarrow> CHR ''{'' # n @ ''}'')"

lemma fill_lit: "CHR ''{'' \<notin> set s \<Longrightarrow> fill_template vars (s @ r) = s @ fill_template vars r"
  by (induction s) (auto simp: fill_step Let_def)

lemma fill_hole:
  assumes "n \<noteq> []" and "\<forall>c \<in> set n. word_char c"
  shows "fill_template vars (CHR ''{'' # n @ CHR ''}'' # r) = piece_value vars (Hole n) @ fill_template vars r"
proof -
  have "\<not> word_char CHR ''}''" by (simp add: word_char_def)
  then have "takeWhile word_char (n @ CHR ''}'' # r) = n" "dropWhile word_char (n @ CHR ''}'' # r) = CHR ''}'' # r"
    using assms(2) by (simp_all add: takeWhile_append_stop)
  with assms(1) show ?thesis by (simp add: fill_step Let_def del: takeWhile_append dropWhile_append)
qed

lemma fill_pieces:
  "\<forall>p \<in> set ps. piece_ok p \<Longrightarrow>
   fill_template vars (concat (map piece_str ps)) = concat (map (piece_value vars) ps)"
proof (induction ps)
  case (Cons p ps)
  then show ?case by (cases p) (auto simp: fill_lit fill_hole)
qed simp

text \<open>
  Placeholders are filled simultaneously and once: in a template made of brace-free text and
  \<open>{name}\<close> placeholders every placeholder is replaced by its variable's value, unknown names
  stay as written, the text stays as it is, and braces inside a value (a workspace called
  \<open>{name}\<close>) are not expanded again. A key missing in a language falls back to English.
\<close>

theorem translate_pieces:
  assumes "\<forall>p \<in> set ps. piece_ok p"
    and "tables l key = Some (concat (map piece_str ps))
         \<or> (tables l key = None \<and> tables En key = Some (concat (map piece_str ps)))"
  shows "translate tables l key (Some vars) = concat (map (piece_value vars) ps)"
  using assms fill_pieces [OF assms(1), of vars] by (auto simp: translate_def Let_def)

theorem translate_pieces_witness:
  "translate (\<lambda>l. if l = En then [''del'' \<mapsto> ''Delete {name}?''] else Map.empty) Ko ''del''
     (Some [''name'' \<mapsto> VStr ''{name}'']) = ''Delete {name}?''"
  using translate_pieces [of "[Lit ''Delete '', Hole ''name'', Lit ''?'']"
      "\<lambda>l. if l = En then [''del'' \<mapsto> ''Delete {name}?''] else Map.empty" Ko "''del''"
      "[''name'' \<mapsto> VStr ''{name}'']"]
  by (simp add: word_char_def)

end
