(* ===== verification/PaneTree.thy ===== *)
theory PaneTree
  imports JsBase "HOL-Library.Sublist"
begin

text \<open>
  The pane tree of \<^verbatim>\<open>features/split/paneTree.ts\<close>: a binary tree of splits whose leaves show
  a terminal session or nothing. One definition per exported function, in the source's
  order. The observers \<open>leaves\<close>, \<open>split_nodes\<close> and \<open>node_ids\<close> (the latter as in
  \<^verbatim>\<open>paneTree.test.ts\<close>) read a tree from left to right; the lemmas say what every operation
  does to them, so a client never looks at the shape of the tree.

  The source compares a rebuilt child with the old one by reference, to return the old
  object when nothing changed. Here that is equality of the values. For \<open>removeNode\<close> the
  comparison decides the result; \<open>removeNode_shrinks\<close> shows that a child in which the node was
  found comes back strictly smaller, so it is never equal to the old one.
\<close>

section \<open>Data\<close>

datatype SplitDir = DirH | DirV

datatype PaneNode =
    Leaf (node_id: string) "string option"
  | Split (node_id: string) SplitDir jsnum PaneNode PaneNode

definition DEFAULT_RATIO :: jsnum where
  "DEFAULT_RATIO = Num (1 / 2)"

definition RATIO_MIN :: jsnum where
  "RATIO_MIN = Num (1 / 10)"

definition RATIO_MAX :: jsnum where
  "RATIO_MAX = Num (9 / 10)"

text \<open>
  Pane identifiers. What the platform answers when an identifier is drawn is an oracle of
  the world: \<open>crypto.randomUUID\<close> exists and returns a UUID, or it does not exist and the
  code reads the clock and \<open>Math.random\<close>. \<open>fallbackPaneId\<close> is the module's counter.
\<close>

datatype id_entropy =
    RandomUUID string
  | NoRandomUUID nat string  \<comment> \<open>\<open>Date.now()\<close>, \<open>Math.random().toString(36).slice(2)\<close>\<close>

record id_world =
  fallbackPaneId :: nat
  calls :: nat
  entropy :: "nat \<Rightarrow> id_entropy"

definition newPaneId :: "id_world \<Rightarrow> string \<times> id_world" where
  "newPaneId w =
     (let w' = w\<lparr>calls := Suc (calls w)\<rparr> in
      case entropy w (calls w) of
        RandomUUID u \<Rightarrow> (''pane-'' @ u, w')
      | NoRandomUUID now rnd \<Rightarrow>
          (let n = fallbackPaneId w + 1 in
           (''pane-'' @ nat_str 36 now @ ''-'' @ nat_str 10 n @ ''-'' @ rnd,
            w'\<lparr>fallbackPaneId := n\<rparr>)))"

definition leaf :: "string option \<Rightarrow> id_world \<Rightarrow> PaneNode \<times> id_world" where
  "leaf sess w = (case newPaneId w of (i, w') \<Rightarrow> (Leaf i sess, w'))"

section \<open>Operations\<close>

fun placed_walk :: "PaneNode \<Rightarrow> string set \<Rightarrow> string set" where
  "placed_walk (Leaf i sess) out = (case sess of None \<Rightarrow> out | Some s \<Rightarrow> insert s out)"
| "placed_walk (Split i d r f s) out = placed_walk s (placed_walk f out)"

definition placedSessionIds :: "PaneNode \<Rightarrow> string set" where
  "placedSessionIds node = placed_walk node {}"

fun findLeaf :: "PaneNode \<Rightarrow> string \<Rightarrow> PaneNode option" where
  "findLeaf (Leaf j sess) i = (if j = i then Some (Leaf j sess) else None)"
| "findLeaf (Split j d r f s) i =
     (case findLeaf f i of Some n \<Rightarrow> Some n | None \<Rightarrow> findLeaf s i)"

fun replaceNode :: "PaneNode \<Rightarrow> string \<Rightarrow> PaneNode \<Rightarrow> PaneNode" where
  "replaceNode (Leaf j sess) i nxt = (if j = i then nxt else Leaf j sess)"
| "replaceNode (Split j d r f s) i nxt =
     (if j = i then nxt
      else let f' = replaceNode f i nxt; s' = replaceNode s i nxt in
        if f' = f \<and> s' = s then Split j d r f s else Split j d r f' s')"

fun removeNode :: "PaneNode \<Rightarrow> string \<Rightarrow> PaneNode option" where
  "removeNode (Leaf j sess) i = (if j = i then None else Some (Leaf j sess))"
| "removeNode (Split j d r f s) i =
     (if j = i then None
      else if node_id f = i then Some s
      else if node_id s = i then Some f
      else let f' = removeNode f i in
        if f' \<noteq> Some f then
          (case f' of None \<Rightarrow> Some s | Some f'' \<Rightarrow> Some (Split j d r f'' s))
        else let s' = removeNode s i in
          if s' \<noteq> Some s then
            (case s' of None \<Rightarrow> Some f | Some s'' \<Rightarrow> Some (Split j d r f s''))
          else Some (Split j d r f s))"

definition setLeafSession :: "PaneNode \<Rightarrow> string \<Rightarrow> string option \<Rightarrow> PaneNode" where
  "setLeafSession rt leafId sess =
     (case findLeaf rt leafId of
        Some (Leaf i old) \<Rightarrow> replaceNode rt leafId (Leaf i sess)
      | _ \<Rightarrow> rt)"

definition splitLeaf ::
  "PaneNode \<Rightarrow> string \<Rightarrow> SplitDir \<Rightarrow> id_world \<Rightarrow> PaneNode \<times> id_world" where
  "splitLeaf rt leafId d w =
     (case findLeaf rt leafId of
        Some (Leaf i old) \<Rightarrow>
          (case newPaneId w of (sid, w1) \<Rightarrow>
           case leaf None w1 of (nl, w2) \<Rightarrow>
             (replaceNode rt leafId (Split sid d DEFAULT_RATIO (Leaf i old) nl), w2))
      | _ \<Rightarrow> (rt, w))"

definition clamp_ratio :: "jsnum \<Rightarrow> jsnum" where
  "clamp_ratio x = js_min RATIO_MAX (js_max RATIO_MIN x)"

fun setRatio_walk :: "string \<Rightarrow> jsnum \<Rightarrow> PaneNode \<Rightarrow> PaneNode" where
  "setRatio_walk splitId clamped (Leaf j sess) = Leaf j sess"
| "setRatio_walk splitId clamped (Split j d r f s) =
     (if j = splitId then Split j d clamped f s
      else let f' = setRatio_walk splitId clamped f; s' = setRatio_walk splitId clamped s in
        if f' = f \<and> s' = s then Split j d r f s else Split j d r f' s')"

definition setRatio :: "PaneNode \<Rightarrow> string \<Rightarrow> jsnum \<Rightarrow> PaneNode" where
  "setRatio rt splitId x = setRatio_walk splitId (clamp_ratio x) rt"

fun removeSession :: "PaneNode \<Rightarrow> string \<Rightarrow> PaneNode" where
  "removeSession (Leaf j sess) t = (if sess = Some t then Leaf j None else Leaf j sess)"
| "removeSession (Split j d r f s) t =
     (let f' = removeSession f t; s' = removeSession s t in
      if f' = f \<and> s' = s then Split j d r f s else Split j d r f' s')"

fun firstLeafId :: "PaneNode \<Rightarrow> string" where
  "firstLeafId (Leaf i sess) = i"
| "firstLeafId (Split i d r f s) = firstLeafId f"

section \<open>Observers and well-formedness\<close>

fun leaves :: "PaneNode \<Rightarrow> (string \<times> string option) list" where
  "leaves (Leaf i sess) = [(i, sess)]"
| "leaves (Split i d r f s) = leaves f @ leaves s"

fun split_nodes :: "PaneNode \<Rightarrow> (string \<times> SplitDir \<times> jsnum) list" where
  "split_nodes (Leaf i sess) = []"
| "split_nodes (Split i d r f s) = (i, d, r) # split_nodes f @ split_nodes s"

fun node_ids :: "PaneNode \<Rightarrow> string list" where
  "node_ids (Leaf i sess) = [i]"
| "node_ids (Split i d r f s) = i # node_ids f @ node_ids s"

abbreviation leaf_ids :: "PaneNode \<Rightarrow> string list" where
  "leaf_ids t \<equiv> map fst (leaves t)"

abbreviation split_ids :: "PaneNode \<Rightarrow> string list" where
  "split_ids t \<equiv> map fst (split_nodes t)"

definition tree_wf :: "PaneNode \<Rightarrow> bool" where
  "tree_wf t = distinct (node_ids t)"

text \<open>The abstract effect of an operation on the row of panes.\<close>

definition put_session :: "string \<Rightarrow> string option \<Rightarrow> string \<times> string option \<Rightarrow> string \<times> string option" where
  "put_session i sess p = (if fst p = i then (i, sess) else p)"

definition drop_session :: "string \<Rightarrow> string \<times> string option \<Rightarrow> string \<times> string option" where
  "drop_session t p = (if snd p = Some t then (fst p, None) else p)"

definition expand :: "string \<Rightarrow> 'a list \<Rightarrow> ('a \<Rightarrow> string) \<Rightarrow> 'a list \<Rightarrow> 'a list" where
  "expand i ys key ps = concat (map (\<lambda>p. if key p = i then ys else [p]) ps)"

definition placed_list :: "(string \<times> string option) list \<Rightarrow> string list" where
  "placed_list ps = List.map_filter snd ps"

lemma expand_simps [simp]:
  "expand i ys key [] = []"
  "expand i ys key (p # ps) = (if key p = i then ys else [p]) @ expand i ys key ps"
  "expand i ys key (ps @ qs) = expand i ys key ps @ expand i ys key qs"
  by (simp_all add: expand_def)

lemma expand_absent: "i \<notin> key ` set ps \<Longrightarrow> expand i ys key ps = ps"
  by (induction ps) auto

lemma placed_list_simps [simp]:
  "placed_list [] = []"
  "placed_list (p # ps) = (case snd p of None \<Rightarrow> placed_list ps | Some s \<Rightarrow> s # placed_list ps)"
  "placed_list (ps @ qs) = placed_list ps @ placed_list qs"
  by (simp_all add: placed_list_def map_filter_def split: option.splits)

lemma set_placed_list: "set (placed_list ps) = {s. \<exists>i. (i, Some s) \<in> set ps}"
  by (induction ps) (auto split: option.splits)

lemma leaves_nonempty [simp]: "leaves t \<noteq> []"
  by (induction t) auto

lemma set_node_ids: "set (node_ids t) = set (leaf_ids t) \<union> set (split_ids t)"
  by (induction t) auto

lemma node_id_in [simp]: "node_id t \<in> set (node_ids t)"
  by (cases t) auto

lemma wf_disjoint: "tree_wf t \<Longrightarrow> set (leaf_ids t) \<inter> set (split_ids t) = {}"
  unfolding tree_wf_def by (induction t) (auto simp: set_node_ids)

lemma wf_leaf_ids: "tree_wf t \<Longrightarrow> distinct (leaf_ids t)"
  unfolding tree_wf_def by (induction t) (auto simp: set_node_ids)

lemma wf_split_ids: "tree_wf t \<Longrightarrow> distinct (split_ids t)"
  unfolding tree_wf_def by (induction t) (auto simp: set_node_ids)

lemma wf_Split [simp]:
  "tree_wf (Split i d r f s) =
     (i \<notin> set (node_ids f) \<and> i \<notin> set (node_ids s) \<and> tree_wf f \<and> tree_wf s
      \<and> set (node_ids f) \<inter> set (node_ids s) = {})"
  by (auto simp: tree_wf_def)

lemma wf_Leaf [simp]: "tree_wf (Leaf i sess)"
  by (simp add: tree_wf_def)

section \<open>Lookups\<close>

lemma placed_walk_eq: "placed_walk t out = out \<union> set (placed_list (leaves t))"
  by (induction t arbitrary: out) (auto split: option.splits)

lemma placedSessionIds_eq: "placedSessionIds t = set (placed_list (leaves t))"
  by (simp add: placedSessionIds_def placed_walk_eq)

lemma findLeaf_Some: "findLeaf t i = Some n \<Longrightarrow> \<exists>sess. n = Leaf i sess \<and> (i, sess) \<in> set (leaves t)"
  by (induction t) (auto split: if_splits option.splits)

lemma findLeaf_None: "findLeaf t i = None \<longleftrightarrow> i \<notin> set (leaf_ids t)"
  by (induction t) (auto split: option.splits)

lemma findLeaf_obtain:
  assumes "i \<in> set (leaf_ids t)"
  obtains sess where "findLeaf t i = Some (Leaf i sess)" and "(i, sess) \<in> set (leaves t)"
  using assms findLeaf_None [of t i] findLeaf_Some [of t i] by fastforce

lemma findLeaf_eq:
  assumes "tree_wf t"
  shows "findLeaf t i = map_option (Leaf i) (map_of (leaves t) i)"
proof (cases "i \<in> set (leaf_ids t)")
  case True
  then obtain sess where "findLeaf t i = Some (Leaf i sess)" and "(i, sess) \<in> set (leaves t)"
    by (rule findLeaf_obtain)
  with wf_leaf_ids [OF assms] show ?thesis by simp
next
  case False
  then have "findLeaf t i = None" and "map_of (leaves t) i = None"
    by (simp_all add: findLeaf_None map_of_eq_None_iff)
  then show ?thesis by simp
qed

lemma firstLeafId_eq: "firstLeafId t = fst (hd (leaves t))"
  by (induction t) auto

lemma firstLeafId_in [simp]: "firstLeafId t \<in> fst ` set (leaves t)"
  by (induction t) auto

section \<open>Replacing a node\<close>

lemma replaceNode_Split [simp]:
  "replaceNode (Split j d r f s) i nxt =
     (if j = i then nxt else Split j d r (replaceNode f i nxt) (replaceNode s i nxt))"
  by (simp add: Let_def)

declare replaceNode.simps(2) [simp del]

lemma replaceNode_absent [simp]: "i \<notin> set (node_ids t) \<Longrightarrow> replaceNode t i nxt = t"
  by (induction t) auto

lemma leaves_replaceNode:
  "i \<notin> set (split_ids t) \<Longrightarrow> leaves (replaceNode t i nxt) = expand i (leaves nxt) fst (leaves t)"
  by (induction t) auto

lemma splits_replaceNode_leaf:
  "i \<notin> set (split_ids t) \<Longrightarrow> split_nodes (replaceNode t i (Leaf i sess)) = split_nodes t"
  by (induction t) auto

lemma node_ids_replaceNode:
  "i \<notin> set (split_ids t) \<Longrightarrow>
     node_ids (replaceNode t i nxt) = expand i (node_ids nxt) (\<lambda>j. j) (node_ids t)"
  by (induction t) auto

lemma set_expand_ids:
  "set (expand i ys (\<lambda>j. j) js) = (if i \<in> set js then set ys else {}) \<union> (set js - {i})"
  by (induction js) auto

lemma distinct_expand:
  "distinct js \<Longrightarrow> distinct ys \<Longrightarrow> set ys \<inter> (set js - {i}) = {}
     \<Longrightarrow> distinct (expand i ys (\<lambda>j. j) js)"
  by (induction js) (auto simp: set_expand_ids expand_absent)

section \<open>Assigning and clearing sessions\<close>

lemma put_session_absent: "i \<notin> set (map fst ps) \<Longrightarrow> map (put_session i sess) ps = ps"
  by (induction ps) (auto simp: put_session_def)

lemma expand_put: "distinct (map fst ps) \<Longrightarrow> i \<in> set (map fst ps) \<Longrightarrow>
  expand i [(i, sess)] fst ps = map (put_session i sess) ps"
proof (induction ps)
  case (Cons p ps)
  then show ?case
    by (cases "fst p = i") (simp_all add: expand_absent put_session_absent, simp_all add: put_session_def)
qed simp

lemma expand_same_id: "expand i [i] (\<lambda>j. j) js = js"
  by (induction js) auto

lemma findLeaf_wf_cases:
  assumes "tree_wf t"
  obtains "findLeaf t i = None" "i \<notin> set (leaf_ids t)"
  | old where "findLeaf t i = Some (Leaf i old)" "i \<in> set (leaf_ids t)" "i \<notin> set (split_ids t)"
proof (cases "i \<in> set (leaf_ids t)")
  case True
  then obtain old where "findLeaf t i = Some (Leaf i old)" by (rule findLeaf_obtain)
  moreover have "i \<notin> set (split_ids t)" using True wf_disjoint [OF assms] by blast
  ultimately show ?thesis using True that(2) by blast
next
  case False
  then have "findLeaf t i = None" by (simp add: findLeaf_None)
  with False show ?thesis using that(1) by blast
qed

lemma leaves_setLeafSession [leaf_simps]:
  assumes "tree_wf t"
  shows "leaves (setLeafSession t i sess) = map (put_session i sess) (leaves t)"
  by (rule findLeaf_wf_cases [OF assms, of i])
    (simp_all add: setLeafSession_def leaves_replaceNode expand_put put_session_absent
      wf_leaf_ids [OF assms])

lemma ids_setLeafSession [id_simps]:
  assumes "tree_wf t"
  shows "node_ids (setLeafSession t i sess) = node_ids t"
    and "split_nodes (setLeafSession t i sess) = split_nodes t"
  by (rule findLeaf_wf_cases [OF assms, of i];
      simp add: setLeafSession_def node_ids_replaceNode splits_replaceNode_leaf expand_same_id)+

lemma removeSession_Split [simp]:
  "removeSession (Split j d r f s) t = Split j d r (removeSession f t) (removeSession s t)"
  by (simp add: Let_def)

declare removeSession.simps(2) [simp del]

lemma leaves_removeSession [leaf_simps]:
  "leaves (removeSession t s) = map (drop_session s) (leaves t)"
  by (induction t) (auto simp: drop_session_def)

lemma ids_removeSession [id_simps]:
  "node_ids (removeSession t s) = node_ids t"
  "split_nodes (removeSession t s) = split_nodes t"
  by (induction t) auto

lemma wf_setLeafSession [intro]: "tree_wf t \<Longrightarrow> tree_wf (setLeafSession t i sess)"
  by (simp add: tree_wf_def ids_setLeafSession(1) [unfolded tree_wf_def])

lemma wf_removeSession [intro]: "tree_wf t \<Longrightarrow> tree_wf (removeSession t s)"
  by (simp add: tree_wf_def id_simps)

section \<open>The ratio of a split\<close>

lemma setRatio_walk_Split [simp]:
  "setRatio_walk k c (Split j d r f s) =
     (if j = k then Split j d c f s else Split j d r (setRatio_walk k c f) (setRatio_walk k c s))"
  by (simp add: Let_def)

declare setRatio_walk.simps(2) [simp del]

lemma setRatio_walk_absent: "k \<notin> set (split_ids t) \<Longrightarrow> setRatio_walk k c t = t"
  by (induction t) auto

lemma leaves_setRatio [leaf_simps]: "leaves (setRatio t k x) = leaves t"
proof -
  have "leaves (setRatio_walk k c t) = leaves t" for c by (induction t) auto
  then show ?thesis by (simp add: setRatio_def)
qed

lemma ids_setRatio [id_simps]: "node_ids (setRatio t k x) = node_ids t"
proof -
  have "node_ids (setRatio_walk k c t) = node_ids t" for c by (induction t) auto
  then show ?thesis by (simp add: setRatio_def)
qed

lemma wf_setRatio [intro]: "tree_wf t \<Longrightarrow> tree_wf (setRatio t k x)"
  by (simp add: tree_wf_def id_simps)

lemma splits_setRatio:
  assumes "tree_wf t"
  shows "split_nodes (setRatio t k x) =
     map (\<lambda>(j, d, r). (j, d, if j = k then clamp_ratio x else r)) (split_nodes t)"
proof -
  have "split_nodes (setRatio_walk k c t) =
      map (\<lambda>(j, d, r). (j, d, if j = k then c else r)) (split_nodes t)" for c
    using assms
  proof (induction t)
    case (Split j d r f s)
    have keep: "map (\<lambda>(j, d, r). (j, d, if j = k then c else r)) (split_nodes u) = split_nodes u"
      if "k \<notin> set (split_ids u)" for u
      using that by (force intro: map_idI)
    show ?case
    proof (cases "j = k")
      case True
      with Split.prems have "k \<notin> set (split_ids f)" "k \<notin> set (split_ids s)"
        by (auto simp: set_node_ids)
      with True keep show ?thesis by simp
    next
      case False
      with Split show ?thesis by simp
    qed
  qed simp
  then show ?thesis by (simp add: setRatio_def)
qed

lemma clamp_ratio_NaN: "clamp_ratio NaN = NaN"
  by (simp add: clamp_ratio_def)

lemma clamp_ratio_range: "x \<noteq> NaN \<Longrightarrow> \<exists>r. clamp_ratio x = Num r \<and> 1/10 \<le> r \<and> r \<le> 9/10"
  unfolding clamp_ratio_def RATIO_MIN_def RATIO_MAX_def by (rule js_clamp_range) simp_all

section \<open>Removing a node\<close>

lemma removeNode_absent [simp]: "i \<notin> set (node_ids t) \<Longrightarrow> removeNode t i = Some t"
proof (induction t)
  case (Split j d r f s)
  have "node_id f \<noteq> i" "node_id s \<noteq> i"
    using Split.prems node_id_in [of f] node_id_in [of s] by auto
  with Split show ?case by auto
qed simp

lemma removeNode_None: "removeNode t i = None \<longleftrightarrow> node_id t = i"
proof (induction t)
  case (Split j d r f s)
  then show ?case by (auto simp: Let_def split: option.splits)
qed simp

lemma removeNode_shrinks:
  "i \<in> set (node_ids t) \<Longrightarrow> removeNode t i = Some t' \<Longrightarrow> size t' < size t"
proof (induction t arbitrary: t')
  case (Split j d r f s)
  show ?case
  proof (cases "i \<in> set (node_ids f)")
    case True
    have "size f'' < size f" if "removeNode f i = Some f''" for f''
      using Split.IH(1) [OF True that] .
    with True Split.prems show ?thesis
      by (auto simp: Let_def split: if_splits option.splits)
  next
    case False
    then have f: "removeNode f i = Some f" "node_id f \<noteq> i" using node_id_in [of f] by auto
    have "size s'' < size s" if "removeNode s i = Some s''" "i \<in> set (node_ids s)" for s''
      using Split.IH(2) [OF that(2,1)] .
    with f False Split.prems show ?thesis
      by (auto simp: Let_def split: if_splits option.splits)
  qed
qed simp

text \<open>The reference test of the source decides exactly whether the node was found.\<close>

lemma removeNode_same_iff: "removeNode t i = Some t \<longleftrightarrow> i \<notin> set (node_ids t)"
  using removeNode_shrinks [of i t t] by auto

lemma removeNode_Split:
  "removeNode (Split j d r f s) i =
     (if j = i then None
      else if node_id f = i then Some s
      else if node_id s = i then Some f
      else if i \<in> set (node_ids f) then map_option (\<lambda>f'. Split j d r f' s) (removeNode f i)
      else map_option (\<lambda>s'. Split j d r f s') (removeNode s i))"
proof -
  have "removeNode f i \<noteq> None" if "node_id f \<noteq> i" using that by (simp add: removeNode_None)
  moreover have "removeNode s i \<noteq> None" if "node_id s \<noteq> i" using that by (simp add: removeNode_None)
  ultimately show ?thesis
    using removeNode_same_iff [of f i] removeNode_same_iff [of s i]
    by (auto simp: Let_def split: option.splits)
qed

declare removeNode.simps(2) [simp del]

definition leaves_opt :: "PaneNode option \<Rightarrow> (string \<times> string option) list" where
  "leaves_opt t = (case t of None \<Rightarrow> [] | Some u \<Rightarrow> leaves u)"

lemma leaves_opt_simps [simp]: "leaves_opt None = []" "leaves_opt (Some u) = leaves u"
  by (simp_all add: leaves_opt_def)

lemma filter_fst_absent: "i \<notin> set (map fst ps) \<Longrightarrow> filter (\<lambda>p. fst p \<noteq> i) ps = ps"
  by (induction ps) auto

lemma leaves_removeNode [leaf_simps]:
  assumes "tree_wf t" and "i \<notin> set (split_ids t)"
  shows "leaves_opt (removeNode t i) = filter (\<lambda>p. fst p \<noteq> i) (leaves t)"
  using assms
proof (induction t)
  case (Split j d r f s)
  have abs: "i \<notin> set (leaf_ids u) \<Longrightarrow> filter (\<lambda>p. fst p \<noteq> i) (leaves u) = leaves u" for u
    by (rule filter_fst_absent)
  have wf: "tree_wf f" "tree_wf s" "i \<notin> set (split_ids f)" "i \<notin> set (split_ids s)" "j \<noteq> i"
    and disj: "set (node_ids f) \<inter> set (node_ids s) = {}"
    using Split.prems by auto
  have IH: "leaves_opt (removeNode f i) = filter (\<lambda>p. fst p \<noteq> i) (leaves f)"
    "leaves_opt (removeNode s i) = filter (\<lambda>p. fst p \<noteq> i) (leaves s)"
    using Split.IH wf by auto
  have top: "filter (\<lambda>p. fst p \<noteq> i) (leaves u) = []" if "node_id u = i" "i \<notin> set (split_ids u)" for u
    using that by (cases u) auto
  consider "node_id f = i" | "node_id f \<noteq> i" "node_id s = i"
    | "node_id f \<noteq> i" "node_id s \<noteq> i" "i \<in> set (node_ids f)"
    | "node_id f \<noteq> i" "node_id s \<noteq> i" "i \<notin> set (node_ids f)"
    by blast
  then show ?case
  proof cases
    case 1
    then have "i \<notin> set (leaf_ids s)"
      using disj node_id_in [of f] by (auto simp: set_node_ids)
    with 1 wf top [of f] abs [of s] show ?thesis by (simp add: removeNode_Split)
  next
    case 2
    then have "i \<notin> set (leaf_ids f)"
      using disj node_id_in [of s] by (auto simp: set_node_ids)
    with 2 wf top [of s] abs [of f] show ?thesis by (simp add: removeNode_Split)
  next
    case 3
    then obtain f' where f': "removeNode f i = Some f'"
      using removeNode_None [of f i] by (cases "removeNode f i") auto
    from 3 have "i \<notin> set (leaf_ids s)" using disj by (auto simp: set_node_ids)
    with 3 wf f' IH(1) abs [of s] show ?thesis by (simp add: removeNode_Split)
  next
    case 4
    then obtain s' where s': "removeNode s i = Some s'"
      using removeNode_None [of s i] by (cases "removeNode s i") auto
    from 4 have "i \<notin> set (leaf_ids f)" by (auto simp: set_node_ids)
    with 4 wf s' IH(2) abs [of f] show ?thesis by (simp add: removeNode_Split)
  qed
qed simp

lemma subseq_set: "subseq xs ys \<Longrightarrow> x \<in> set xs \<Longrightarrow> x \<in> set ys"
  by (induction rule: list_emb.induct) auto

lemma subseq_distinct: "subseq xs ys \<Longrightarrow> distinct ys \<Longrightarrow> distinct xs"
  by (induction rule: list_emb.induct) (auto dest: subseq_set)

lemma removeNode_subseq:
  "removeNode t i = Some t' \<Longrightarrow>
     subseq (node_ids t') (node_ids t) \<and> subseq (split_nodes t') (split_nodes t)
     \<and> subseq (leaves t') (leaves t)"
proof (induction t arbitrary: t')
  case (Split j d r f s)
  show ?case
    using Split.prems Split.IH
    by (auto simp: removeNode_Split list_emb_append_mono intro: subseq_drop_many subseq_order.order_trans
        split: if_splits)
qed (auto split: if_splits)

section \<open>Fresh identifiers and splitting a leaf\<close>

text \<open>The identifier the \<open>n\<close>-th draw from now returns, and a world whose future
  identifiers are pairwise distinct and outside a set.\<close>

definition world_id :: "id_world \<Rightarrow> nat \<Rightarrow> string" where
  "world_id w n = fst (newPaneId (((\<lambda>v. snd (newPaneId v)) ^^ n) w))"

definition ids_fresh :: "id_world \<Rightarrow> string set \<Rightarrow> bool" where
  "ids_fresh w S = (inj (world_id w) \<and> (\<forall>n. world_id w n \<notin> S))"

lemma world_id_0: "world_id w 0 = fst (newPaneId w)"
  by (simp add: world_id_def)

lemma world_id_Suc: "world_id (snd (newPaneId w)) n = world_id w (Suc n)"
  by (simp add: world_id_def funpow_Suc_right del: funpow.simps(2))

lemma ids_fresh_mono: "ids_fresh w S \<Longrightarrow> T \<subseteq> S \<Longrightarrow> ids_fresh w T"
  by (auto simp: ids_fresh_def)

lemma ids_fresh_next:
  assumes "ids_fresh w S" and "newPaneId w = (i, w')"
  shows "i \<notin> S" and "ids_fresh w' (insert i S)"
proof -
  have inj: "inj (world_id w)" and out: "\<And>n. world_id w n \<notin> S"
    using assms(1) by (auto simp: ids_fresh_def)
  have i: "i = world_id w 0" and w': "\<And>n. world_id w' n = world_id w (Suc n)"
    using assms(2) world_id_0 [of w] world_id_Suc [of w] by auto
  show "i \<notin> S" using i out by simp
  have "inj (world_id w')"
  proof (rule injI)
    fix m n assume "world_id w' m = world_id w' n"
    then have "world_id w (Suc m) = world_id w (Suc n)" by (simp add: w')
    then show "m = n" using inj by (auto dest: injD)
  qed
  moreover have "world_id w' n \<noteq> i" for n
    using inj w' i by (auto dest: injD)
  ultimately show "ids_fresh w' (insert i S)"
    using out w' by (auto simp: ids_fresh_def)
qed

lemma newPaneId_fallback:
  assumes "entropy w (calls w) = NoRandomUUID now rnd"
  shows "fst (newPaneId w) =
      ''pane-'' @ nat_str 36 now @ ''-'' @ nat_str 10 (fallbackPaneId w + 1) @ ''-'' @ rnd"
    and "fallbackPaneId (snd (newPaneId w)) = fallbackPaneId w + 1"
  using assms by (simp_all add: newPaneId_def Let_def)

lemma newPaneId_calls [simp]:
  "calls (snd (newPaneId w)) = Suc (calls w)" "entropy (snd (newPaneId w)) = entropy w"
  by (simp_all add: newPaneId_def Let_def split: id_entropy.split)

lemma world_after:
  assumes "\<And>n. \<exists>now rnd. entropy w n = NoRandomUUID now rnd"
  shows "fallbackPaneId (((\<lambda>v. snd (newPaneId v)) ^^ n) w) = fallbackPaneId w + n
    \<and> entropy (((\<lambda>v. snd (newPaneId v)) ^^ n) w) = entropy w"
proof (induction n)
  case (Suc n)
  let ?v = "((\<lambda>v. snd (newPaneId v)) ^^ n) w"
  obtain now rnd where "entropy ?v (calls ?v) = NoRandomUUID now rnd"
    using Suc assms by metis
  with Suc show ?case by (simp add: newPaneId_fallback(2))
qed simp

lemma world_id_fallback:
  assumes "\<And>n. \<exists>now rnd. entropy w n = NoRandomUUID now rnd"
  shows "\<exists>now rnd. world_id w n =
     ''pane-'' @ nat_str 36 now @ ''-'' @ nat_str 10 (fallbackPaneId w + n + 1) @ ''-'' @ rnd"
proof -
  let ?v = "((\<lambda>v. snd (newPaneId v)) ^^ n) w"
  obtain now rnd where "entropy ?v (calls ?v) = NoRandomUUID now rnd"
    using world_after [OF assms] assms by metis
  from newPaneId_fallback(1) [OF this] world_after [OF assms, of n]
  show ?thesis by (auto simp: world_id_def)
qed

lemma fallback_id_inject:
  assumes "''pane-'' @ nat_str 36 a @ ''-'' @ nat_str 10 m @ ''-'' @ r =
           ''pane-'' @ nat_str 36 b @ ''-'' @ nat_str 10 n @ ''-'' @ q"
  shows "m = n"
proof -
  have nd: "CHR ''-'' \<notin> set (nat_str 36 x)" "CHR ''-'' \<notin> set (nat_str 10 x)" for x
    by (rule nat_str_no_dash; simp)+
  have "nat_str 36 a @ CHR ''-'' # (nat_str 10 m @ CHR ''-'' # r) =
        nat_str 36 b @ CHR ''-'' # (nat_str 10 n @ CHR ''-'' # q)"
    using assms by simp
  from append_sep_inject [OF nd(1) nd(1) this]
  have "nat_str 10 m @ CHR ''-'' # r = nat_str 10 n @ CHR ''-'' # q" by simp
  from append_sep_inject [OF nd(2) nd(2) this]
  have "nat_str 10 m = nat_str 10 n" by simp
  then show ?thesis by simp
qed

lemma fallback_world_inj:
  assumes "\<And>n. \<exists>now rnd. entropy w n = NoRandomUUID now rnd"
  shows "(world_id w m = world_id w n) = (m = n)"
proof
  assume eq: "world_id w m = world_id w n"
  from world_id_fallback [OF assms, of m] world_id_fallback [OF assms, of n] eq
  have "fallbackPaneId w + m + 1 = fallbackPaneId w + n + 1"
    using fallback_id_inject by metis
  then show "m = n" by simp
qed simp

lemma leaf_eq: "leaf sess w = (Leaf (fst (newPaneId w)) sess, snd (newPaneId w))"
  by (simp add: leaf_def split: prod.split)

lemma splitLeaf_absent: "i \<notin> set (leaf_ids t) \<Longrightarrow> splitLeaf t i d w = (t, w)"
  using findLeaf_None [of t i] by (simp add: splitLeaf_def)

lemma splitLeaf_single:
  "splitLeaf (Leaf i sess) i d w =
     (Split (fst (newPaneId w)) d DEFAULT_RATIO (Leaf i sess) (Leaf (fst (newPaneId (snd (newPaneId w)))) None),
      snd (newPaneId (snd (newPaneId w))))"
  by (simp add: splitLeaf_def leaf_eq split: prod.split)

definition insert_after :: "string \<Rightarrow> string \<times> string option \<Rightarrow>
    (string \<times> string option) list \<Rightarrow> (string \<times> string option) list" where
  "insert_after i q ps = concat (map (\<lambda>p. if fst p = i then [p, q] else [p]) ps)"

lemma insert_after_simps [simp]:
  "insert_after i q [] = []"
  "insert_after i q (p # ps) = (if fst p = i then [p, q] else [p]) @ insert_after i q ps"
  by (simp_all add: insert_after_def)

lemma expand_insert_after:
  "distinct (map fst ps) \<Longrightarrow> (i, old) \<in> set ps \<Longrightarrow>
     expand i [(i, old), q] fst ps = insert_after i q ps"
proof (induction ps)
  case (Cons p ps)
  have skip: "i \<notin> set (map fst ps) \<Longrightarrow> insert_after i q ps = ps"
    by (induction ps) auto
  show ?case
  proof (cases "fst p = i")
    case True
    with Cons.prems have "i \<notin> set (map fst ps)" by simp
    moreover from this Cons.prems(2) have "p = (i, old)" by force
    ultimately show ?thesis using skip by (simp add: expand_absent)
  next
    case False
    with Cons show ?thesis by auto
  qed
qed simp

lemma splitLeaf_found:
  assumes "tree_wf t" and "i \<in> set (leaf_ids t)"
    and "newPaneId w = (sid, w1)" and "newPaneId w1 = (nid, w2)"
  obtains t' where "splitLeaf t i d w = (t', w2)"
    and "leaves t' = insert_after i (nid, None) (leaves t)"
    and "node_ids t' = expand i [sid, i, nid] (\<lambda>j. j) (node_ids t)"
    and "split_nodes t' = split_nodes (replaceNode t i (Split sid d DEFAULT_RATIO (Leaf i None) (Leaf nid None)))"
proof -
  obtain old where fl: "findLeaf t i = Some (Leaf i old)" and old: "(i, old) \<in> set (leaves t)"
    using assms(2) by (rule findLeaf_obtain)
  have ns: "i \<notin> set (split_ids t)" using assms(2) wf_disjoint [OF assms(1)] by blast
  let ?n = "Split sid d DEFAULT_RATIO (Leaf i old) (Leaf nid None)"
  have "splitLeaf t i d w = (replaceNode t i ?n, w2)"
    using fl assms(3,4) by (simp add: splitLeaf_def leaf_eq)
  moreover have "leaves (replaceNode t i ?n) = insert_after i (nid, None) (leaves t)"
    using ns old wf_leaf_ids [OF assms(1)] by (simp add: leaves_replaceNode expand_insert_after)
  moreover have "node_ids (replaceNode t i ?n) = expand i [sid, i, nid] (\<lambda>j. j) (node_ids t)"
    using ns by (simp add: node_ids_replaceNode)
  moreover have "split_nodes (replaceNode t i ?n) =
      split_nodes (replaceNode t i (Split sid d DEFAULT_RATIO (Leaf i None) (Leaf nid None)))"
    by (induction t) auto
  ultimately show ?thesis using that by blast
qed

lemma wf_splitLeaf:
  assumes "tree_wf t" and "ids_fresh w (set (node_ids t))"
  shows "tree_wf (fst (splitLeaf t i d w)) \<and>
     ids_fresh (snd (splitLeaf t i d w)) (set (node_ids (fst (splitLeaf t i d w))))"
proof (cases "i \<in> set (leaf_ids t)")
  case False
  with assms show ?thesis by (simp add: splitLeaf_absent)
next
  case True
  obtain sid w1 where n1: "newPaneId w = (sid, w1)" by fastforce
  obtain nid w2 where n2: "newPaneId w1 = (nid, w2)" by fastforce
  from ids_fresh_next [OF assms(2) n1] have f1: "sid \<notin> set (node_ids t)"
    and w1: "ids_fresh w1 (insert sid (set (node_ids t)))" by auto
  from ids_fresh_next [OF w1 n2] have f2: "nid \<notin> insert sid (set (node_ids t))"
    and w2: "ids_fresh w2 (insert nid (insert sid (set (node_ids t))))" by auto
  obtain t' where t': "splitLeaf t i d w = (t', w2)"
    and ids: "node_ids t' = expand i [sid, i, nid] (\<lambda>j. j) (node_ids t)"
    using splitLeaf_found [OF assms(1) True n1 n2] by metis
  have "i \<in> set (node_ids t)" using True by (simp add: set_node_ids)
  then have "distinct (node_ids t')"
    using assms(1) f1 f2 unfolding ids tree_wf_def by (intro distinct_expand) auto
  moreover have "set (node_ids t') \<subseteq> insert nid (insert sid (set (node_ids t)))"
    using True by (auto simp: ids set_expand_ids)
  ultimately show ?thesis using t' ids_fresh_mono [OF w2] by (simp add: tree_wf_def)
qed

lemma wf_removeNode:
  assumes "tree_wf t" and "removeNode t i = Some t'"
  shows "tree_wf t'" and "set (node_ids t') \<subseteq> set (node_ids t)"
  using removeNode_subseq [OF assms(2)] assms(1)
  by (auto simp: tree_wf_def dest: subseq_set subseq_distinct)

section \<open>A session is shown at most once\<close>

definition session_once :: "(string \<times> string option) list \<Rightarrow> bool" where
  "session_once ps = distinct (placed_list ps)"

lemma placed_drop: "placed_list (map (drop_session s) ps) = filter (\<lambda>x. x \<noteq> s) (placed_list ps)"
  by (induction ps) (auto simp: drop_session_def split: option.splits)

lemma placed_put_absent:
  assumes "distinct (map fst ps)" and "distinct (placed_list ps)" and "s \<notin> set (placed_list ps)"
  shows "distinct (placed_list (map (put_session i (Some s)) ps))
    \<and> set (placed_list (map (put_session i (Some s)) ps)) \<subseteq> insert s (set (placed_list ps))"
  using assms
proof (induction ps)
  case (Cons p ps)
  show ?case
  proof (cases "fst p = i")
    case True
    with Cons.prems have rest: "map (put_session i (Some s)) ps = ps"
      by (intro put_session_absent) auto
    have hd: "put_session i (Some s) p = (i, Some s)" using True by (simp add: put_session_def)
    from Cons.prems show ?thesis by (auto simp: rest hd split: option.splits)
  next
    case False
    then have hd: "put_session i (Some s) p = p" by (simp add: put_session_def)
    from Cons show ?thesis by (auto simp: hd split: option.splits)
  qed
qed simp

lemma placed_subseq: "subseq ps qs \<Longrightarrow> subseq (placed_list ps) (placed_list qs)"
  by (induction rule: list_emb.induct) (auto split: option.splits)

lemma session_once_subseq: "session_once qs \<Longrightarrow> subseq ps qs \<Longrightarrow> session_once ps"
  using placed_subseq subseq_distinct unfolding session_once_def by blast

lemma removeNode_session_once:
  "session_once (leaves t) \<Longrightarrow> removeNode t i = Some t' \<Longrightarrow> session_once (leaves t')"
  using removeNode_subseq session_once_subseq by blast

lemma session_once_insert_after: "session_once ps \<Longrightarrow> session_once (insert_after i (j, None) ps)"
proof -
  have "placed_list (insert_after i (j, None) ps) = placed_list ps"
    by (induction ps) (auto split: option.splits)
  then show "session_once ps \<Longrightarrow> session_once (insert_after i (j, None) ps)"
    by (simp add: session_once_def)
qed

lemma map_fst_drop: "map fst (map (drop_session s) ps) = map fst ps"
  by (induction ps) (auto simp add: drop_session_def comp_def)

section \<open>The interface the layout relies on\<close>

text \<open>
  What \<^verbatim>\<open>useLayout.ts\<close> needs of a pane tree: a row of panes that a well-formed tree
  denotes, a test for a pane, and the two operations a session moves with. \<open>place\<close> and
  \<open>clear\<close> are specified on the row alone.
\<close>

locale pane_row =
  fixes panes :: "'t \<Rightarrow> (string \<times> string option) list"
    and wf :: "'t \<Rightarrow> bool"
    and has_pane :: "'t \<Rightarrow> string \<Rightarrow> bool"
    and clear :: "'t \<Rightarrow> string \<Rightarrow> 't"
    and place :: "'t \<Rightarrow> string \<Rightarrow> string option \<Rightarrow> 't"
  assumes distinct_panes: "wf t \<Longrightarrow> distinct (map fst (panes t))"
    and has_pane: "has_pane t i \<longleftrightarrow> i \<in> set (map fst (panes t))"
    and wf_clear: "wf t \<Longrightarrow> wf (clear t s)"
    and wf_place: "wf t \<Longrightarrow> wf (place t i sess)"
    and panes_clear: "panes (clear t s) = map (drop_session s) (panes t)"
    and panes_place: "wf t \<Longrightarrow> panes (place t i sess) = map (put_session i sess) (panes t)"
begin

lemma panes_move:
  "wf t \<Longrightarrow> panes (place (clear t s) i (Some s)) =
     map (\<lambda>p. if fst p = i then (i, Some s) else if snd p = Some s then (fst p, None) else p) (panes t)"
  by (simp add: panes_place wf_clear panes_clear put_session_def drop_session_def comp_def)

lemma move_exact:
  assumes "wf t" and "has_pane t i"
  shows "filter (\<lambda>p. snd p = Some s) (panes (place (clear t s) i (Some s))) = [(i, Some s)]"
proof -
  let ?f = "\<lambda>p. if fst p = i then (i, Some s) else if snd p = Some s then (fst p, None) else p"
  have "distinct (map fst ps) \<Longrightarrow> filter (\<lambda>p. snd p = Some s) (map ?f ps) =
      (if i \<in> set (map fst ps) then [(i, Some s)] else [])" for ps
    by (induction ps) (auto simp: image_iff)
  with assms show ?thesis by (simp add: panes_move distinct_panes has_pane)
qed

lemma move_once:
  assumes "wf t" and "session_once (panes t)"
  shows "session_once (panes (place (clear t s) i (Some s)))"
proof -
  have "distinct (map fst (map (drop_session s) (panes t)))"
    using distinct_panes [OF assms(1)] by (simp only: map_fst_drop)
  moreover have "distinct (placed_list (map (drop_session s) (panes t)))"
    and "s \<notin> set (placed_list (map (drop_session s) (panes t)))"
    using assms(2) by (simp_all add: placed_drop session_once_def)
  ultimately have "distinct (placed_list (map (put_session i (Some s)) (map (drop_session s) (panes t))))"
    using placed_put_absent by blast
  then show ?thesis
    by (simp only: session_once_def panes_place [OF wf_clear [OF assms(1)]] panes_clear)
qed

lemma clear_once: "session_once (panes t) \<Longrightarrow> session_once (panes (clear t s))"
  by (simp add: panes_clear session_once_def placed_drop)

lemma has_pane_move: "wf t \<Longrightarrow> has_pane (place (clear t s) i (Some s)) j = has_pane t j"
proof -
  assume "wf t"
  then have "map fst (panes (place (clear t s) i (Some s))) = map fst (panes t)"
    by (simp add: panes_move)
  then show ?thesis by (simp add: has_pane)
qed

end

interpretation tree: pane_row leaves tree_wf "\<lambda>t i. findLeaf t i \<noteq> None" removeSession setLeafSession
  by unfold_locales (auto simp: leaf_simps wf_leaf_ids findLeaf_None)

section \<open>Properties\<close>

lemma length_leaves: "length (leaves t) = Suc (length (split_nodes t))"
  by (induction t) auto

lemma filter_one_length:
  "distinct (map fst ps) \<Longrightarrow> i \<in> set (map fst ps) \<Longrightarrow>
     Suc (length (filter (\<lambda>p. fst p \<noteq> i) ps)) = length ps"
proof (induction ps)
  case (Cons p ps)
  then show ?case by (cases "fst p = i") (auto simp: filter_fst_absent)
qed simp


definition demo_tree :: PaneNode where
  "demo_tree = Split ''s1'' DirH DEFAULT_RATIO (Leaf ''p1'' (Some ''t1''))
     (Split ''s2'' DirV (Num (1/4)) (Leaf ''p2'' None) (Leaf ''p3'' (Some ''t3'')))"

lemma demo_tree_wf: "tree_wf demo_tree"
  by (simp add: demo_tree_def tree_wf_def)


text \<open>
  C18. Splitting a pane inserts one new empty pane right after it in the row and leaves
  every other pane, its own session included, as it was; identifiers stay distinct and the
  remaining draws stay fresh. Splitting an unknown pane changes nothing and draws nothing.
\<close>

theorem splitLeaf_refines:
  assumes "tree_wf t" and "ids_fresh w (set (node_ids t))"
  shows "case splitLeaf t i d w of (t', w') \<Rightarrow>
     tree_wf t' \<and> ids_fresh w' (set (node_ids t'))
     \<and> leaves t' = (if i \<in> set (leaf_ids t) then insert_after i (world_id w 1, None) (leaves t)
                    else leaves t)
     \<and> calls w' = calls w + (if i \<in> set (leaf_ids t) then 2 else 0)"
proof (cases "i \<in> set (leaf_ids t)")
  case False
  with assms splitLeaf_absent [OF False] show ?thesis by simp
next
  case True
  obtain sid w1 where n1: "newPaneId w = (sid, w1)" by fastforce
  obtain nid w2 where n2: "newPaneId w1 = (nid, w2)" by fastforce
  have nid: "world_id w 1 = nid" using n1 n2 world_id_Suc [of w 0] by (simp add: world_id_0)
  have "calls w2 = calls w + 2" using newPaneId_calls(1) [of w] newPaneId_calls(1) [of w1] n1 n2 by simp
  moreover obtain t' where "splitLeaf t i d w = (t', w2)"
    and "leaves t' = insert_after i (nid, None) (leaves t)"
    by (rule splitLeaf_found [OF assms(1) True n1 n2])
  ultimately show ?thesis using wf_splitLeaf [OF assms, of i d] True nid by simp
qed

definition demo_world :: id_world where
  "demo_world = \<lparr>fallbackPaneId = 0, calls = 0, entropy = (\<lambda>n. NoRandomUUID 1700000000000 ''k3j'')\<rparr>"

lemma demo_world_fresh: "ids_fresh demo_world (set (node_ids demo_tree))"
proof -
  have fb: "\<exists>now rnd. entropy demo_world n = NoRandomUUID now rnd" for n
    by (simp add: demo_world_def)
  have "inj (world_id demo_world)"
    by (simp add: inj_def fallback_world_inj [OF fb])
  moreover have "world_id demo_world n \<notin> set (node_ids demo_tree)" for n
    using world_id_fallback [OF fb, of n] by (auto simp: demo_tree_def)
  ultimately show ?thesis by (simp add: ids_fresh_def)
qed

theorem splitLeaf_refines_witness:
  "leaves (fst (splitLeaf demo_tree ''p1'' DirV demo_world)) =
     [(''p1'', Some ''t1''), (world_id demo_world 1, None), (''p2'', None), (''p3'', Some ''t3'')]"
  using splitLeaf_refines [OF demo_tree_wf demo_world_fresh, of "''p1''" DirV]
  by (simp add: demo_tree_def split: prod.splits)

text \<open>
  Dragging a divider changes the ratio of that split only, and for every pointer
  position that is a number the new ratio lies between 0.1 and 0.9, so neither pane
  collapses; a position that is not a number (a zero-width container) passes the clamp
  unchanged. The row of panes and all identifiers stay the same.
\<close>

theorem setRatio_clamped:
  assumes "tree_wf t"
  shows "leaves (setRatio t k x) = leaves t \<and> node_ids (setRatio t k x) = node_ids t
    \<and> (\<exists>c. split_nodes (setRatio t k x) =
            map (\<lambda>(j, d, r). (j, d, if j = k then c else r)) (split_nodes t)
          \<and> (if x = NaN then c = NaN else \<exists>r. c = Num r \<and> 1/10 \<le> r \<and> r \<le> 9/10))"
  using splits_setRatio [OF assms] clamp_ratio_range [of x] clamp_ratio_NaN
  by (auto simp: leaf_simps id_simps)

theorem setRatio_clamped_witness:
  "split_nodes (setRatio demo_tree ''s2'' PosInf) =
     [(''s1'', DirH, DEFAULT_RATIO), (''s2'', DirV, Num (9/10))]
   \<and> leaves (setRatio demo_tree ''s2'' PosInf) = leaves demo_tree"
  using setRatio_clamped [OF demo_tree_wf, of "''s2''" PosInf]
  by (simp add: demo_tree_def setRatio_def clamp_ratio_def RATIO_MAX_def RATIO_MIN_def)

text \<open>
  Without \<open>crypto.randomUUID\<close> the identifiers of one page load never repeat, whatever
  the clock and \<open>Math.random\<close> return: the counter alone makes them distinct.
\<close>

theorem newPaneId_fallback_distinct:
  assumes "\<And>n. \<exists>now rnd. entropy w n = NoRandomUUID now rnd"
  shows "inj (world_id w)"
  by (simp add: inj_def fallback_world_inj [OF assms])

theorem newPaneId_fallback_distinct_witness:
  "world_id demo_world 0 \<noteq> world_id demo_world 7"
proof -
  have "\<exists>now rnd. entropy demo_world n = NoRandomUUID now rnd" for n
    by (simp add: demo_world_def)
  from newPaneId_fallback_distinct [OF this] show ?thesis by (auto dest: injD)
qed

end
