(* ===== verification/Layout.thy ===== *)
theory Layout
  imports PaneTree
begin

text \<open>
  \<^verbatim>\<open>features/split/useLayout.ts\<close> and \<^verbatim>\<open>layout.ts\<close>: the pane layout as a state machine. The
  state is the hook's React state and refs, the pending debounced save, the server's copy
  and the identifier world; an event is one call of the hook's API, one timer firing or one
  answer of the server. \<open>layout_inv\<close> is what every component that draws the layout relies
  on. \<open>parseLayout\<close> reads the untrusted blob, \<open>layout_json\<close> is what \<open>JSON.stringify\<close> sends.
\<close>

section \<open>The persisted blob\<close>

fun json_truthy :: "json option \<Rightarrow> bool" where
  "json_truthy None = False"
| "json_truthy (Some JNull) = False"
| "json_truthy (Some (JBool b)) = b"
| "json_truthy (Some (JNum x)) = (x \<noteq> NaN \<and> x \<noteq> Num 0)"
| "json_truthy (Some (JStr s)) = (s \<noteq> [])"
| "json_truthy (Some v) = True"

definition readString :: "json \<Rightarrow> string \<Rightarrow> string option" where
  "readString obj key = (case get_prop obj key of Some (JStr s) \<Rightarrow> Some s | _ \<Rightarrow> None)"

definition readNumber :: "json \<Rightarrow> string \<Rightarrow> jsnum option" where
  "readNumber obj key = (case get_prop obj key of Some (JNum x) \<Rightarrow> Some x | _ \<Rightarrow> None)"

fun readDir :: "json option \<Rightarrow> SplitDir option" where
  "readDir (Some (JStr s)) =
     (if s = ''h'' then Some DirH else if s = ''v'' then Some DirV else None)"
| "readDir _ = None"

function parseLayout :: "json \<Rightarrow> PaneNode option" where
  "parseLayout blob =
     (if \<not> is_record blob then None
      else case readString blob ''id'' of None \<Rightarrow> None | Some i \<Rightarrow>
        if get_prop blob ''kind'' = Some (JStr ''leaf'') then
          Some (Leaf i (readString blob ''sessionId''))
        else if get_prop blob ''kind'' = Some (JStr ''split'') then
          (case readDir (get_prop blob ''dir'') of None \<Rightarrow> None | Some d \<Rightarrow>
            let r = or_else (readNumber blob ''ratio'') DEFAULT_RATIO;
                f = (case get_prop blob ''first'' of None \<Rightarrow> None | Some v \<Rightarrow> parseLayout v);
                s = (case get_prop blob ''second'' of None \<Rightarrow> None | Some v \<Rightarrow> parseLayout v)
            in case (f, s) of (Some f', Some s') \<Rightarrow> Some (Split i d r f' s') | _ \<Rightarrow> None)
        else None)"
  by pat_completeness auto
termination
  by (relation "measure size") (auto dest: get_prop_size)

declare parseLayout.simps [simp del]

fun dir_str :: "SplitDir \<Rightarrow> string" where
  "dir_str DirH = ''h''"
| "dir_str DirV = ''v''"

fun layout_json :: "PaneNode \<Rightarrow> json" where
  "layout_json (Leaf i sess) =
     JObj [(''kind'', JStr ''leaf''), (''id'', JStr i), (''sessionId'', json_opt_str sess)]"
| "layout_json (Split i d r f s) =
     JObj [(''kind'', JStr ''split''), (''id'', JStr i), (''dir'', JStr (dir_str d)),
       (''ratio'', json_num r), (''first'', layout_json f), (''second'', layout_json s)]"

text \<open>What survives the trip through JSON: a ratio that is not finite becomes the default.\<close>

fun json_ratio :: "jsnum \<Rightarrow> jsnum" where
  "json_ratio (Num r) = Num r"
| "json_ratio _ = DEFAULT_RATIO"

fun json_tree :: "PaneNode \<Rightarrow> PaneNode" where
  "json_tree (Leaf i sess) = Leaf i sess"
| "json_tree (Split i d r f s) = Split i d (json_ratio r) (json_tree f) (json_tree s)"

lemma readDir_str [simp]: "readDir (Some (JStr (dir_str d))) = Some d"
  by (cases d) auto

lemma json_opt_str_read [simp]:
  "(case json_opt_str sess of JStr s \<Rightarrow> Some s | _ \<Rightarrow> None) = sess"
  by (cases sess) auto

lemma json_num_read [simp]:
  "or_else (case json_num r of JNum x \<Rightarrow> Some x | _ \<Rightarrow> None) DEFAULT_RATIO = json_ratio r"
  by (cases r) auto

lemma parseLayout_layout_json: "parseLayout (layout_json t) = Some (json_tree t)"
proof (induction t)
  case (Leaf i sess)
  show ?case
    by (subst parseLayout.simps) (simp add: readString_def)
next
  case (Split i d r f s)
  then show ?case
    by (cases d; subst parseLayout.simps) (simp_all add: readString_def readNumber_def Let_def)
qed

lemma json_truthy_layout [simp]: "json_truthy (Some (layout_json t))"
  by (cases t) auto

lemma json_tree_observers [simp]:
  "leaves (json_tree t) = leaves t" "node_ids (json_tree t) = node_ids t"
  "tree_wf (json_tree t) = tree_wf t"
  by (induction t) (auto simp: tree_wf_def)

section \<open>State, events, handlers\<close>

record layout_state =
  ls_authed :: bool
  ls_root :: PaneNode
  rootRef :: PaneNode
  focusedPaneId :: string
  placed :: "string set"
  saveTimer :: "PaneNode option"     \<comment> \<open>the tree the pending debounce timer will send\<close>
  effects :: nat                     \<comment> \<open>restore effects started so far\<close>
  liveEffect :: "nat option"         \<comment> \<open>the effect whose \<open>cancelled\<close> is still false\<close>
  server :: "json option"
  idw :: id_world

datatype layout_event =
    SetAuthed bool
  | LayoutFetched nat "json option option"  \<comment> \<open>\<open>None\<close>: rejected; \<open>Some b\<close>: \<open>res.layout\<close>\<close>
  | FocusPane string
  | AssignSession string string
  | SplitPane string SplitDir
  | ClosePane string
  | ChangeRatio string jsnum
  | UnplaceSession string
  | FocusSession string
  | SaveTimerFires bool              \<comment> \<open>whether the PUT reaches the server\<close>

definition useLayout_init :: "id_world \<Rightarrow> json option \<Rightarrow> layout_state" where
  "useLayout_init w srv =
     (case leaf None w of (t, w') \<Rightarrow>
       \<lparr>ls_authed = False, ls_root = t, rootRef = t, focusedPaneId = firstLeafId t, placed = {},
        saveTimer = None, effects = 0, liveEffect = None, server = srv, idw = w'\<rparr>)"

text \<open>The effect on \<open>[authed]\<close>: clean up the previous run, then start a fetch if authenticated.\<close>

definition set_authed :: "bool \<Rightarrow> layout_state \<Rightarrow> layout_state" where
  "set_authed b st =
     (if b = ls_authed st then st
      else if b then st\<lparr>ls_authed := True, effects := Suc (effects st), liveEffect := Some (effects st)\<rparr>
      else st\<lparr>ls_authed := False, liveEffect := None\<rparr>)"

definition layout_fetched :: "nat \<Rightarrow> json option option \<Rightarrow> layout_state \<Rightarrow> layout_state" where
  "layout_fetched n res st =
     (case res of None \<Rightarrow> st
      | Some blob \<Rightarrow>
          if liveEffect st \<noteq> Some n \<or> \<not> json_truthy blob then st
          else case Option.bind blob parseLayout of None \<Rightarrow> st
            | Some parsed \<Rightarrow>
                st\<lparr>rootRef := parsed, ls_root := parsed, focusedPaneId := firstLeafId parsed,
                   placed := placedSessionIds parsed\<rparr>)"

definition persist :: "PaneNode \<Rightarrow> layout_state \<Rightarrow> layout_state" where
  "persist nxt st = st\<lparr>saveTimer := Some nxt\<rparr>"

definition save_timer_fires :: "bool \<Rightarrow> layout_state \<Rightarrow> layout_state" where
  "save_timer_fires ok st =
     (case saveTimer st of None \<Rightarrow> st
      | Some t \<Rightarrow> st\<lparr>saveTimer := None, server := (if ok then Some (layout_json t) else server st)\<rparr>)"

definition commit :: "PaneNode \<Rightarrow> layout_state \<Rightarrow> layout_state" where
  "commit nxt st =
     persist nxt (st\<lparr>rootRef := nxt, ls_root := nxt, placed := placedSessionIds nxt\<rparr>)"

definition focusPane :: "string \<Rightarrow> layout_state \<Rightarrow> layout_state" where
  "focusPane paneId st = st\<lparr>focusedPaneId := paneId\<rparr>"

definition hasPane :: "string \<Rightarrow> layout_state \<Rightarrow> bool" where
  "hasPane paneId st = (findLeaf (rootRef st) paneId \<noteq> None)"

definition assignSession :: "string \<Rightarrow> string \<Rightarrow> layout_state \<Rightarrow> layout_state" where
  "assignSession paneId tmId st =
     (if findLeaf (rootRef st) paneId = None then st
      else let cleared = removeSession (rootRef st) tmId in
        (commit (setLeafSession cleared paneId (Some tmId)) st)\<lparr>focusedPaneId := paneId\<rparr>)"

definition split_pane :: "string \<Rightarrow> SplitDir \<Rightarrow> layout_state \<Rightarrow> layout_state" where
  "split_pane paneId d st =
     (case splitLeaf (rootRef st) paneId d (idw st) of (t, w) \<Rightarrow> commit t (st\<lparr>idw := w\<rparr>))"

definition closePane :: "string \<Rightarrow> layout_state \<Rightarrow> layout_state" where
  "closePane paneId st =
     (case (case removeNode (rootRef st) paneId of
              Some t \<Rightarrow> (t, idw st) | None \<Rightarrow> leaf None (idw st)) of (nxt, w) \<Rightarrow>
        (commit nxt (st\<lparr>idw := w\<rparr>))
          \<lparr>focusedPaneId := (if findLeaf nxt (focusedPaneId st) \<noteq> None then focusedPaneId st
                             else firstLeafId nxt)\<rparr>)"

definition changeRatio :: "string \<Rightarrow> jsnum \<Rightarrow> layout_state \<Rightarrow> layout_state" where
  "changeRatio splitId x st = commit (setRatio (rootRef st) splitId x) st"

definition unplaceSession :: "string \<Rightarrow> layout_state \<Rightarrow> layout_state" where
  "unplaceSession tmId st = commit (removeSession (rootRef st) tmId) st"

fun focus_walk :: "string \<Rightarrow> PaneNode \<Rightarrow> string \<Rightarrow> string" where
  "focus_walk tmId (Leaf i sess) found = (if sess = Some tmId then i else found)"
| "focus_walk tmId (Split i d r f s) found = focus_walk tmId s (focus_walk tmId f found)"

definition focusSession :: "string \<Rightarrow> layout_state \<Rightarrow> bool \<times> layout_state" where
  "focusSession tmId st =
     (let found = focus_walk tmId (rootRef st) [] in
      (length found > 0, if found \<noteq> [] then st\<lparr>focusedPaneId := found\<rparr> else st))"

fun layout_step :: "layout_state \<Rightarrow> layout_event \<Rightarrow> layout_state" where
  "layout_step st (SetAuthed b) = set_authed b st"
| "layout_step st (LayoutFetched n res) = layout_fetched n res st"
| "layout_step st (FocusPane i) = focusPane i st"
| "layout_step st (AssignSession i t) = assignSession i t st"
| "layout_step st (SplitPane i d) = split_pane i d st"
| "layout_step st (ClosePane i) = closePane i st"
| "layout_step st (ChangeRatio i x) = changeRatio i x st"
| "layout_step st (UnplaceSession t) = unplaceSession t st"
| "layout_step st (FocusSession t) = snd (focusSession t st)"
| "layout_step st (SaveTimerFires ok) = save_timer_fires ok st"

section \<open>The invariant\<close>

definition layout_inv :: "layout_state \<Rightarrow> bool" where
  "layout_inv st = (rootRef st = ls_root st \<and> tree_wf (ls_root st) \<and> session_once (leaves (ls_root st))
     \<and> focusedPaneId st \<in> set (leaf_ids (ls_root st)) \<and> placed st = placedSessionIds (ls_root st)
     \<and> ids_fresh (idw st) (set (node_ids (ls_root st))))"

text \<open>
  What the environment may do. The panes call \<open>focusPane\<close> with their own identifier. A blob
  that the server returns and that parses was written by this application: its identifiers
  are distinct, no session occurs twice, and later identifiers do not collide with it.
\<close>

fun layout_ok :: "layout_state \<Rightarrow> layout_event \<Rightarrow> bool" where
  "layout_ok st (FocusPane i) = (i \<in> set (leaf_ids (ls_root st)))"
| "layout_ok st (LayoutFetched n (Some (Some blob))) =
     (case parseLayout blob of None \<Rightarrow> True
      | Some t \<Rightarrow> tree_wf t \<and> session_once (leaves t) \<and> ids_fresh (idw st) (set (node_ids t)))"
| "layout_ok st _ = True"

lemma commit_simps [simp]:
  "ls_root (commit t st) = t" "rootRef (commit t st) = t" "placed (commit t st) = placedSessionIds t"
  "focusedPaneId (commit t st) = focusedPaneId st" "idw (commit t st) = idw st"
  "saveTimer (commit t st) = Some t" "server (commit t st) = server st"
  "liveEffect (commit t st) = liveEffect st" "effects (commit t st) = effects st"
  "ls_authed (commit t st) = ls_authed st"
  by (simp_all add: commit_def persist_def)

lemma layout_inv_init: "ids_fresh w {} \<Longrightarrow> layout_inv (useLayout_init w srv)"
  using ids_fresh_next [of w "{}" "fst (newPaneId w)" "snd (newPaneId w)"]
  by (simp add: layout_inv_def useLayout_init_def leaf_eq placedSessionIds_eq session_once_def)

lemma layout_inv_commit:
  assumes "layout_inv st" and "tree_wf t" and "session_once (leaves t)"
    and "ids_fresh w (set (node_ids t))" and "i \<in> set (leaf_ids t)"
  shows "layout_inv ((commit t (st\<lparr>idw := w\<rparr>))\<lparr>focusedPaneId := i\<rparr>)"
  using assms by (simp add: layout_inv_def)

lemma inv_assignSession:
  assumes "layout_inv st"
  shows "layout_inv (assignSession i s st)"
proof (cases "findLeaf (rootRef st) i = None")
  case True
  with assms show ?thesis by (simp add: assignSession_def)
next
  case False
  let ?t = "setLeafSession (removeSession (ls_root st) s) i (Some s)"
  have inv: "rootRef st = ls_root st" "tree_wf (ls_root st)" "session_once (leaves (ls_root st))"
    "ids_fresh (idw st) (set (node_ids (ls_root st)))"
    using assms by (auto simp: layout_inv_def)
  have "node_ids ?t = node_ids (ls_root st)"
    using inv by (simp add: id_simps wf_removeSession)
  moreover have "tree_wf ?t" using inv by auto
  moreover have "session_once (leaves ?t)" using inv tree.move_once by blast
  moreover have "i \<in> set (leaf_ids ?t)"
    using False inv tree.has_pane_move [of "ls_root st" s i i] by (simp add: findLeaf_None)
  ultimately show ?thesis
    using False assms inv layout_inv_commit [of st ?t "idw st" i]
    by (simp add: assignSession_def Let_def)
qed

lemma inv_split_pane:
  assumes "layout_inv st"
  shows "layout_inv (split_pane i d st)"
proof -
  have inv: "rootRef st = ls_root st" "tree_wf (ls_root st)" "session_once (leaves (ls_root st))"
    "ids_fresh (idw st) (set (node_ids (ls_root st)))" "focusedPaneId st \<in> set (leaf_ids (ls_root st))"
    using assms by (auto simp: layout_inv_def)
  obtain t w where t: "splitLeaf (ls_root st) i d (idw st) = (t, w)" by fastforce
  have wf: "tree_wf t" "ids_fresh w (set (node_ids t))"
    using wf_splitLeaf [OF inv(2,4), of i d] t by auto
  have "leaves t = leaves (ls_root st) \<or> (\<exists>nid. leaves t = insert_after i (nid, None) (leaves (ls_root st)))"
  proof (cases "i \<in> set (leaf_ids (ls_root st))")
    case True
    obtain sid w1 where n1: "newPaneId (idw st) = (sid, w1)" by fastforce
    obtain nid w2 where n2: "newPaneId w1 = (nid, w2)" by fastforce
    show ?thesis using splitLeaf_found [OF inv(2) True n1 n2, of d] t by auto
  next
    case False
    then show ?thesis using splitLeaf_absent [OF False] t by auto
  qed
  moreover have "j \<in> set (map fst ps) \<Longrightarrow> j \<in> set (map fst (insert_after i q ps))" for j q ps
    by (induction ps) auto
  ultimately have "session_once (leaves t)" "focusedPaneId st \<in> set (leaf_ids t)"
    using inv session_once_insert_after by metis+
  then show ?thesis
    using inv wf t by (simp add: split_pane_def layout_inv_def)
qed

lemma inv_closePane:
  assumes "layout_inv st"
  shows "layout_inv (closePane i st)"
proof -
  have inv: "rootRef st = ls_root st" "tree_wf (ls_root st)" "session_once (leaves (ls_root st))"
    "ids_fresh (idw st) (set (node_ids (ls_root st)))"
    using assms by (auto simp: layout_inv_def)
  show ?thesis
  proof (cases "removeNode (ls_root st) i")
    case None
    have "ids_fresh (snd (newPaneId (idw st))) {fst (newPaneId (idw st))}"
      using ids_fresh_next(2) [OF ids_fresh_mono [OF inv(4), of "{}"]] by simp
    then show ?thesis
      using None inv by (simp add: closePane_def leaf_eq layout_inv_def session_once_def)
  next
    case (Some t)
    have "tree_wf t" "ids_fresh (idw st) (set (node_ids t))"
      using wf_removeNode [OF inv(2) Some] ids_fresh_mono [OF inv(4)] by auto
    moreover have "session_once (leaves t)"
      using removeNode_session_once [OF inv(3) Some] .
    ultimately show ?thesis
      using Some inv by (simp add: closePane_def layout_inv_def findLeaf_None)
  qed
qed

lemma inv_layout_fetched:
  assumes "layout_inv st" and "layout_ok st (LayoutFetched n res)"
  shows "layout_inv (layout_fetched n res st)"
proof (cases res)
  case None
  with assms show ?thesis by (simp add: layout_fetched_def)
next
  case (Some b)
  show ?thesis
  proof (cases "Option.bind b parseLayout")
    case None
    with Some assms show ?thesis by (simp add: layout_fetched_def)
  next
    case (Some t)
    with \<open>res = Some b\<close> assms show ?thesis
      by (cases b) (auto simp: layout_fetched_def layout_inv_def)
  qed
qed

lemma focus_walk_cases:
  "focus_walk s t found = found \<and> s \<notin> set (placed_list (leaves t))
   \<or> (focus_walk s t found, Some s) \<in> set (leaves t)"
proof (induction t arbitrary: found)
  case (Split i d r f u)
  show ?case
    using Split.IH(1) [of found] Split.IH(2) [of "focus_walk s f found"] by auto
qed (auto split: option.splits)

lemma inv_focusSession:
  assumes "layout_inv st"
  shows "layout_inv (snd (focusSession s st))"
proof (cases "focus_walk s (rootRef st) [] = []")
  case True
  with assms show ?thesis by (simp add: focusSession_def Let_def)
next
  case False
  then have "(focus_walk s (rootRef st) [], Some s) \<in> set (leaves (rootRef st))"
    using focus_walk_cases [of s "rootRef st" "[]"] by auto
  with False assms show ?thesis
    by (force simp: focusSession_def Let_def layout_inv_def)
qed

lemma layout_inv_step:
  assumes "layout_inv st" and "layout_ok st e"
  shows "layout_inv (layout_step st e)"
proof (cases e)
  case (SetAuthed b)
  with assms show ?thesis by (simp add: set_authed_def layout_inv_def)
next
  case (LayoutFetched n res)
  with assms show ?thesis by (simp add: inv_layout_fetched)
next
  case (FocusPane i)
  with assms show ?thesis by (simp add: focusPane_def layout_inv_def)
next
  case (AssignSession i s)
  with assms show ?thesis by (simp add: inv_assignSession)
next
  case (SplitPane i d)
  with assms show ?thesis by (simp add: inv_split_pane)
next
  case (ClosePane i)
  with assms show ?thesis by (simp add: inv_closePane)
next
  case (ChangeRatio i x)
  with assms show ?thesis
    by (auto simp: changeRatio_def layout_inv_def leaf_simps id_simps)
next
  case (UnplaceSession s)
  with assms tree.clear_once [of "ls_root st" s] show ?thesis
    by (auto simp: unplaceSession_def layout_inv_def id_simps leaves_removeSession map_fst_drop
        simp del: map_map list.map_comp set_map)
next
  case (FocusSession s)
  with assms show ?thesis by (simp add: inv_focusSession)
next
  case (SaveTimerFires b)
  with assms show ?thesis
    by (simp add: save_timer_fires_def layout_inv_def split: option.split)
qed

interpretation layout_run: machine_inv layout_step layout_ok layout_inv
  by unfold_locales (rule layout_inv_step)

section \<open>Persistence\<close>

text \<open>
  Since the last commit, either the debounce timer still holds the current tree, or the
  server holds a blob that reads back as the current tree.
\<close>

definition reads_back :: "json option \<Rightarrow> PaneNode \<Rightarrow> bool" where
  "reads_back b t =
     (case Option.bind b parseLayout of None \<Rightarrow> False | Some t' \<Rightarrow> json_tree t' = json_tree t)"

definition save_inv :: "layout_state \<Rightarrow> bool" where
  "save_inv st = (rootRef st = ls_root st \<and>
     (case saveTimer st of Some t \<Rightarrow> t = ls_root st | None \<Rightarrow> reads_back (server st) (ls_root st)))"

text \<open>Every PUT arrives, and no restore is answered while a save is pending.\<close>

fun save_ok :: "layout_state \<Rightarrow> layout_event \<Rightarrow> bool" where
  "save_ok st (SaveTimerFires ok) = ok"
| "save_ok st (LayoutFetched n (Some b)) =
     (liveEffect st = Some n \<longrightarrow> saveTimer st = None \<and> b = server st)"
| "save_ok st _ = True"

lemma json_tree_idem [simp]: "json_tree (json_tree t) = json_tree t"
proof -
  have "json_ratio (json_ratio r) = json_ratio r" for r by (cases r) (auto simp: DEFAULT_RATIO_def)
  then show ?thesis by (induction t) auto
qed

lemma reads_back_put [simp]: "reads_back (Some (layout_json u)) t = (json_tree u = json_tree t)"
  by (simp add: reads_back_def parseLayout_layout_json)

lemma save_inv_commit: "save_inv (commit t st)"
  by (simp add: save_inv_def)

lemma save_inv_focus [simp]: "save_inv (st\<lparr>focusedPaneId := i\<rparr>) = save_inv st"
  by (cases "saveTimer st") (simp_all add: save_inv_def)

lemma save_inv_step:
  assumes "save_inv st" and "save_ok st e"
  shows "save_inv (layout_step st e)"
proof (cases e)
  case (SetAuthed b)
  with assms show ?thesis
    by (cases "saveTimer st") (auto simp: set_authed_def save_inv_def)
next
  case (LayoutFetched n res)
  show ?thesis
  proof (cases "res = None \<or> liveEffect st \<noteq> Some n")
    case True
    with LayoutFetched assms show ?thesis by (auto simp: layout_fetched_def split: option.split)
  next
    case False
    with LayoutFetched assms have "res = Some (server st)" "saveTimer st = None" by auto
    then show ?thesis using assms(1) LayoutFetched
      by (auto simp: layout_fetched_def save_inv_def reads_back_def split: option.splits)
  qed
next
  case (SaveTimerFires b)
  with assms show ?thesis
    by (auto simp: save_timer_fires_def save_inv_def split: option.splits)
qed (use assms in \<open>auto simp: focusPane_def assignSession_def split_pane_def
      closePane_def changeRatio_def unplaceSession_def focusSession_def Let_def save_inv_commit split: prod.splits\<close>)

interpretation save_run: machine_inv layout_step save_ok save_inv
  by unfold_locales (rule save_inv_step)

section \<open>Properties\<close>

text \<open>
  The layout invariant survives every sequence of calls, timers and server answers:
  the React state and the ref agree, pane identifiers are distinct, a session is shown in at
  most one pane, the focused pane exists, and the set of placed sessions is that of the tree.
\<close>

theorem layout_invariant:
  assumes "ids_fresh w {}" and "run_ok layout_step layout_ok (useLayout_init w srv) es"
  shows "layout_inv (run layout_step (useLayout_init w srv) es)"
  by (rule layout_run.run_inv [OF layout_inv_init [OF assms(1)] assms(2)])

lemma demo_fresh_empty: "ids_fresh demo_world {}"
  using ids_fresh_mono [OF demo_world_fresh] by simp

theorem layout_invariant_witness:
  "layout_inv (run layout_step (useLayout_init demo_world None)
     [SplitPane (world_id demo_world 0) DirH, AssignSession (world_id demo_world 0) ''t1'',
      ClosePane (world_id demo_world 0), SaveTimerFires True])"
  by (rule layout_invariant [OF demo_fresh_empty]) simp

lemma assign_effect:
  assumes "layout_inv st" and "hasPane i st" and "st' = assignSession i s st"
  shows "filter (\<lambda>p. snd p = Some s) (leaves (ls_root st')) = [(i, Some s)]"
    and "leaf_ids (ls_root st') = leaf_ids (ls_root st)"
    and "j \<noteq> i \<Longrightarrow> r \<noteq> s \<Longrightarrow> (j, Some r) \<in> set (leaves (ls_root st')) \<longleftrightarrow> (j, Some r) \<in> set (leaves (ls_root st))"
    and "focusedPaneId st' = i" and "saveTimer st' = Some (ls_root st')"
proof -
  let ?t = "setLeafSession (removeSession (ls_root st) s) i (Some s)"
  have inv: "rootRef st = ls_root st" "tree_wf (ls_root st)" using assms(1) by (auto simp: layout_inv_def)
  have st': "st' = (commit ?t st)\<lparr>focusedPaneId := i\<rparr>"
    using assms(2,3) inv by (auto simp: assignSession_def hasPane_def Let_def)
  show "filter (\<lambda>p. snd p = Some s) (leaves (ls_root st')) = [(i, Some s)]"
    using tree.move_exact [OF inv(2)] assms(2) inv(1) by (simp add: st' hasPane_def)
  show "leaf_ids (ls_root st') = leaf_ids (ls_root st)"
    using inv(2) by (simp add: st' tree.panes_move)
  show "j \<noteq> i \<Longrightarrow> r \<noteq> s \<Longrightarrow> (j, Some r) \<in> set (leaves (ls_root st')) \<longleftrightarrow> (j, Some r) \<in> set (leaves (ls_root st))"
    using inv(2) by (force simp: st' tree.panes_move)
  show "focusedPaneId st' = i" "saveTimer st' = Some (ls_root st')" by (simp_all add: st')
qed

text \<open>
  C19. Assigning a session to an open pane moves it there: exactly that pane shows it
  afterwards, every pane that showed something else keeps it, and the pane is focused.
  Assigning to a pane that has been closed changes nothing at all.
\<close>

theorem assignSession_moves:
  assumes "layout_inv st"
  shows "if hasPane i st
    then let st' = assignSession i s st in
      filter (\<lambda>p. snd p = Some s) (leaves (ls_root st')) = [(i, Some s)]
      \<and> leaf_ids (ls_root st') = leaf_ids (ls_root st)
      \<and> (\<forall>j r. j \<noteq> i \<longrightarrow> r \<noteq> s \<longrightarrow>
            ((j, Some r) \<in> set (leaves (ls_root st')) \<longleftrightarrow> (j, Some r) \<in> set (leaves (ls_root st))))
      \<and> focusedPaneId st' = i \<and> saveTimer st' = Some (ls_root st')
    else assignSession i s st = st"
proof (cases "hasPane i st")
  case True
  with assign_effect [OF assms True refl, where s = s] show ?thesis by (simp add: Let_def)
next
  case False
  then show ?thesis by (simp add: assignSession_def hasPane_def)
qed

definition demo_layout :: layout_state where
  "demo_layout = \<lparr>ls_authed = True, ls_root = demo_tree, rootRef = demo_tree, focusedPaneId = ''p2'',
     placed = {''t1'', ''t3''}, saveTimer = None, effects = 1, liveEffect = Some 0, server = None,
     idw = demo_world\<rparr>"

lemma demo_layout_inv: "layout_inv demo_layout"
  using demo_tree_wf demo_world_fresh
  by (auto simp: layout_inv_def demo_layout_def session_once_def placedSessionIds_eq demo_tree_def)

theorem assignSession_moves_witness:
  "leaves (ls_root (assignSession ''p2'' ''t1'' demo_layout)) =
     [(''p1'', None), (''p2'', Some ''t1''), (''p3'', Some ''t3'')]
   \<and> filter (\<lambda>p. snd p = Some ''t1'') (leaves (ls_root (assignSession ''p2'' ''t1'' demo_layout))) =
     [(''p2'', Some ''t1'')]"
proof -
  have h: "hasPane ''p2'' demo_layout"
    by (simp add: hasPane_def demo_layout_def demo_tree_def)
  have "leaves (ls_root (assignSession ''p2'' ''t1'' demo_layout)) =
     [(''p1'', None), (''p2'', Some ''t1''), (''p3'', Some ''t3'')]"
    by (simp add: assignSession_def demo_layout_def demo_tree_def setLeafSession_def Let_def)
  then show ?thesis
    using assignSession_moves [OF demo_layout_inv, of "''p2''" "''t1''"] h by (simp add: Let_def)
qed

text \<open>
  After closing a pane the focus stays where it was unless the focused pane itself is
  gone, in which case it moves to the first pane; the layout is never without a pane.
\<close>

theorem closePane_focus:
  assumes "layout_inv st"
  shows "let st' = closePane i st in
     leaves (ls_root st') \<noteq> [] \<and>
     focusedPaneId st' =
       (if focusedPaneId st \<in> set (leaf_ids (ls_root st')) then focusedPaneId st
        else fst (hd (leaves (ls_root st'))))
     \<and> (i \<in> set (leaf_ids (ls_root st)) \<longrightarrow> i \<notin> set (leaf_ids (ls_root st')))"
proof -
  have inv: "rootRef st = ls_root st" "tree_wf (ls_root st)"
    "ids_fresh (idw st) (set (node_ids (ls_root st)))"
    using assms by (auto simp: layout_inv_def)
  obtain nxt w where nxt: "(case removeNode (ls_root st) i of
      Some t \<Rightarrow> (t, idw st) | None \<Rightarrow> leaf None (idw st)) = (nxt, w)" by fastforce
  have "i \<notin> set (leaf_ids nxt)" if i: "i \<in> set (leaf_ids (ls_root st))"
  proof (cases "removeNode (ls_root st) i")
    case None
    have "i \<in> set (node_ids (ls_root st))" using i by (simp add: set_node_ids)
    moreover have "fst (newPaneId (idw st)) \<notin> set (node_ids (ls_root st))"
      using ids_fresh_next(1) [OF inv(3)] by (metis prod.collapse)
    ultimately have "fst (newPaneId (idw st)) \<noteq> i" by blast
    with None nxt show ?thesis by (auto simp: leaf_eq)
  next
    case (Some t)
    have "i \<notin> set (split_ids (ls_root st))" using i wf_disjoint [OF inv(2)] by blast
    from leaves_removeNode [OF inv(2) this] Some nxt show ?thesis by auto
  qed
  with nxt inv(1) show ?thesis
    by (simp add: closePane_def Let_def findLeaf_None firstLeafId_eq)
qed

theorem closePane_focus_witness:
  "focusedPaneId (closePane ''p2'' demo_layout) = ''p1''"
  using closePane_focus [OF demo_layout_inv, of "''p2''"]
  by (simp add: closePane_def demo_layout_def demo_tree_def removeNode_Split Let_def)

text \<open>
  Selecting a session that is already shown focuses a pane that shows it and reports
  success; selecting one that is not shown reports failure and changes nothing.
\<close>

theorem focusSession_found:
  assumes "layout_inv st" and "[] \<notin> set (leaf_ids (ls_root st))"
  shows "case focusSession s st of (ok, st') \<Rightarrow>
     ok = (s \<in> placed st) \<and> ls_root st' = ls_root st
     \<and> (if ok then (focusedPaneId st', Some s) \<in> set (leaves (ls_root st)) else st' = st)"
proof -
  have inv: "rootRef st = ls_root st" "placed st = set (placed_list (leaves (ls_root st)))"
    using assms(1) by (auto simp: layout_inv_def placedSessionIds_eq)
  show ?thesis
    using focus_walk_cases [of s "ls_root st" "[]"] assms(2)
    by (auto simp: focusSession_def Let_def inv set_placed_list image_iff)
qed

theorem focusSession_found_witness:
  "fst (focusSession ''t3'' demo_layout) \<and> focusedPaneId (snd (focusSession ''t3'' demo_layout)) = ''p3''"
  using focusSession_found [OF demo_layout_inv, of "''t3''"]
  by (simp add: demo_layout_def demo_tree_def focusSession_def Let_def)

text \<open>
  C21. Whatever the layout is, the blob it is saved as reads back as the same tree, up to a
  ratio that is not a finite number, which comes back as the default.
\<close>

theorem layout_roundtrip:
  "parseLayout (layout_json t) = Some (json_tree t)
   \<and> leaves (json_tree t) = leaves t \<and> node_ids (json_tree t) = node_ids t"
  by (simp add: parseLayout_layout_json)



text \<open>
  Without that condition the two part: a split made before the saved layout arrives is
  dropped from the screen when it arrives, yet its pending save still fires and overwrites
  the saved layout on the server with the dropped tree.
\<close>

theorem restore_race_overwrites:
  "let st = run layout_step (useLayout_init demo_world (Some (layout_json demo_tree)))
       [SetAuthed True, SplitPane (world_id demo_world 0) DirH,
        LayoutFetched 0 (Some (Some (layout_json demo_tree))), SaveTimerFires True] in
   leaves (ls_root st) = leaves demo_tree \<and> saveTimer st = None
   \<and> \<not> reads_back (server st) (ls_root st)"
proof -
  have "json_tree t \<noteq> json_tree demo_tree" if "snd (hd (leaves t)) = None" for t
  proof
    assume "json_tree t = json_tree demo_tree"
    then have "leaves t = leaves demo_tree" by (metis json_tree_observers(1))
    with that show False by (simp add: demo_tree_def)
  qed
  then show ?thesis
    by (simp add: Let_def useLayout_init_def leaf_eq world_id_0 set_authed_def split_pane_def
        splitLeaf_single layout_fetched_def parseLayout_layout_json save_timer_fires_def
        commit_def persist_def del: layout_json.simps json_tree.simps)
qed

end
