(* ===== verification/Confirm.thy ===== *)
theory Confirm
  imports Prelude
begin

text \<open>
  \<^verbatim>\<open>components/ConfirmDialog.tsx\<close>: the hook \<open>useConfirm\<close>. A promise is a number; \<open>settled\<close> logs
  which promise was resolved with what, in order. The interface \<open>asker\<close> says what a caller of
  \<open>confirm\<close> can rely on.
\<close>

record ConfirmOptions =
  co_title :: string
  co_message :: string
  co_confirmLabel :: "string option"
  co_cancelLabel :: "string option"
  co_danger :: bool

record confirm_state =
  dialog :: "ConfirmOptions option"
  resolveRef :: "nat option"
  next_promise :: nat
  settled :: "(nat \<times> bool) list"

definition useConfirm :: confirm_state where
  "useConfirm = \<lparr>dialog = None, resolveRef = None, next_promise = 0, settled = []\<rparr>"

definition resolve_current :: "bool \<Rightarrow> confirm_state \<Rightarrow> confirm_state" where
  "resolve_current ok c =
     (case resolveRef c of None \<Rightarrow> c
      | Some p \<Rightarrow> c\<lparr>settled := settled c @ [(p, ok)]\<rparr>)"

definition settle :: "bool \<Rightarrow> confirm_state \<Rightarrow> confirm_state" where
  "settle ok c = (resolve_current ok c)\<lparr>resolveRef := None, dialog := None\<rparr>"

definition confirm :: "ConfirmOptions \<Rightarrow> confirm_state \<Rightarrow> nat \<times> confirm_state" where
  "confirm opts c =
     (let c1 = resolve_current False c; p = next_promise c1
      in (p, c1\<lparr>resolveRef := Some p, dialog := Some opts, next_promise := Suc p\<rparr>))"

datatype confirm_event = Ask ConfirmOptions | Answer bool

fun confirm_step :: "confirm_state \<Rightarrow> confirm_event \<Rightarrow> confirm_state" where
  "confirm_step c (Ask opts) = snd (confirm opts c)"
| "confirm_step c (Answer ok) = settle ok c"

text \<open>Every promise but the one the dialog is open for is settled, and exactly once.\<close>

definition confirm_inv :: "confirm_state \<Rightarrow> bool" where
  "confirm_inv c =
     (distinct (map fst (settled c))
      \<and> set (map fst (settled c)) = {p. p < next_promise c \<and> resolveRef c \<noteq> Some p}
      \<and> (\<forall>p. resolveRef c = Some p \<longrightarrow> p < next_promise c)
      \<and> (dialog c \<noteq> None) = (resolveRef c \<noteq> None))"

lemmas confirm_defs = confirm_def settle_def resolve_current_def Let_def

lemma confirm_inv_init: "confirm_inv useConfirm"
  by (simp add: confirm_inv_def useConfirm_def)

lemma confirm_inv_settle: "confirm_inv c \<Longrightarrow> confirm_inv (settle ok c)"
  by (auto simp: confirm_inv_def confirm_defs split: option.splits)

lemma confirm_inv_confirm: "confirm_inv c \<Longrightarrow> confirm_inv (snd (confirm opts c))"
  by (auto simp: confirm_inv_def confirm_defs split: option.splits)

lemma confirm_inv_step: "confirm_inv c \<Longrightarrow> True \<Longrightarrow> confirm_inv (confirm_step c e)"
  by (cases e) (simp_all add: confirm_inv_settle confirm_inv_confirm)

interpretation confirm_run: machine_inv confirm_step "\<lambda>c e. True" confirm_inv
  by unfold_locales (rule confirm_inv_step)

section \<open>The interface of a confirmation service\<close>

locale asker =
  fixes ask :: "'o \<Rightarrow> 'c \<Rightarrow> nat \<times> 'c"
    and answer :: "bool \<Rightarrow> 'c \<Rightarrow> 'c"
    and answers :: "'c \<Rightarrow> (nat \<times> bool) list"
    and inv :: "'c \<Rightarrow> bool"
  assumes ask_inv: "inv c \<Longrightarrow> inv (snd (ask q c))"
    and answer_inv: "inv c \<Longrightarrow> inv (answer b c)"
    and ask_fresh: "inv c \<Longrightarrow> fst (ask q c) \<notin> fst ` set (answers (snd (ask q c)))"
    and ask_extends: "\<exists>new. answers (snd (ask q c)) = answers c @ new \<and> (\<forall>x \<in> set new. \<not> snd x)"
    and answer_extends: "\<exists>new. answers (answer b c) = answers c @ new \<and> (\<forall>x \<in> set new. snd x = b)"
    and once: "inv c \<Longrightarrow> distinct (map fst (answers c))"
begin

text \<open>Asking never says yes to an earlier question, and a given answer stays.\<close>

lemma ask_no_yes: "(p, True) \<in> set (answers (snd (ask q c))) \<Longrightarrow> (p, True) \<in> set (answers c)"
  using ask_extends [of q c] by fastforce

lemma answer_false_no_yes: "(p, True) \<in> set (answers (answer False c)) \<Longrightarrow> (p, True) \<in> set (answers c)"
  using answer_extends [of False c] by fastforce

lemma yes_stays:
  "(p, b) \<in> set (answers c) \<Longrightarrow> (p, b) \<in> set (answers (snd (ask q c)))"
  "(p, b) \<in> set (answers c) \<Longrightarrow> (p, b) \<in> set (answers (answer d c))"
  using ask_extends [of q c] answer_extends [of d c] by auto

lemma one_answer: "inv c \<Longrightarrow> (p, a) \<in> set (answers c) \<Longrightarrow> (p, b) \<in> set (answers c) \<Longrightarrow> a = b"
  using once [of c] by (rule eq_key_imp_eq_value)

end

interpretation conf: asker confirm settle settled confirm_inv
proof
  fix c :: confirm_state and q b
  show "confirm_inv c \<Longrightarrow> fst (confirm q c) \<notin> fst ` set (settled (snd (confirm q c)))"
    by (auto simp: confirm_inv_def confirm_defs split: option.splits)
  show "\<exists>new. settled (snd (confirm q c)) = settled c @ new \<and> (\<forall>x \<in> set new. \<not> snd x)"
    by (simp add: confirm_defs split: option.split)
  show "\<exists>new. settled (settle b c) = settled c @ new \<and> (\<forall>x \<in> set new. snd x = b)"
    by (simp add: confirm_defs split: option.split)
qed (auto simp: confirm_inv_settle confirm_inv_confirm, simp add: confirm_inv_def)

text \<open>
  Each confirmation is answered at most once and none is forgotten: after any sequence of
  questions and answers every promise handed out is resolved exactly once, except the one the
  dialog is open for; the dialog is open exactly while there is one. A second question
  answers the first with no.
\<close>

theorem confirm_once:
  "let c = run confirm_step useConfirm es in
     distinct (map fst (settled c))
     \<and> fst ` set (settled c) = {p. p < next_promise c \<and> resolveRef c \<noteq> Some p}
     \<and> (dialog c \<noteq> None) = (resolveRef c \<noteq> None)
     \<and> (case resolveRef c of None \<Rightarrow> True
          | Some p \<Rightarrow> (p, False) \<in> set (settled (snd (confirm q c))))"
proof -
  have "confirm_inv (run confirm_step useConfirm es)"
    by (rule confirm_run.run_inv) (simp_all add: confirm_inv_init run_ok_trivial)
  then show ?thesis by (auto simp: Let_def confirm_inv_def confirm_defs split: option.split)
qed

end
