(* ===== verification/Toasts.thy ===== *)
theory Toasts
  imports Prelude
begin

text \<open>
  The short messages of \<^verbatim>\<open>App.tsx\<close>: \<open>notify\<close> puts a toast with a new id on the screen and the
  effect on \<open>toast\<close> keeps one timer, cleared when the toast is replaced. The clock is the
  browser's; a timer may fire late but not early.
\<close>

datatype ToastKind = Info | Success | Error

definition TOAST_DISMISS_MS :: nat where "TOAST_DISMISS_MS = 2600"

record Toast =
  toast_id :: nat
  toast_msg :: string
  toast_kind :: ToastKind

record toast_state =
  toast :: "Toast option"
  toastId :: nat
  toast_timers :: "(nat \<times> nat) list"    \<comment> \<open>timer id, the time it is due\<close>
  toast_timer :: "nat option"             \<comment> \<open>the timer the pending cleanup would clear\<close>
  next_toast_timer :: nat
  clock :: nat
  toast_since :: nat                       \<comment> \<open>when the toast on the screen appeared\<close>

definition toast_init :: toast_state where
  "toast_init = \<lparr>toast = None, toastId = 0, toast_timers = [], toast_timer = None, next_toast_timer = 0,
     clock = 0, toast_since = 0\<rparr>"

text \<open>The cleanup of the last run of the effect, then the effect.\<close>

definition toast_effect :: "toast_state \<Rightarrow> toast_state" where
  "toast_effect s =
     (let s1 = (case toast_timer s of None \<Rightarrow> s
                | Some k \<Rightarrow> s\<lparr>toast_timers := filter (\<lambda>t. fst t \<noteq> k) (toast_timers s), toast_timer := None\<rparr>)
      in case toast s1 of None \<Rightarrow> s1
         | Some x \<Rightarrow> s1\<lparr>toast_timers := toast_timers s1 @ [(next_toast_timer s1, clock s1 + TOAST_DISMISS_MS)],
                        toast_timer := Some (next_toast_timer s1), next_toast_timer := Suc (next_toast_timer s1)\<rparr>)"

definition show_toast :: "string \<Rightarrow> ToastKind \<Rightarrow> toast_state \<Rightarrow> toast_state" where
  "show_toast msg kind s =
     toast_effect (s\<lparr>toastId := Suc (toastId s), toast_since := clock s,
       toast := Some \<lparr>toast_id = Suc (toastId s), toast_msg = msg, toast_kind = kind\<rparr>\<rparr>)"

datatype toast_event = Notify string ToastKind | Elapse nat | ToastTimer nat

fun toast_step :: "toast_state \<Rightarrow> toast_event \<Rightarrow> toast_state" where
  "toast_step s (Notify msg kind) = show_toast msg kind s"
| "toast_step s (Elapse ms) = s\<lparr>clock := clock s + ms\<rparr>"
| "toast_step s (ToastTimer k) =
     (case map_of (toast_timers s) k of None \<Rightarrow> s
      | Some due \<Rightarrow>
          if clock s < due then s
          else toast_effect (s\<lparr>toast_timers := filter (\<lambda>t. fst t \<noteq> k) (toast_timers s), toast := None\<rparr>))"

text \<open>Exactly one timer is pending while a toast is shown, none otherwise.\<close>

definition toast_inv :: "toast_state \<Rightarrow> bool" where
  "toast_inv s =
     (case toast s of
        None \<Rightarrow> toast_timers s = [] \<and> toast_timer s = None
      | Some x \<Rightarrow> toast_id x = toastId s
          \<and> (\<exists>k. toast_timers s = [(k, toast_since s + TOAST_DISMISS_MS)] \<and> toast_timer s = Some k)
          \<and> toast_since s \<le> clock s)"

lemma toast_inv_init: "toast_inv toast_init"
  by (simp add: toast_inv_def toast_init_def)

lemma toast_inv_show: "toast_inv s \<Longrightarrow> toast_inv (show_toast msg kind s)"
  by (auto simp: toast_inv_def show_toast_def toast_effect_def Let_def split: option.splits)

lemma toast_inv_step: "toast_inv s \<Longrightarrow> True \<Longrightarrow> toast_inv (toast_step s e)"
proof (cases e)
  case (ToastTimer k)
  assume "toast_inv s"
  with ToastTimer show ?thesis
    by (cases "toast s") (auto simp: toast_inv_def toast_effect_def Let_def)
qed (auto simp: toast_inv_show, auto simp: toast_inv_def split: option.splits)

interpretation toast_run: machine_inv toast_step "\<lambda>s e. True" toast_inv
  by unfold_locales (rule toast_inv_step)

text \<open>
  A message stays for its time: whatever is notified and however late timers fire, a toast
  leaves the screen only because a newer one takes its place or because 2600 ms have passed
  since it appeared; while it is shown one timer is pending, set for exactly that moment, and
  with no toast there is no timer.
\<close>

theorem toast_lifetime:
  "let s = run toast_step toast_init es; s' = toast_step s e in
     case toast s of
       None \<Rightarrow> toast_timers s = []
     | Some x \<Rightarrow> map snd (toast_timers s) = [toast_since s + TOAST_DISMISS_MS]
         \<and> (if toast s' = Some x then True
            else if toast s' = None then toast_since s + TOAST_DISMISS_MS \<le> clock s
            else \<exists>msg kind. e = Notify msg kind
                   \<and> toast s' = Some \<lparr>toast_id = Suc (toast_id x), toast_msg = msg, toast_kind = kind\<rparr>)"
proof -
  let ?s = "run toast_step toast_init es"
  have inv: "toast_inv ?s"
    by (rule toast_run.run_inv) (simp_all add: toast_inv_init run_ok_trivial)
  show ?thesis
  proof (cases "toast ?s")
    case None
    with inv show ?thesis by (simp add: toast_inv_def)
  next
    case (Some x)
    with inv show ?thesis
      by (cases e) (auto simp: toast_inv_def show_toast_def toast_effect_def Let_def split: if_splits)
  qed
qed

end
