(* ===== verification/Hub.thy ===== *)
theory Hub
  imports Layout Confirm UrlApi Toasts
begin

text \<open>
  The application shell: \<^verbatim>\<open>features/workspace/useWorkspaces.ts\<close>, the session handlers of
  \<^verbatim>\<open>App.tsx\<close>, \<open>commitRename\<close> of \<^verbatim>\<open>components/SessionTree.tsx\<close> and the choices of
  \<^verbatim>\<open>SessionPicker.tsx\<close>. The state joins the workspaces with the layout (\<open>Layout\<close>) and the
  confirmation dialog (\<open>Confirm\<close>). An asynchronous handler is split at its awaits: what it
  captured is a \<open>task\<close>, and the answer of the server is an event that may come at any later
  time, in any order. Messages are the keys given to \<open>t\<close>.
\<close>

section \<open>Data\<close>

record Terminal =
  tm_id :: string
  tm_name :: string
  tmuxSession :: string

record Workspace =
  ws_id :: string
  ws_name :: string
  ws_path :: string
  terminals :: "Terminal list"

record SessionRef =
  sr_wsId :: string
  sr_tmId :: string
  sr_name :: string
  sr_path :: string

datatype task =
    LoadTask
  | AddTask Workspace string              \<comment> \<open>workspace, pane focused at the call\<close>
  | CreateInPaneTask string string        \<comment> \<open>pane, workspace id\<close>
  | DeleteWsTask nat Workspace            \<comment> \<open>promise of the confirmation, workspace\<close>
  | DeleteTmTask nat Workspace Terminal
  | RenameWsTask Workspace string
  | RenameTmTask Workspace Terminal string
  | LogoutTask

datatype question = DeleteWs Workspace | DeleteTm Workspace Terminal

datatype outcome = Failed | GotNothing | GotWorkspaces "Workspace list" | GotTerminal Terminal | GotWorkspace Workspace

record hub =
  workspaces :: "Workspace list"
  expanded :: "string set"
  lay :: layout_state
  conf :: confirm_state
  waiters :: "(nat \<times> question) list"     \<comment> \<open>promise, what waits for it\<close>
  tasks :: "(nat \<times> task) list"
  next_task :: nat
  notices :: "(string \<times> ToastKind) list"
  sidebarCollapsed :: bool

section \<open>Derived data\<close>

definition set_session :: "Workspace \<Rightarrow> Terminal \<Rightarrow> (string \<rightharpoonup> SessionRef) \<Rightarrow> (string \<rightharpoonup> SessionRef)" where
  "set_session w tm m =
     m(tm_id tm \<mapsto> \<lparr>sr_wsId = ws_id w, sr_tmId = tm_id tm, sr_name = tm_name tm, sr_path = ws_path w\<rparr>)"

definition sessions_of :: "Workspace list \<Rightarrow> (string \<rightharpoonup> SessionRef)" where
  "sessions_of wss = fold (\<lambda>w m. fold (set_session w) (terminals w) m) wss Map.empty"

text \<open>\<^verbatim>\<open>SessionPicker.tsx\<close>: the terminals it offers, and the workspace it creates in.\<close>

definition available :: "string set \<Rightarrow> Workspace list \<Rightarrow> (Workspace \<times> Terminal list) list" where
  "available pl wss =
     filter (\<lambda>g. length (snd g) > 0)
       (map (\<lambda>w. (w, filter (\<lambda>tm. tm_id tm \<notin> pl) (terminals w))) wss)"

definition effectiveNewWsId :: "string \<Rightarrow> Workspace list \<Rightarrow> string" where
  "effectiveNewWsId newWsId wss =
     (if length newWsId > 0 then newWsId else case wss of [] \<Rightarrow> [] | w # _ \<Rightarrow> ws_id w)"

section \<open>Updates of the workspace list\<close>

definition add_terminal :: "string \<Rightarrow> Terminal \<Rightarrow> Workspace list \<Rightarrow> Workspace list" where
  "add_terminal i tm = map (\<lambda>w. if ws_id w = i then w\<lparr>terminals := terminals w @ [tm]\<rparr> else w)"

definition remove_terminal :: "string \<Rightarrow> string \<Rightarrow> Workspace list \<Rightarrow> Workspace list" where
  "remove_terminal i t =
     map (\<lambda>w. if ws_id w = i then w\<lparr>terminals := filter (\<lambda>x. tm_id x \<noteq> t) (terminals w)\<rparr> else w)"

definition remove_workspace :: "string \<Rightarrow> Workspace list \<Rightarrow> Workspace list" where
  "remove_workspace i = filter (\<lambda>w. ws_id w \<noteq> i)"

definition replace_workspace :: "Workspace \<Rightarrow> Workspace list \<Rightarrow> Workspace list" where
  "replace_workspace u = map (\<lambda>w. if ws_id w = ws_id u then u else w)"

definition replace_terminal :: "string \<Rightarrow> Terminal \<Rightarrow> Workspace list \<Rightarrow> Workspace list" where
  "replace_terminal i u =
     map (\<lambda>w. if ws_id w = i
               then w\<lparr>terminals := map (\<lambda>x. if tm_id x = tm_id u then u else x) (terminals w)\<rparr> else w)"

section \<open>Handlers, up to their first await\<close>

definition notify :: "string \<Rightarrow> ToastKind \<Rightarrow> hub \<Rightarrow> hub" where
  "notify msg kind h = h\<lparr>notices := notices h @ [(msg, kind)]\<rparr>"

definition start_task :: "task \<Rightarrow> hub \<Rightarrow> hub" where
  "start_task k h = h\<lparr>tasks := tasks h @ [(next_task h, k)], next_task := Suc (next_task h)\<rparr>"

definition toggleExpanded :: "string \<Rightarrow> hub \<Rightarrow> hub" where
  "toggleExpanded i h = h\<lparr>expanded := (if i \<in> expanded h then expanded h - {i} else insert i (expanded h))\<rparr>"

definition handleAddTerminal :: "Workspace \<Rightarrow> hub \<Rightarrow> hub" where
  "handleAddTerminal w h = start_task (AddTask w (focusedPaneId (lay h))) h"

definition createTerminalInPane :: "string \<Rightarrow> string \<Rightarrow> hub \<Rightarrow> hub" where
  "createTerminalInPane paneId wsId h = start_task (CreateInPaneTask paneId wsId) h"

definition delete_options :: "string \<Rightarrow> string \<Rightarrow> ConfirmOptions" where
  "delete_options title msg =
     \<lparr>co_title = title, co_message = msg, co_confirmLabel = Some title, co_cancelLabel = None, co_danger = True\<rparr>"

fun question_options :: "question \<Rightarrow> ConfirmOptions" where
  "question_options (DeleteWs w) = delete_options ''sidebar.ws.delete'' (''sidebar.confirmDeleteWs:'' @ ws_name w)"
| "question_options (DeleteTm w tm) = delete_options ''sidebar.tm.delete'' (''sidebar.confirmDeleteTm:'' @ tm_name tm)"

fun question_task :: "nat \<Rightarrow> question \<Rightarrow> task" where
  "question_task p (DeleteWs w) = DeleteWsTask p w"
| "question_task p (DeleteTm w tm) = DeleteTmTask p w tm"

text \<open>When a promise is resolved, what waits for it goes on (or returns, after a no).\<close>

definition wake :: "nat \<times> bool \<Rightarrow> hub \<Rightarrow> hub" where
  "wake r h =
     (let h1 = h\<lparr>waiters := filter (\<lambda>w. fst w \<noteq> fst r) (waiters h)\<rparr> in
      case map_of (waiters h) (fst r) of
        Some q \<Rightarrow> if snd r then start_task (question_task (fst r) q) h1 else h1
      | None \<Rightarrow> h1)"

definition ask_user :: "question \<Rightarrow> hub \<Rightarrow> hub" where
  "ask_user q h =
     (let (p, c) = confirm (question_options q) (conf h);
          new = drop (length (settled (conf h))) (settled c)
      in (fold wake new (h\<lparr>conf := c\<rparr>))\<lparr>waiters := waiters (fold wake new (h\<lparr>conf := c\<rparr>)) @ [(p, q)]\<rparr>)"

definition answer_user :: "bool \<Rightarrow> hub \<Rightarrow> hub" where
  "answer_user ok h =
     (let c = settle ok (conf h)
      in fold wake (drop (length (settled (conf h))) (settled c)) (h\<lparr>conf := c\<rparr>))"

datatype rename_target = RenameWorkspace string | RenameTerminal string string

definition commitRename :: "rename_target \<Rightarrow> string \<Rightarrow> hub \<Rightarrow> hub" where
  "commitRename target val h =
     (let name = js_trim val;
          wsId = (case target of RenameWorkspace w \<Rightarrow> w | RenameTerminal w t \<Rightarrow> w)
      in if length name = 0 then h
         else case find (\<lambda>w. ws_id w = wsId) (workspaces h) of
           None \<Rightarrow> h
         | Some w \<Rightarrow>
             (case target of
                RenameWorkspace i \<Rightarrow> if name = ws_name w then h else start_task (RenameWsTask w name) h
              | RenameTerminal i t \<Rightarrow>
                  (case find (\<lambda>x. tm_id x = t) (terminals w) of
                     None \<Rightarrow> h
                   | Some tm \<Rightarrow> if name = tm_name tm then h else start_task (RenameTmTask w tm name) h)))"

definition selectTerminal :: "bool \<Rightarrow> Workspace \<Rightarrow> Terminal \<Rightarrow> hub \<Rightarrow> hub" where
  "selectTerminal mobile w tm h =
     (let h1 = h\<lparr>expanded := insert (ws_id w) (expanded h)\<rparr>;
          h2 = (if mobile then h1\<lparr>sidebarCollapsed := True\<rparr> else h1);
          (found, l) = focusSession (tm_id tm) (lay h2)
      in h2\<lparr>lay := (if found then l else assignSession (focusedPaneId l) (tm_id tm) l)\<rparr>)"

definition wizard_created :: "Workspace \<Rightarrow> hub \<Rightarrow> hub" where
  "wizard_created w h =
     notify ''toast.workspaceAdded'' Success
       (h\<lparr>workspaces := workspaces h @ [w], expanded := insert (ws_id w) (expanded h)\<rparr>)"

definition authenticated :: "hub \<Rightarrow> hub" where
  "authenticated h = start_task LoadTask (h\<lparr>lay := set_authed True (lay h)\<rparr>)"

section \<open>Handlers, after their awaits\<close>

definition unplace_all :: "Terminal list \<Rightarrow> layout_state \<Rightarrow> layout_state" where
  "unplace_all tms l = fold (\<lambda>tm. unplaceSession (tm_id tm)) tms l"

text \<open>The \<open>finally\<close> of \<open>handleLogout\<close>: it runs whether or not the request succeeds.\<close>

definition logged_out :: "hub \<Rightarrow> hub" where
  "logged_out h = h\<lparr>lay := set_authed False (lay h), workspaces := [], expanded := {}\<rparr>"

declare logged_out_def [simp]

fun finish :: "task \<Rightarrow> outcome \<Rightarrow> hub \<Rightarrow> hub" where
  "finish LoadTask res h =
     (case res of GotWorkspaces wss \<Rightarrow> h\<lparr>workspaces := wss\<rparr> | _ \<Rightarrow> h)"
| "finish (AddTask w paneId) res h =
     (case res of
        GotTerminal tm \<Rightarrow>
          notify ''toast.terminalAdded'' Success
            (h\<lparr>workspaces := add_terminal (ws_id w) tm (workspaces h), expanded := insert (ws_id w) (expanded h),
               lay := assignSession paneId (tm_id tm) (lay h)\<rparr>)
      | _ \<Rightarrow> notify ''toast.error'' Error h)"
| "finish (CreateInPaneTask paneId wsId) res h =
     (case res of
        GotTerminal tm \<Rightarrow>
          (let h1 = h\<lparr>workspaces := add_terminal wsId tm (workspaces h)\<rparr>;
               h2 = (if hasPane paneId (lay h1) then h1\<lparr>lay := assignSession paneId (tm_id tm) (lay h1)\<rparr> else h1)
           in notify ''toast.terminalAdded'' Success h2)
      | _ \<Rightarrow> notify ''toast.error'' Error h)"
| "finish (DeleteWsTask p w) res h =
     (case res of
        GotNothing \<Rightarrow>
          notify ''toast.workspaceDeleted'' Success
            (h\<lparr>lay := unplace_all (terminals w) (lay h), workspaces := remove_workspace (ws_id w) (workspaces h)\<rparr>)
      | _ \<Rightarrow> notify ''toast.error'' Error h)"
| "finish (DeleteTmTask p w tm) res h =
     (case res of
        GotNothing \<Rightarrow>
          notify ''toast.terminalDeleted'' Success
            (h\<lparr>workspaces := remove_terminal (ws_id w) (tm_id tm) (workspaces h),
               lay := unplaceSession (tm_id tm) (lay h)\<rparr>)
      | _ \<Rightarrow> notify ''toast.error'' Error h)"
| "finish (RenameWsTask w name) res h =
     (case res of
        GotWorkspace u \<Rightarrow>
          notify ''toast.workspaceRenamed'' Success (h\<lparr>workspaces := replace_workspace u (workspaces h)\<rparr>)
      | _ \<Rightarrow> notify ''toast.error'' Error h)"
| "finish (RenameTmTask w tm name) res h =
     (case res of
        GotTerminal u \<Rightarrow>
          notify ''toast.terminalRenamed'' Success
            (h\<lparr>workspaces := replace_terminal (ws_id w) u (workspaces h)\<rparr>)
      | _ \<Rightarrow> notify ''toast.error'' Error h)"
| "finish LogoutTask res h = logged_out h"

text \<open>The request a task has sent; the identifiers are those captured at its start.\<close>

fun task_call :: "fetcher \<Rightarrow> task \<Rightarrow> api_error + json" where
  "task_call fetch LoadTask = listWorkspaces fetch"
| "task_call fetch (AddTask w paneId) = createTerminal fetch (ws_id w) []"
| "task_call fetch (CreateInPaneTask paneId wsId) = createTerminal fetch wsId []"
| "task_call fetch (DeleteWsTask p w) = map_sum id (\<lambda>u. JNull) (deleteWorkspace fetch (ws_id w))"
| "task_call fetch (DeleteTmTask p w tm) = map_sum id (\<lambda>u. JNull) (deleteTerminal fetch (ws_id w) (tm_id tm))"
| "task_call fetch (RenameWsTask w name) = renameWorkspace fetch (ws_id w) name"
| "task_call fetch (RenameTmTask w tm name) = renameTerminal fetch (ws_id w) (tm_id tm) name"
| "task_call fetch LogoutTask = map_sum id (\<lambda>u. JNull) (logout fetch)"

section \<open>Events\<close>

datatype hub_event =
    Authenticated                        \<comment> \<open>a successful check or login\<close>
  | Logout
  | Done nat outcome                     \<comment> \<open>the answer to a task\<close>
  | ToggleExpanded string
  | AddTerminal Workspace
  | CreateInPane string string
  | AskDelete question
  | AnswerDialog bool
  | CommitRename rename_target string
  | SelectTerminal bool Workspace Terminal
  | WizardCreated Workspace
  | OnLayout layout_event                \<comment> \<open>a pane's action, the save timer, the restored layout\<close>

definition finish_task :: "nat \<Rightarrow> outcome \<Rightarrow> hub \<Rightarrow> hub" where
  "finish_task k res h =
     (case map_of (tasks h) k of None \<Rightarrow> h
      | Some task \<Rightarrow> finish task res (h\<lparr>tasks := filter (\<lambda>t. fst t \<noteq> k) (tasks h)\<rparr>))"

fun hub_step :: "hub \<Rightarrow> hub_event \<Rightarrow> hub" where
  "hub_step h Authenticated = authenticated h"
| "hub_step h Logout = start_task LogoutTask h"
| "hub_step h (Done k res) = finish_task k res h"
| "hub_step h (ToggleExpanded i) = toggleExpanded i h"
| "hub_step h (AddTerminal w) = handleAddTerminal w h"
| "hub_step h (CreateInPane p w) = createTerminalInPane p w h"
| "hub_step h (AskDelete q) = ask_user q h"
| "hub_step h (AnswerDialog ok) = answer_user ok h"
| "hub_step h (CommitRename target val) = commitRename target val h"
| "hub_step h (SelectTerminal mobile w tm) = selectTerminal mobile w tm h"
| "hub_step h (WizardCreated w) = wizard_created w h"
| "hub_step h (OnLayout e) = h\<lparr>lay := layout_step (lay h) e\<rparr>"

definition hub_init :: "id_world \<Rightarrow> json option \<Rightarrow> bool \<Rightarrow> hub" where
  "hub_init w srv mobile =
     \<lparr>workspaces = [], expanded = {}, lay = useLayout_init w srv, conf = useConfirm, waiters = [],
      tasks = [], next_task = 0, notices = [], sidebarCollapsed = mobile\<rparr>"

section \<open>The layout stays well-formed\<close>

definition hub_ok :: "hub \<Rightarrow> hub_event \<Rightarrow> bool" where
  "hub_ok h e = (case e of OnLayout l \<Rightarrow> layout_ok (lay h) l | _ \<Rightarrow> True)"

lemma task_fields [simp]:
  "lay (start_task k h) = lay h" "lay (notify m d h) = lay h" "conf (start_task k h) = conf h"
  "workspaces (start_task k h) = workspaces h" "workspaces (notify m d h) = workspaces h"
  "conf (notify m d h) = conf h" "waiters (start_task k h) = waiters h" "waiters (notify m d h) = waiters h"
  "tasks (notify m d h) = tasks h" "tasks (start_task k h) = tasks h @ [(next_task h, k)]"
  by (simp_all add: start_task_def notify_def)

lemma wake_fields [simp]:
  "lay (wake r h) = lay h" "conf (wake r h) = conf h" "workspaces (wake r h) = workspaces h"
  by (auto simp: wake_def Let_def split: option.split question.split)

lemma wakes_fields [simp]:
  "lay (fold wake rs h) = lay h" "conf (fold wake rs h) = conf h" "workspaces (fold wake rs h) = workspaces h"
  by (induction rs arbitrary: h) auto

lemma layout_step_inv:
  assumes "layout_inv l"
  shows "layout_inv (assignSession i t l)" and "layout_inv (unplaceSession t l)"
    and "layout_inv (snd (focusSession t l))" and "layout_inv (set_authed b l)"
  using layout_inv_step [OF assms, of "AssignSession i t"] layout_inv_step [OF assms, of "UnplaceSession t"]
    layout_inv_step [OF assms, of "FocusSession t"] layout_inv_step [OF assms, of "SetAuthed b"] by simp_all

lemma unplace_all_inv: "layout_inv l \<Longrightarrow> layout_inv (unplace_all tms l)"
  unfolding unplace_all_def by (induction tms arbitrary: l) (auto simp: layout_step_inv)

lemma finish_layout_inv: "layout_inv (lay h) \<Longrightarrow> layout_inv (lay (finish task res h))"
  by (cases task) (auto simp: layout_step_inv unplace_all_inv Let_def split: outcome.split)

lemma hub_layout_inv:
  assumes "layout_inv (lay h)" and "hub_ok h e"
  shows "layout_inv (lay (hub_step h e))"
proof (cases e)
  case Authenticated
  with assms show ?thesis by (simp add: authenticated_def layout_step_inv)
next
  case (Done k res)
  with assms show ?thesis by (simp add: finish_task_def finish_layout_inv split: option.split)
next
  case (SelectTerminal mobile w tm)
  obtain found l where fs: "focusSession (tm_id tm) (lay h) = (found, l)" by fastforce
  with layout_step_inv(3) [OF assms(1), of "tm_id tm"] have "layout_inv l" by simp
  with SelectTerminal fs show ?thesis
    by (cases mobile; cases found) (simp_all add: selectTerminal_def Let_def layout_step_inv)
next
  case (OnLayout l)
  with assms show ?thesis by (simp add: hub_ok_def layout_inv_step)
next
  case (CommitRename target val)
  with assms show ?thesis
    by (auto simp: commitRename_def Let_def split: option.split rename_target.split)
qed (use assms in \<open>auto simp: toggleExpanded_def handleAddTerminal_def createTerminalInPane_def
    ask_user_def answer_user_def wizard_created_def Let_def split: prod.split\<close>)

interpretation hub_run: machine_inv hub_step hub_ok "\<lambda>h. layout_inv (lay h)"
  by unfold_locales (rule hub_layout_inv)


section \<open>Questions\<close>

text \<open>What waits for an answer is exactly what the open dialog asks.\<close>

definition dialog_inv :: "hub \<Rightarrow> bool" where
  "dialog_inv h =
     (confirm_inv (conf h)
      \<and> (case resolveRef (conf h) of
           None \<Rightarrow> waiters h = []
         | Some p \<Rightarrow> \<exists>q. waiters h = [(p, q)] \<and> dialog (conf h) = Some (question_options q)))"

definition deletions :: "hub \<Rightarrow> task list" where
  "deletions h = filter (\<lambda>k. case k of DeleteWsTask p w \<Rightarrow> True | DeleteTmTask p w tm \<Rightarrow> True | _ \<Rightarrow> False)
     (map snd (tasks h))"

lemma finish_frame [simp]:
  "conf (finish k res h) = conf h" "waiters (finish k res h) = waiters h" "tasks (finish k res h) = tasks h"
  by (cases k; cases res; simp add: Let_def)+

lemma select_frame [simp]:
  "conf (selectTerminal m w tm h) = conf h" "waiters (selectTerminal m w tm h) = waiters h"
  "tasks (selectTerminal m w tm h) = tasks h"
  by (auto simp: selectTerminal_def Let_def split: prod.split)

lemma commit_frame [simp]:
  "conf (commitRename t v h) = conf h" "waiters (commitRename t v h) = waiters h"
  by (auto simp: commitRename_def Let_def split: option.split rename_target.split)

lemma other_frame [simp]:
  "conf (authenticated h) = conf h" "waiters (authenticated h) = waiters h"
  "conf (wizard_created w h) = conf h" "waiters (wizard_created w h) = waiters h"
  "conf (toggleExpanded i h) = conf h" "waiters (toggleExpanded i h) = waiters h"
  "conf (finish_task k res h) = conf h" "waiters (finish_task k res h) = waiters h"
  by (simp_all add: authenticated_def wizard_created_def toggleExpanded_def finish_task_def
      start_task_def notify_def split: option.split)

lemma dialog_inv_ask:
  assumes "dialog_inv h"
  shows "dialog_inv (ask_user q h)"
proof (cases "resolveRef (conf h)")
  case None
  with assms conf.ask_inv [of "conf h" "question_options q"] show ?thesis
    by (simp add: dialog_inv_def ask_user_def confirm_defs)
next
  case (Some p)
  with assms obtain q0 where "waiters h = [(p, q0)]" by (auto simp: dialog_inv_def)
  with assms Some conf.ask_inv [of "conf h" "question_options q"] show ?thesis
    by (simp add: dialog_inv_def ask_user_def confirm_defs wake_def)
qed

lemma answer_user_cases:
  assumes "dialog_inv h"
  shows "resolveRef (conf h) = None \<Longrightarrow> answer_user ok h = h\<lparr>conf := settle ok (conf h)\<rparr>"
    and "resolveRef (conf h) = Some p \<Longrightarrow> \<exists>q. dialog (conf h) = Some (question_options q) \<and>
      answer_user ok h =
        (if ok then start_task (question_task p q) (h\<lparr>conf := settle ok (conf h), waiters := []\<rparr>)
         else h\<lparr>conf := settle ok (conf h), waiters := []\<rparr>)"
  using assms by (auto simp: answer_user_def dialog_inv_def confirm_defs wake_def)

lemma dialog_inv_answer:
  assumes "dialog_inv h"
  shows "dialog_inv (answer_user ok h)"
proof -
  have c: "confirm_inv (settle ok (conf h))" "resolveRef (settle ok (conf h)) = None"
    using assms conf.answer_inv by (auto simp: dialog_inv_def settle_def)
  show ?thesis
  proof (cases "resolveRef (conf h)")
    case None
    with assms c answer_user_cases(1) [OF assms None, of ok] show ?thesis by (simp add: dialog_inv_def)
  next
    case (Some p)
    with c answer_user_cases(2) [OF assms Some, of ok] show ?thesis by (auto simp: dialog_inv_def)
  qed
qed

lemma dialog_inv_cong:
  "conf h' = conf h \<Longrightarrow> waiters h' = waiters h \<Longrightarrow> dialog_inv h \<Longrightarrow> dialog_inv h'"
  by (auto simp: dialog_inv_def split: option.splits)

lemma dialog_inv_step: "dialog_inv h \<Longrightarrow> dialog_inv (hub_step h e)"
proof (cases e)
  case (AskDelete q)
  then show "dialog_inv h \<Longrightarrow> ?thesis" by (simp add: dialog_inv_ask)
next
  case (AnswerDialog ok)
  then show "dialog_inv h \<Longrightarrow> ?thesis" by (simp add: dialog_inv_answer)
qed (erule dialog_inv_cong [rotated 2]; simp add: handleAddTerminal_def createTerminalInPane_def)+

interpretation dialog_run: machine_inv hub_step "\<lambda>h e. True" dialog_inv
  by unfold_locales (rule dialog_inv_step)

lemma dialog_inv_init: "dialog_inv (hub_init w srv mobile)"
  by (simp add: dialog_inv_def hub_init_def confirm_inv_init) (simp add: useConfirm_def)

lemma deletions_frame:
  "deletions (start_task k h) = deletions h @
     (case k of DeleteWsTask p w \<Rightarrow> [k] | DeleteTmTask p w tm \<Rightarrow> [k] | _ \<Rightarrow> [])"
  "tasks h' = tasks h \<Longrightarrow> deletions h' = deletions h"
  by (simp_all add: deletions_def split: task.split)

lemma set_deletions_filter: "set (deletions (h\<lparr>tasks := filter P (tasks h)\<rparr>)) \<subseteq> set (deletions h)"
  by (auto simp: deletions_def)

lemma deletions_finish: "set (deletions (finish_task n res h)) \<subseteq> set (deletions h)"
proof (cases "map_of (tasks h) n")
  case (Some t)
  let ?h = "h\<lparr>tasks := filter (\<lambda>t. fst t \<noteq> n) (tasks h)\<rparr>"
  have "deletions (finish t res ?h) = deletions ?h" by (rule deletions_frame(2)) simp
  with Some set_deletions_filter [of _ h] show ?thesis by (simp add: finish_task_def)
qed (simp add: finish_task_def)

lemma deletions_ask: "dialog_inv h \<Longrightarrow> deletions (ask_user q h) = deletions h"
  by (cases "resolveRef (conf h)")
    (auto simp: ask_user_def dialog_inv_def confirm_defs wake_def deletions_def)

text \<open>
  C14. Nothing is deleted without a yes to exactly that deletion: whatever happened before, a
  step that starts a request to delete a workspace or a terminal is the yes to the open
  dialog, and the dialog shows the question for that workspace or terminal.
\<close>

theorem deletion_confirmed:
  assumes "h = run hub_step (hub_init w srv mobile) es"
    and "k \<in> set (deletions (hub_step h e))" and "k \<notin> set (deletions h)"
  shows "e = AnswerDialog True
    \<and> (\<exists>p q. resolveRef (conf h) = Some p \<and> k = question_task p q \<and> dialog (conf h) = Some (question_options q))"
proof -
  have inv: "dialog_inv h"
    unfolding assms(1) by (rule dialog_run.run_inv) (simp_all add: dialog_inv_init run_ok_trivial)
  show ?thesis
  proof (cases e)
    case (AnswerDialog ok)
    show ?thesis
    proof (cases "resolveRef (conf h)")
      case None
      with AnswerDialog assms(2,3) answer_user_cases(1) [OF inv None, of ok] show ?thesis
        by (simp add: deletions_def)
    next
      case (Some p)
      then obtain q where q: "dialog (conf h) = Some (question_options q)"
        "answer_user ok h =
          (if ok then start_task (question_task p q) (h\<lparr>conf := settle ok (conf h), waiters := []\<rparr>)
           else h\<lparr>conf := settle ok (conf h), waiters := []\<rparr>)"
        using answer_user_cases(2) [OF inv Some, of ok] by blast
      have same: "deletions (h\<lparr>conf := c, waiters := []\<rparr>) = deletions h" for c
        by (simp add: deletions_def)
      have "ok \<and> k = question_task p q"
        using AnswerDialog assms(2,3) q(2) same
        by (cases ok; cases q) (auto simp: deletions_frame(1))
      with AnswerDialog Some q(1) show ?thesis by blast
    qed
  next
    case (Done n res)
    with assms(2,3) deletions_finish [of n res h] show ?thesis by auto
  next
    case (CommitRename t v)
    with assms(2,3) show ?thesis
      by (auto simp: commitRename_def Let_def deletions_frame(1) split: option.splits rename_target.splits if_splits)
  next
    case (AskDelete q)
    with assms(2,3) show ?thesis by (simp add: deletions_ask [OF inv])
  next
    case Authenticated
    with assms(2,3) show ?thesis
      by (simp add: authenticated_def deletions_frame(1)) (simp add: deletions_def)
  qed (use assms(2,3) in \<open>auto simp: handleAddTerminal_def createTerminalInPane_def deletions_frame(1)
      toggleExpanded_def wizard_created_def deletions_frame(2) [of "selectTerminal _ _ _ _"]\<close>,
      auto simp: deletions_def notify_def)
qed

section \<open>Looking terminals up\<close>

definition all_terminals :: "Workspace list \<Rightarrow> (Workspace \<times> Terminal) list" where
  "all_terminals wss = concat (map (\<lambda>w. map (\<lambda>tm. (w, tm)) (terminals w)) wss)"

definition session_ref :: "Workspace \<Rightarrow> Terminal \<Rightarrow> SessionRef" where
  "session_ref w tm = \<lparr>sr_wsId = ws_id w, sr_tmId = tm_id tm, sr_name = tm_name tm, sr_path = ws_path w\<rparr>"

lemma sessions_of_fold: "sessions_of wss = fold (\<lambda>(w, tm). set_session w tm) (all_terminals wss) Map.empty"
proof -
  have "fold (\<lambda>w m. fold (set_session w) (terminals w) m) wss m
      = fold (\<lambda>(w, tm). set_session w tm) (all_terminals wss) m" for m
    by (induction wss arbitrary: m) (simp_all add: all_terminals_def fold_map comp_def)
  then show ?thesis by (simp add: sessions_of_def)
qed

lemma fold_set_session:
  "fold (\<lambda>(w, tm). set_session w tm) xs m t =
     (case find (\<lambda>(w, tm). tm_id tm = t) (rev xs) of Some (w, tm) \<Rightarrow> Some (session_ref w tm) | None \<Rightarrow> m t)"
proof (induction xs rule: rev_induct)
  case (snoc x xs)
  then show ?case
    by (cases x) (simp add: set_session_def session_ref_def)
qed simp

text \<open>
  The session map is what the workspace list says: a terminal id is in it exactly when some
  workspace has a terminal with that id, and then it gives the last such terminal with its
  workspace's id and path; when terminal ids are unique, it gives for every listed terminal
  its own workspace.
\<close>

theorem sessions_lookup:
  "(t \<in> dom (sessions_of wss) \<longleftrightarrow> (\<exists>w \<in> set wss. \<exists>tm \<in> set (terminals w). tm_id tm = t))
   \<and> (\<forall>r. sessions_of wss t = Some r \<longrightarrow>
        (\<exists>w \<in> set wss. \<exists>tm \<in> set (terminals w). tm_id tm = t \<and> r = session_ref w tm))
   \<and> (distinct (map (\<lambda>(w, tm). tm_id tm) (all_terminals wss)) \<longrightarrow>
        (\<forall>w \<in> set wss. \<forall>tm \<in> set (terminals w). sessions_of wss (tm_id tm) = Some (session_ref w tm)))"
proof -
  let ?find = "find (\<lambda>(w, tm). tm_id tm = t) (rev (all_terminals wss))"
  have mem: "(w, tm) \<in> set (all_terminals wss) \<longleftrightarrow> w \<in> set wss \<and> tm \<in> set (terminals w)" for w tm
    by (auto simp: all_terminals_def)
  have val: "sessions_of wss u = (case find (\<lambda>(w, tm). tm_id tm = u) (rev (all_terminals wss)) of
      Some (w, tm) \<Rightarrow> Some (session_ref w tm) | None \<Rightarrow> None)" for u
    by (simp add: sessions_of_fold fold_set_session)
  have found: "(w, tm) \<in> set (all_terminals wss) \<and> tm_id tm = u"
    if "find (\<lambda>(w, tm). tm_id tm = u) (rev (all_terminals wss)) = Some (w, tm)" for u w tm
    using that by (auto simp: find_Some_iff) (metis nth_mem length_rev set_rev)
  have none: "find (\<lambda>(w, tm). tm_id tm = u) (rev (all_terminals wss)) = None
      \<longleftrightarrow> (\<forall>(w, tm) \<in> set (all_terminals wss). tm_id tm \<noteq> u)" for u
    by (auto simp: find_None_iff)
  have 1: "\<exists>w \<in> set wss. \<exists>tm \<in> set (terminals w). tm_id tm = t \<and> r = session_ref w tm"
    if s: "sessions_of wss t = Some r" for r
  proof -
    obtain w tm where f: "?find = Some (w, tm)" "r = session_ref w tm"
      using s by (auto simp: val split: option.splits prod.splits)
    from found [OF f(1)] mem have "w \<in> set wss" "tm \<in> set (terminals w)" "tm_id tm = t" by auto
    with f(2) show ?thesis by blast
  qed
  have 2: "t \<in> dom (sessions_of wss)" if "w \<in> set wss" "tm \<in> set (terminals w)" "tm_id tm = t" for w tm
  proof -
    have "(w, tm) \<in> set (all_terminals wss)" using that mem by simp
    then have "?find \<noteq> None" using none [of t] that(3) by auto
    then show ?thesis by (auto simp: val dom_def)
  qed
  have 3: "sessions_of wss (tm_id tm) = Some (session_ref w tm)"
    if d: "distinct (map (\<lambda>(w, tm). tm_id tm) (all_terminals wss))"
      and "w \<in> set wss" "tm \<in> set (terminals w)" for w tm
  proof -
    have m: "(w, tm) \<in> set (all_terminals wss)" using that mem by simp
    then have "find (\<lambda>(w, x). tm_id x = tm_id tm) (rev (all_terminals wss)) \<noteq> None"
      using none [of "tm_id tm"] by auto
    then obtain w' tm' where f: "find (\<lambda>(w, x). tm_id x = tm_id tm) (rev (all_terminals wss)) = Some (w', tm')"
      by auto
    have "(w', tm') = (w, tm)"
      using d found [OF f] m inj_onD [of "\<lambda>(w, tm). tm_id tm" "set (all_terminals wss)" "(w', tm')" "(w, tm)"]
      by (simp add: distinct_map)
    with f show ?thesis by (simp add: val)
  qed
  have 4: "\<exists>w \<in> set wss. \<exists>tm \<in> set (terminals w). tm_id tm = t" if d: "t \<in> dom (sessions_of wss)"
  proof -
    obtain r where "sessions_of wss t = Some r" using d by auto
    with 1 show ?thesis by blast
  qed
  show ?thesis by (intro conjI iffI allI impI ballI; (elim bexE)?) (use 1 2 3 4 in blast)+
qed

section \<open>Deleting\<close>

lemma fst_drop_session [simp]: "fst (drop_session t p) = fst p"
  by (simp add: drop_session_def)

lemma leaves_unplace:
  assumes "layout_inv l"
  shows "leaves (ls_root (unplaceSession t l)) = map (drop_session t) (leaves (ls_root l))"
    and "placed (unplaceSession t l) = placed l - {t}"
    and "focusedPaneId (unplaceSession t l) = focusedPaneId l"
    and "leaf_ids (ls_root (unplaceSession t l)) = leaf_ids (ls_root l)"
proof -
  have inv: "rootRef l = ls_root l" "placed l = placedSessionIds (ls_root l)"
    using assms unfolding layout_inv_def by simp_all
  show 1: "leaves (ls_root (unplaceSession t l)) = map (drop_session t) (leaves (ls_root l))"
    by (simp add: unplaceSession_def inv leaves_removeSession)
  show "placed (unplaceSession t l) = placed l - {t}"
    unfolding unplaceSession_def inv(2) commit_simps placedSessionIds_eq inv(1) leaves_removeSession placed_drop
    by auto
  show "focusedPaneId (unplaceSession t l) = focusedPaneId l"
    by (simp add: unplaceSession_def)
  show "leaf_ids (ls_root (unplaceSession t l)) = leaf_ids (ls_root l)"
    unfolding 1 by simp
qed

lemma unplace_all_effect:
  "layout_inv l \<Longrightarrow> placed (unplace_all tms l) = placed l - tm_id ` set tms
    \<and> leaf_ids (ls_root (unplace_all tms l)) = leaf_ids (ls_root l)
    \<and> focusedPaneId (unplace_all tms l) = focusedPaneId l"
proof (induction tms arbitrary: l)
  case (Cons tm tms)
  have "layout_inv (unplaceSession (tm_id tm) l)" using Cons.prems by (rule layout_step_inv)
  note ih = Cons.IH [OF this] and one = leaves_unplace(2-4) [OF Cons.prems, of "tm_id tm"]
  have "unplace_all (tm # tms) l = unplace_all tms (unplaceSession (tm_id tm) l)"
    by (simp add: unplace_all_def)
  then show ?case using ih unfolding one by auto
qed (simp add: unplace_all_def)

definition deleted_sessions :: "question \<Rightarrow> string set" where
  "deleted_sessions q = (case q of DeleteWs w \<Rightarrow> tm_id ` set (terminals w) | DeleteTm w tm \<Rightarrow> {tm_id tm})"

definition deleted_from :: "question \<Rightarrow> Workspace list \<Rightarrow> Workspace list" where
  "deleted_from q wss =
     (case q of DeleteWs w \<Rightarrow> filter (\<lambda>x. ws_id x \<noteq> ws_id w) wss
      | DeleteTm w tm \<Rightarrow> map (\<lambda>x. if ws_id x = ws_id w
          then x\<lparr>terminals := filter (\<lambda>y. tm_id y \<noteq> tm_id tm) (terminals x)\<rparr> else x) wss)"


definition demo_ws :: Workspace where
  "demo_ws = \<lparr>ws_id = ''w'', ws_name = ''work'', ws_path = ''/w'',
     terminals = [\<lparr>tm_id = ''t1'', tm_name = ''one'', tmuxSession = ''s1''\<rparr>,
                  \<lparr>tm_id = ''t2'', tm_name = ''two'', tmuxSession = ''s2''\<rparr>]\<rparr>"

definition demo_hub :: hub where
  "demo_hub = \<lparr>workspaces = [demo_ws], expanded = {}, lay = demo_layout, conf = useConfirm, waiters = [],
     tasks = [(0, DeleteWsTask 0 demo_ws), (1, CreateInPaneTask ''gone'' ''w'')], next_task = 2, notices = [],
     sidebarCollapsed = False\<rparr>"

lemma demo_hub_fields [simp]:
  "lay demo_hub = demo_layout" "workspaces demo_hub = [demo_ws]"
  "map_of (tasks demo_hub) 0 = Some (question_task 0 (DeleteWs demo_ws))"
  "map_of (tasks demo_hub) (Suc 0) = Some (CreateInPaneTask ''gone'' ''w'')"
  "placed demo_layout = {''t1'', ''t3''}" "tm_id ` set (terminals demo_ws) = {''t1'', ''t2''}"
  by (simp_all add: demo_hub_def demo_layout_def) (simp add: demo_ws_def)


theorem deletion_confirmed_witness:
  "resolveRef (conf (run hub_step (hub_init demo_world None False) [AskDelete (DeleteWs demo_ws)])) = Some 0"
  using deletion_confirmed [of "run hub_step (hub_init demo_world None False) [AskDelete (DeleteWs demo_ws)]"
      demo_world None False "[AskDelete (DeleteWs demo_ws)]" "DeleteWsTask 0 demo_ws" "AnswerDialog True"]
  by (simp add: hub_init_def ask_user_def answer_user_def confirm_defs useConfirm_def wake_def
      deletions_def start_task_def)


section \<open>Creating, renaming, choosing\<close>

text \<open>
  A terminal created for a pane is shown in that pane and nowhere else if the pane still exists
  when the server answers; if it has been closed meanwhile, the layout (panes, terminals,
  focus, pending save) is exactly what it was. Either way the terminal is in the list of its
  workspace, so it stays reachable.
\<close>

theorem created_in_pane:
  assumes "layout_inv (lay h)" and "map_of (tasks h) k = Some (CreateInPaneTask paneId wsId)"
  shows "let h' = hub_step h (Done k (GotTerminal tm)) in
      (if hasPane paneId (lay h)
       then filter (\<lambda>p. snd p = Some (tm_id tm)) (leaves (ls_root (lay h'))) = [(paneId, Some (tm_id tm))]
         \<and> leaf_ids (ls_root (lay h')) = leaf_ids (ls_root (lay h)) \<and> focusedPaneId (lay h') = paneId
       else lay h' = lay h)
      \<and> (\<forall>w \<in> set (workspaces h). ws_id w = wsId \<longrightarrow>
            (\<exists>w' \<in> set (workspaces h'). ws_id w' = wsId \<and> tm \<in> set (terminals w')))"
proof -
  let ?h = "h\<lparr>tasks := filter (\<lambda>t. fst t \<noteq> k) (tasks h)\<rparr>"
  have inv: "rootRef (lay h) = ls_root (lay h)" "tree_wf (ls_root (lay h))"
    using assms(1) by (auto simp: layout_inv_def)
  have list: "\<forall>w \<in> set (workspaces h). ws_id w = wsId \<longrightarrow>
      (\<exists>w' \<in> set (add_terminal wsId tm (workspaces h)). ws_id w' = wsId \<and> tm \<in> set (terminals w'))"
  proof (intro ballI impI)
    fix w assume "w \<in> set (workspaces h)" "ws_id w = wsId"
    then show "\<exists>w' \<in> set (add_terminal wsId tm (workspaces h)). ws_id w' = wsId \<and> tm \<in> set (terminals w')"
      by (intro bexI [of _ "w\<lparr>terminals := terminals w @ [tm]\<rparr>"]) (auto simp: add_terminal_def)
  qed
  have step: "hub_step h (Done k (GotTerminal tm)) = finish (CreateInPaneTask paneId wsId) (GotTerminal tm) ?h"
    using assms(2) by (simp add: finish_task_def del: finish.simps)
  show ?thesis
  proof (cases "hasPane paneId (lay h)")
    case True
    let ?t = "setLeafSession (removeSession (ls_root (lay h)) (tm_id tm)) paneId (Some (tm_id tm))"
    have a: "assignSession paneId (tm_id tm) (lay h) = (commit ?t (lay h))\<lparr>focusedPaneId := paneId\<rparr>"
      using True inv by (auto simp: assignSession_def hasPane_def Let_def)
    have "filter (\<lambda>p. snd p = Some (tm_id tm)) (leaves ?t) = [(paneId, Some (tm_id tm))]"
      using tree.move_exact [OF inv(2)] True inv(1) by (simp add: hasPane_def)
    moreover have "leaf_ids ?t = leaf_ids (ls_root (lay h))"
      using inv(2) by (simp add: tree.panes_move)
    ultimately show ?thesis
      unfolding step using True list by (simp add: Let_def a)
  next
    case False
    then show ?thesis unfolding step using list by (simp add: Let_def)
  qed
qed

theorem created_in_pane_witness:
  "lay (hub_step demo_hub (Done 1 (GotTerminal \<lparr>tm_id = ''t9'', tm_name = ''n'', tmuxSession = ''s''\<rparr>))) = demo_layout"
proof -
  have "\<not> hasPane ''gone'' demo_layout" by (simp add: hasPane_def demo_layout_def demo_tree_def)
  with created_in_pane [of demo_hub 1 "''gone''" "''w''" "\<lparr>tm_id = ''t9'', tm_name = ''n'', tmuxSession = ''s''\<rparr>"]
  show ?thesis using demo_layout_inv by (simp add: Let_def del: hub_step.simps)
qed

text \<open>
  Committing a rename sends at most one request, and only a meaningful one: the name sent is
  the trimmed input, not empty and different from the current name of the workspace or
  terminal that was being renamed, which is still in the list; in every other case (cancelled,
  blank, unchanged, gone) nothing happens at all.
\<close>

theorem rename_request:
  "commitRename target val h = h
   \<or> (\<exists>w name. commitRename target val h = start_task (RenameWsTask w name) h \<and> target = RenameWorkspace (ws_id w)
        \<and> w \<in> set (workspaces h) \<and> name = js_trim val \<and> name \<noteq> '''' \<and> name \<noteq> ws_name w)
   \<or> (\<exists>w tm name. commitRename target val h = start_task (RenameTmTask w tm name) h
        \<and> target = RenameTerminal (ws_id w) (tm_id tm) \<and> w \<in> set (workspaces h) \<and> tm \<in> set (terminals w)
        \<and> name = js_trim val \<and> name \<noteq> '''' \<and> name \<noteq> tm_name tm)"
proof (cases "js_trim val = []")
  case True
  then show ?thesis by (simp add: commitRename_def Let_def)
next
  case name: False
  show ?thesis
  proof (cases target)
    case (RenameWorkspace i)
    show ?thesis
    proof (cases "find (\<lambda>w. ws_id w = i) (workspaces h)")
      case None
      with RenameWorkspace show ?thesis by (simp add: commitRename_def Let_def)
    next
      case (Some w)
      then have "w \<in> set (workspaces h)" "ws_id w = i" by (auto simp: find_Some_iff)
      with RenameWorkspace Some name show ?thesis by (simp add: commitRename_def Let_def) blast
    qed
  next
    case (RenameTerminal i t)
    show ?thesis
    proof (cases "find (\<lambda>w. ws_id w = i) (workspaces h)")
      case None
      with RenameTerminal show ?thesis by (simp add: commitRename_def Let_def)
    next
      case (Some w)
      then have w: "w \<in> set (workspaces h)" "ws_id w = i" by (auto simp: find_Some_iff)
      show ?thesis
      proof (cases "find (\<lambda>x. tm_id x = t) (terminals w)")
        case None
        with RenameTerminal Some show ?thesis by (simp add: commitRename_def Let_def)
      next
        case tm: (Some tm)
        then have "tm \<in> set (terminals w)" "tm_id tm = t" by (auto simp: find_Some_iff)
        with RenameTerminal Some tm w name show ?thesis by (simp add: commitRename_def Let_def) blast
      qed
    qed
  qed
qed

text \<open>
  The picker of an empty pane offers exactly the terminals that are in no pane, so choosing
  one never takes it away from another pane: every other pane shows afterwards what it showed
  before.
\<close>

theorem picker_choice:
  assumes "layout_inv l" and "(w, tms) \<in> set (available (placed l) wss)" and "tm \<in> set tms"
  shows "tm \<in> set (terminals w) \<and> w \<in> set wss \<and> tm_id tm \<notin> placed l
    \<and> (\<forall>j s. j \<noteq> i \<longrightarrow> ((j, s) \<in> set (leaves (ls_root (assignSession i (tm_id tm) l)))
          \<longleftrightarrow> (j, s) \<in> set (leaves (ls_root l))))"
proof -
  let ?t = "tm_id tm"
  have av: "tm \<in> set (terminals w)" "w \<in> set wss" "?t \<notin> placed l"
    using assms(2,3) by (auto simp: available_def)
  have inv: "rootRef l = ls_root l" "tree_wf (ls_root l)" "placed l = placedSessionIds (ls_root l)"
    using assms(1) by (auto simp: layout_inv_def)
  have "(p, Some ?t) \<notin> set (leaves (ls_root l))" for p
    using av(3) by (auto simp: inv(3) placedSessionIds_eq set_placed_list)
  then have same: "drop_session ?t p = p" if "p \<in> set (leaves (ls_root l))" for p
    using that by (cases p) (auto simp: drop_session_def)
  then have "map (drop_session ?t) (leaves (ls_root l)) = leaves (ls_root l)"
    by (simp add: map_idI)
  then have "leaves (setLeafSession (removeSession (ls_root l) ?t) i (Some ?t))
      = map (put_session i (Some ?t)) (leaves (ls_root l))"
    using inv(2) by (simp add: leaves_setLeafSession leaves_removeSession wf_removeSession)
  moreover have "(j, s) \<in> set (map (put_session i (Some ?t)) ps) \<longleftrightarrow> (j, s) \<in> set ps" if "j \<noteq> i" for j s ps
    using that by (force simp: put_session_def)
  ultimately show ?thesis
    using av by (simp add: assignSession_def Let_def inv(1))
qed

theorem picker_choice_witness:
  "(''p1'', None) \<in> set (leaves (ls_root (assignSession ''p2'' ''t2'' demo_layout)))
    \<longleftrightarrow> (''p1'', None) \<in> set (leaves (ls_root demo_layout))"
  using picker_choice [OF demo_layout_inv, of demo_ws "[\<lparr>tm_id = ''t2'', tm_name = ''two'', tmuxSession = ''s2''\<rparr>]"
      "[demo_ws]" "\<lparr>tm_id = ''t2'', tm_name = ''two'', tmuxSession = ''s2''\<rparr>" "''p2''"]
  by (simp add: available_def demo_ws_def)

text \<open>
  The picker can create in a workspace that is gone: once the user has chosen a workspace in
  its select, that id stays the target of the button even after the workspace has been deleted
  and the select shows another one.
\<close>

theorem picker_stale_workspace:
  "\<exists>wss. effectiveNewWsId ''w'' (remove_workspace ''w'' wss) = ''w''
     \<and> remove_workspace ''w'' wss \<noteq> [] \<and> ''w'' \<notin> ws_id ` set (remove_workspace ''w'' wss)"
  by (rule exI [of _ "[demo_ws, demo_ws\<lparr>ws_id := ''v''\<rparr>]"])
    (simp add: effectiveNewWsId_def remove_workspace_def demo_ws_def)

text \<open>
  A slow first load can lose a new workspace: the list requested at login is installed as it
  was read, so a workspace created through the wizard before that answer arrives disappears
  from the sidebar although the server has it.
\<close>

theorem stale_load_drops_workspace:
  "workspaces (run hub_step (hub_init wd srv mobile) [Authenticated, WizardCreated w, Done 0 (GotWorkspaces wss)]) = wss"
  by (simp add: hub_init_def authenticated_def start_task_def wizard_created_def notify_def finish_task_def)

end
