(* ===== verification/Requests.thy ===== *)
theory Requests
  imports Prelude
begin

text \<open>
  The pattern every loading effect of the front end uses: a flag \<open>cancelled\<close> in the closure of
  the effect, set by its cleanup, that keeps the answer of an older request from touching
  the state. A \<open>slot\<close> is one such effect: the arguments of the requests sent so far, the run
  that is not cancelled, and the answers that came, in order. The interface \<open>cancellable\<close> says
  what its users rely on.
\<close>

text \<open>An answer: a value, or an error with the message of the \<open>Error\<close> thrown, if it is one.\<close>

datatype 'a reply = Got 'a | Err "string option"

definition err_text :: "string \<Rightarrow> string option \<Rightarrow> string" where
  "err_text fallback e = (case e of Some m \<Rightarrow> m | None \<Rightarrow> fallback)"

record ('q, 'r) slot =
  sl_asked :: "'q list"
  sl_live :: "nat option"
  sl_got :: "(nat \<times> 'r) list"

definition slot_empty :: "('q, 'r) slot" where
  "slot_empty = \<lparr>sl_asked = [], sl_live = None, sl_got = []\<rparr>"

definition slot_start :: "'q \<Rightarrow> ('q, 'r) slot \<Rightarrow> ('q, 'r) slot" where
  "slot_start q sl = sl\<lparr>sl_live := Some (length (sl_asked sl)), sl_asked := sl_asked sl @ [q]\<rparr>"

definition slot_cancel :: "('q, 'r) slot \<Rightarrow> ('q, 'r) slot" where
  "slot_cancel sl = sl\<lparr>sl_live := None\<rparr>"

text \<open>The answer of request \<open>k\<close> arrives; the flag says whether the callbacks pass the \<open>cancelled\<close> test.\<close>

definition slot_answer :: "nat \<Rightarrow> 'r \<Rightarrow> ('q, 'r) slot \<Rightarrow> bool \<times> ('q, 'r) slot" where
  "slot_answer k r sl =
     (if k < length (sl_asked sl) \<and> k \<notin> fst ` set (sl_got sl)
      then (sl_live sl = Some k, sl\<lparr>sl_got := sl_got sl @ [(k, r)]\<rparr>) else (False, sl))"

definition slot_request :: "('q, 'r) slot \<Rightarrow> 'q option" where
  "slot_request sl = (case sl_live sl of None \<Rightarrow> None | Some k \<Rightarrow> Some (sl_asked sl ! k))"

definition slot_result :: "('q, 'r) slot \<Rightarrow> 'r option" where
  "slot_result sl = (case sl_live sl of None \<Rightarrow> None | Some k \<Rightarrow> map_of (sl_got sl) k)"

definition slot_inv :: "('q, 'r) slot \<Rightarrow> bool" where
  "slot_inv sl =
     ((\<forall>k \<in> fst ` set (sl_got sl). k < length (sl_asked sl))
      \<and> distinct (map fst (sl_got sl))
      \<and> (case sl_live sl of None \<Rightarrow> True | Some k \<Rightarrow> k < length (sl_asked sl)))"

text \<open>The requests that are on their way.\<close>

definition slot_waiting :: "('q, 'r) slot \<Rightarrow> nat set" where
  "slot_waiting sl = {k. k < length (sl_asked sl) \<and> k \<notin> fst ` set (sl_got sl)}"

lemmas slot_defs = slot_start_def slot_cancel_def slot_request_def slot_result_def slot_inv_def slot_empty_def

section \<open>The interface\<close>

locale cancellable =
  fixes start :: "'q \<Rightarrow> 's \<Rightarrow> 's"
    and cancel :: "'s \<Rightarrow> 's"
    and answer :: "nat \<Rightarrow> 'r \<Rightarrow> 's \<Rightarrow> bool \<times> 's"
    and request :: "'s \<Rightarrow> 'q option"
    and result :: "'s \<Rightarrow> 'r option"
    and inv :: "'s \<Rightarrow> bool"
  assumes start_inv: "inv s \<Longrightarrow> inv (start q s)"
    and cancel_inv: "inv s \<Longrightarrow> inv (cancel s)"
    and answer_inv: "inv s \<Longrightarrow> inv (snd (answer k r s))"
    and start_request: "request (start q s) = Some q"
    and start_result: "inv s \<Longrightarrow> result (start q s) = None"
    and cancel_request: "request (cancel s) = None"
    and answer_request: "request (snd (answer k r s)) = request s"
    and delivered: "inv s \<Longrightarrow> fst (answer k r s) \<Longrightarrow>
          request s \<noteq> None \<and> result s = None \<and> result (snd (answer k r s)) = Some r"
    and ignored: "inv s \<Longrightarrow> \<not> fst (answer k r s) \<Longrightarrow> result (snd (answer k r s)) = result s"
begin

text \<open>A client that shows \<open>f\<close> of the result and updates it on delivery goes on showing it.\<close>

lemma mirror:
  "inv s \<Longrightarrow> (if fst (answer k r s) then f (Some r) else f (result s)) = f (result (snd (answer k r s)))"
  using delivered [of s k r] ignored [of s k r] by simp

text \<open>A request is answered once, and an answer after the cleanup is dropped.\<close>

lemma once: "inv s \<Longrightarrow> fst (answer k r s) \<Longrightarrow> \<not> fst (answer k' r' (snd (answer k r s)))"
  using delivered [of s k r] delivered [of "snd (answer k r s)" k' r'] answer_inv [of s k r] by auto

lemma cancelled_silent: "inv s \<Longrightarrow> \<not> fst (answer k r (cancel s))"
  using delivered [of "cancel s" k r] cancel_inv [of s] cancel_request [of s] by auto

lemma answered_silent: "inv s \<Longrightarrow> result s \<noteq> None \<Longrightarrow> \<not> fst (answer k r s)"
  using delivered [of s k r] by auto

end

interpretation effect: cancellable slot_start slot_cancel slot_answer slot_request slot_result slot_inv
proof
  fix s :: "('q, 'r) slot" and q k r
  show "slot_inv s \<Longrightarrow> slot_inv (slot_start q s)"
    by (force simp: slot_defs)
  show "slot_inv s \<Longrightarrow> slot_inv (slot_cancel s)"
    by (simp add: slot_defs)
  show "slot_inv s \<Longrightarrow> slot_inv (snd (slot_answer k r s))"
    by (auto simp: slot_inv_def slot_answer_def split: option.splits)
  show "slot_request (slot_start q s) = Some q"
    by (simp add: slot_defs)
  show "slot_inv s \<Longrightarrow> slot_result (slot_start q s) = None"
    by (force simp: slot_defs map_of_eq_None_iff)
  show "slot_request (slot_cancel s) = None"
    by (simp add: slot_defs)
  show "slot_request (snd (slot_answer k r s)) = slot_request s"
    by (simp add: slot_answer_def slot_request_def split: option.split)
  show "slot_inv s \<Longrightarrow> fst (slot_answer k r s) \<Longrightarrow>
      slot_request s \<noteq> None \<and> slot_result s = None \<and> slot_result (snd (slot_answer k r s)) = Some r"
    by (auto simp: slot_answer_def slot_request_def slot_result_def map_of_eq_None_iff map_add_def
        dest: map_of_SomeD intro: rev_image_eqI split: if_splits option.splits)
  show "slot_inv s \<Longrightarrow> \<not> fst (slot_answer k r s) \<Longrightarrow>
      slot_result (snd (slot_answer k r s)) = slot_result s"
    by (auto simp: slot_answer_def slot_result_def map_add_def split: if_splits option.splits)
qed

text \<open>What each operation does to the requests on their way.\<close>

lemma waiting_start:
  "slot_inv sl \<Longrightarrow> slot_waiting (slot_start q sl) = insert (length (sl_asked sl)) (slot_waiting sl)"
  by (auto simp: slot_waiting_def slot_start_def slot_inv_def)

lemma waiting_cancel [simp]: "slot_waiting (slot_cancel sl) = slot_waiting sl"
  by (simp add: slot_waiting_def slot_cancel_def)

lemma waiting_answer: "slot_waiting (snd (slot_answer k r sl)) = slot_waiting sl - {k}"
  by (auto simp: slot_waiting_def slot_answer_def)

lemma waiting_empty [simp]: "slot_waiting slot_empty = {}"
  by (simp add: slot_waiting_def slot_empty_def)

lemma delivered_waiting: "fst (slot_answer k r sl) \<Longrightarrow> k \<in> slot_waiting sl \<and> sl_live sl = Some k"
  by (auto simp: slot_waiting_def slot_answer_def split: if_splits)

lemma answered_waiting: "k \<in> slot_waiting sl \<Longrightarrow> fst (slot_answer k r sl) = (sl_live sl = Some k)"
  by (auto simp: slot_waiting_def slot_answer_def)

lemma slot_fields [simp]:
  "sl_asked (slot_start q sl) = sl_asked sl @ [q]" "sl_live (slot_start q sl) = Some (length (sl_asked sl))"
  "sl_asked (slot_cancel sl) = sl_asked sl" "sl_live (slot_cancel sl) = None"
  "sl_asked (snd (slot_answer k r sl)) = sl_asked sl" "sl_live (snd (slot_answer k r sl)) = sl_live sl"
  "sl_asked slot_empty = []" "sl_live slot_empty = None"
  by (simp_all add: slot_start_def slot_cancel_def slot_answer_def slot_empty_def)

text \<open>All there is to know of an answer, in one elimination rule.\<close>

lemma slot_answer_cases:
  assumes "slot_inv sl"
  obtains (delivered) sl' where
      "slot_answer k r sl = (True, sl')" "slot_inv sl'" "sl_asked sl' = sl_asked sl" "sl_live sl' = sl_live sl"
      "slot_waiting sl' = slot_waiting sl - {k}" "k \<in> slot_waiting sl"
      "sl_live sl = Some k" "slot_result sl = None" "slot_result sl' = Some r"
  | (dropped) sl' where
      "slot_answer k r sl = (False, sl')" "slot_inv sl'" "sl_asked sl' = sl_asked sl" "sl_live sl' = sl_live sl"
      "slot_waiting sl' = slot_waiting sl - {k}" "k \<in> slot_waiting sl \<Longrightarrow> sl_live sl \<noteq> Some k"
      "slot_result sl' = slot_result sl"
proof -
  obtain m sl' where a: "slot_answer k r sl = (m, sl')" by (cases "slot_answer k r sl")
  have s: "slot_inv sl'" "sl_asked sl' = sl_asked sl" "sl_live sl' = sl_live sl"
      "slot_waiting sl' = slot_waiting sl - {k}"
    using effect.answer_inv [OF assms, of k r] slot_fields(5,6) [of k r sl] waiting_answer [of k r sl] a
    by simp_all
  show thesis
  proof (cases m)
    case True
    with that(1) [of sl'] s a show thesis
      using effect.delivered [OF assms, of k r] delivered_waiting [of k r sl] by simp
  next
    case False
    with that(2) [of sl'] s a show thesis
      using effect.ignored [OF assms, of k r] answered_waiting [of k sl r] by simp
  qed
qed

lemma result_no_run [simp]: "sl_live sl = None \<Longrightarrow> slot_result sl = None"
  by (simp add: slot_result_def)

text \<open>The error a client shows for a result.\<close>

fun error_of :: "string \<Rightarrow> 'a reply option \<Rightarrow> string" where
  "error_of fallback (Some (Err m)) = err_text fallback m"
| "error_of fallback _ = ''''"

lemma slot_inv_empty [simp]: "slot_inv slot_empty" "slot_request slot_empty = None" "slot_result slot_empty = None"
  by (simp_all add: slot_defs)

end
