(* ===== verification/Format.thy ===== *)
theory Format
  imports TermIO
begin

text \<open>
  The numbers the file list and the statistics dialog show: \<open>formatSize\<close> of
  \<^verbatim>\<open>features/terminal/FileTree.tsx\<close>, \<open>formatBytes\<close> and \<open>formatUptime\<close> of
  \<^verbatim>\<open>features/system/SystemStatsModal.tsx\<close>, over a model of \<open>toFixed\<close>.
\<close>

section \<open>Number.prototype.toFixed\<close>

text \<open>The decimal with \<open>f\<close> fraction digits nearest to \<open>x\<close>, the larger one on a tie
  (for \<open>x < 10 ^ 21\<close>, beyond which \<open>toFixed\<close> prints the shortest form).\<close>

definition toFixed_nonneg :: "nat \<Rightarrow> rat \<Rightarrow> string" where
  "toFixed_nonneg f x =
     (let m = nat_str 10 (nat \<lfloor>x * 10 ^ f + 1 / 2\<rfloor>);
          z = replicate (Suc f - length m) CHR ''0'' @ m
      in if f = 0 then m
         else take (length z - f) z @ CHR ''.'' # drop (length z - f) z)"

definition toFixed :: "nat \<Rightarrow> rat \<Rightarrow> string" where
  "toFixed f x = (if x < 0 then CHR ''-'' # toFixed_nonneg f (- x) else toFixed_nonneg f x)"

lemma dec_val_zeros [simp]: "dec_val (replicate k CHR ''0'' @ s) = dec_val s"
proof (induction k)
  case (Suc k)
  then show ?case by (simp add: dec_val_def digit_val_def)
qed simp

lemma digit_zero [simp]: "is_digit CHR ''0''"
  by (simp add: is_digit_def)

lemma toFixed_reads_back:
  assumes "0 \<le> x"
  shows "\<exists>y. parseFloat (toFixed f x @ CHR '' '' # r) = Num y \<and> \<bar>y - x\<bar> \<le> 1 / (2 * 10 ^ f)"
proof -
  let ?n = "nat \<lfloor>x * 10 ^ f + 1 / 2\<rfloor>"
  let ?m = "nat_str 10 ?n"
  define z where "z = replicate (Suc f - length ?m) CHR ''0'' @ ?m"
  have dig: "\<forall>c \<in> set z. is_digit c" using nat_str_digits by (auto simp: z_def)
  have len: "f < length z" by (simp add: z_def)
  have val: "dec_val z = ?n" by (simp add: z_def)
  have y: "parseFloat (toFixed f x @ CHR '' '' # r) = Num (of_nat ?n / 10 ^ f)"
  proof (cases "f = 0")
    case True
    then show ?thesis using parseFloat_decimal(1) [of ?m "[]" "CHR '' '' # r"] nat_str_digits assms
      by (simp add: toFixed_def toFixed_nonneg_def)
  next
    case False
    let ?k = "length z - f"
    have "take ?k z \<noteq> []" "length (drop ?k z) = f" using len by auto
    moreover have "\<forall>c \<in> set (take ?k z). is_digit c" "\<forall>c \<in> set (drop ?k z). is_digit c"
      using dig by (meson in_set_takeD in_set_dropD)+
    ultimately have "parseFloat (take ?k z @ CHR ''.'' # drop ?k z @ CHR '' '' # r)
        = Num (of_nat (dec_val (take ?k z @ drop ?k z)) / 10 ^ f)"
      using parseFloat_decimal(2) [of "take ?k z" "drop ?k z" "CHR '' '' # r"] by simp
    then have "parseFloat (take ?k z @ CHR ''.'' # drop ?k z @ CHR '' '' # r) = Num (of_nat ?n / 10 ^ f)"
      by (simp only: append_take_drop_id val)
    moreover have "toFixed f x = take ?k z @ CHR ''.'' # drop ?k z"
      using False assms by (simp add: toFixed_def toFixed_nonneg_def Let_def z_def)
    ultimately show ?thesis by simp
  qed
  have "0 \<le> \<lfloor>x * 10 ^ f + 1 / 2\<rfloor>" using assms by simp
  then have n: "of_nat ?n = (of_int \<lfloor>x * 10 ^ f + 1 / 2\<rfloor> :: rat)" by simp
  have "\<bar>of_nat ?n - x * 10 ^ f\<bar> \<le> 1 / 2"
    unfolding n using floor_correct [of "x * 10 ^ f + 1 / 2"] by linarith
  then have "\<bar>of_nat ?n / 10 ^ f - x\<bar> \<le> 1 / 2 / 10 ^ f"
    by (simp add: abs_le_iff field_simps)
  with y show ?thesis by auto
qed

section \<open>Sizes and times\<close>

definition formatSize :: "nat \<Rightarrow> string" where
  "formatSize bytes =
     (if bytes < 1024 then nat_str 10 bytes @ '' B''
      else if bytes < 1024 * 1024 then toFixed 1 (of_nat bytes / 1024) @ '' KB''
      else if bytes < 1024 * 1024 * 1024 then toFixed 1 (of_nat bytes / (1024 * 1024)) @ '' MB''
      else toFixed 1 (of_nat bytes / (1024 * 1024 * 1024)) @ '' GB'')"

definition formatBytes :: "nat \<Rightarrow> string" where
  "formatBytes bytes =
     (if bytes < 1024 then nat_str 10 bytes @ '' B''
      else if bytes < 1024 * 1024 then toFixed 1 (of_nat bytes / 1024) @ '' KB''
      else if bytes < 1024 * 1024 * 1024 then toFixed 1 (of_nat bytes / (1024 * 1024)) @ '' MB''
      else toFixed 2 (of_nat bytes / (1024 * 1024 * 1024)) @ '' GB'')"

definition formatUptime :: "rat \<Rightarrow> string" where
  "formatUptime seconds =
     (let s = \<lfloor>seconds\<rfloor>; h = s div 3600; m = (s mod 3600) div 60; sec = s mod 60
      in if h > 0 then int_str h @ ''h '' @ int_str m @ ''m '' @ int_str sec @ ''s''
         else if m > 0 then int_str m @ ''m '' @ int_str sec @ ''s''
         else int_str sec @ ''s'')"

text \<open>The bytes in the unit that is printed.\<close>

definition size_unit :: "nat \<Rightarrow> rat" where
  "size_unit b = (if b < 1024 then 1 else if b < 1024 ^ 2 then 1024 else if b < 1024 ^ 3 then 1024 ^ 2 else 1024 ^ 3)"

lemma parseFloat_bytes: "parseFloat (nat_str 10 n @ '' B'') = Num (of_nat n)"
  using parseFloat_decimal(1) [of "nat_str 10 n" "[]" "'' B''"] nat_str_digits by simp

lemma scaled_error:
  fixes y u b :: rat
  assumes "\<bar>y - b / u\<bar> \<le> 1 / (2 * 10 ^ f)" and "0 < u" and "1 \<le> f"
  shows "\<bar>y * u - b\<bar> \<le> u / 20"
proof -
  have "(10 :: rat) ^ 1 \<le> 10 ^ f" using assms(3) by (rule power_increasing) simp
  then have "1 / (2 * 10 ^ f) \<le> 1 / (20 :: rat)" by (simp add: field_simps)
  with assms(1) have "\<bar>y - b / u\<bar> \<le> 1 / 20" by linarith
  then have "\<bar>y - b / u\<bar> * u \<le> 1 / 20 * u" using assms(2) by (simp add: mult_right_mono)
  moreover have "\<bar>y - b / u\<bar> * u = \<bar>y * u - b\<bar>"
    using assms(2) abs_mult [of "y - b / u" u] by (simp add: left_diff_distrib)
  ultimately show ?thesis by simp
qed

lemma printed_size:
  assumes "0 < u" and "1 \<le> f"
  shows "\<exists>y. parseFloat (toFixed f (of_nat b / u) @ CHR '' '' # r) = Num y \<and> \<bar>y * u - of_nat b\<bar> \<le> u / 20"
  using toFixed_reads_back [of "of_nat b / u" f r] scaled_error [of _ "of_nat b" u f] assms by fastforce

text \<open>
  The printed size is the size: read back as a number and multiplied by its unit it is off by
  at most a twentieth of the unit, and exact below a kilobyte. Both printers agree on it.
\<close>

theorem sizes_read_back:
  "list_all (\<lambda>format. \<exists>y. parseFloat (format b) = Num y
       \<and> (if b < 1024 then y = of_nat b else \<bar>y * size_unit b - of_nat b\<bar> \<le> size_unit b / 20))
     [formatSize, formatBytes]"
proof (cases "b < 1024")
  case True
  then show ?thesis by (simp add: formatSize_def formatBytes_def parseFloat_bytes)
next
  case False
  then show ?thesis
    using printed_size [of 1024 1 b "''KB''"] printed_size [of "1024 ^ 2" 1 b "''MB''"]
      printed_size [of "1024 ^ 3" 1 b "''GB''"] printed_size [of "1024 ^ 3" 2 b "''GB''"]
    by (simp add: formatSize_def formatBytes_def size_unit_def power2_eq_square power3_eq_cube mult.commute)
qed

text \<open>Rounding can carry into the next unit without changing its name.\<close>

lemma formatSize_carry: "formatSize 1048575 = ''1024.0 KB''"
proof -
  have "\<lfloor>(1048575 / 1024 :: rat) * 10 + 1 / 2\<rfloor> = 10240" by (simp add: floor_eq_iff)
  moreover have "nat_str 10 10240 = ''10240''" by (simp add: nat_str.simps digit_char_def)
  ultimately show ?thesis by (simp add: formatSize_def toFixed_def toFixed_nonneg_def)
qed

lemma int_str_nat: "int_str (int n) = nat_str 10 n"
  by (simp add: int_str_def)

lemma formatUptime_parts:
  assumes "0 \<le> seconds"
  shows "\<exists>h m s :: nat. \<lfloor>seconds\<rfloor> = int (h * 3600 + m * 60 + s) \<and> m < 60 \<and> s < 60
    \<and> formatUptime seconds =
        (if h > 0 then nat_str 10 h @ ''h '' @ nat_str 10 m @ ''m '' @ nat_str 10 s @ ''s''
         else if m > 0 then nat_str 10 m @ ''m '' @ nat_str 10 s @ ''s'' else nat_str 10 s @ ''s'')"
proof -
  define n where "n = nat \<lfloor>seconds\<rfloor>"
  have n: "\<lfloor>seconds\<rfloor> = int n" using assms by (simp add: n_def)
  let ?h = "n div 3600" and ?m = "n mod 3600 div 60" and ?s = "n mod 60"
  have "n mod 3600 mod 60 = n mod 60" by (rule mod_mod_cancel) simp
  then have e: "n = ?h * 3600 + ?m * 60 + ?s"
    using div_mult_mod_eq [of n 3600] div_mult_mod_eq [of "n mod 3600" 60] by linarith
  have parts: "int n div 3600 = int ?h" "int n mod 3600 div 60 = int ?m" "int n mod 60 = int ?s"
    by (simp_all add: zdiv_int zmod_int)
  have "formatUptime seconds =
        (if ?h > 0 then nat_str 10 ?h @ ''h '' @ nat_str 10 ?m @ ''m '' @ nat_str 10 ?s @ ''s''
         else if ?m > 0 then nat_str 10 ?m @ ''m '' @ nat_str 10 ?s @ ''s'' else nat_str 10 ?s @ ''s'')"
    unfolding formatUptime_def n Let_def parts by (simp only: int_str_nat of_nat_0_less_iff)
  moreover have "?m < 60" "?s < 60" by (simp_all add: div_less_iff_less_mult)
  ultimately show ?thesis using n e by (intro exI [of _ ?h] exI [of _ ?m] exI [of _ ?s]) simp
qed

end
