(* ===== verification/FileTree.thy ===== *)
theory FileTree
  imports Requests UrlApi Format "HOL-Library.Multiset"
begin

text \<open>
  \<^verbatim>\<open>features/terminal/FileTree.tsx\<close>: the order of a listing, the rows it is shown as, and the
  state of one folder of the tree, which loads its children when it is first opened.
\<close>

section \<open>Entries and their order\<close>

record FsEntry =
  fe_name :: string
  isDir :: bool
  fe_size :: nat
  modTime :: string

record FsList =
  fl_path :: string
  fl_parent :: "string option"
  fl_entries :: "FsEntry list"

text \<open>\<open>Array.prototype.sort\<close>: the stable sort by the sign of the comparator.\<close>

fun js_insert :: "('a \<Rightarrow> 'a \<Rightarrow> int) \<Rightarrow> 'a \<Rightarrow> 'a list \<Rightarrow> 'a list" where
  "js_insert cmp x [] = [x]"
| "js_insert cmp x (y # ys) = (if cmp x y \<le> 0 then x # y # ys else y # js_insert cmp x ys)"

definition js_sort :: "('a \<Rightarrow> 'a \<Rightarrow> int) \<Rightarrow> 'a list \<Rightarrow> 'a list" where
  "js_sort cmp xs = foldr (js_insert cmp) xs []"

text \<open>\<open>lc\<close> is \<open>localeCompare\<close>.\<close>

definition entry_order :: "(string \<Rightarrow> string \<Rightarrow> int) \<Rightarrow> FsEntry \<Rightarrow> FsEntry \<Rightarrow> int" where
  "entry_order lc a b = (if isDir a = isDir b then lc (fe_name a) (fe_name b) else if isDir a then -1 else 1)"

definition sortEntries :: "(string \<Rightarrow> string \<Rightarrow> int) \<Rightarrow> FsEntry list \<Rightarrow> FsEntry list" where
  "sortEntries lc es = js_sort (entry_order lc) es"

lemma mset_js_insert: "mset (js_insert cmp x ys) = add_mset x (mset ys)"
  by (induction ys) auto

lemma mset_js_sort: "mset (js_sort cmp xs) = mset xs"
  by (induction xs) (simp_all add: js_sort_def mset_js_insert)

lemma set_js_insert [simp]: "set (js_insert cmp x ys) = insert x (set ys)"
  by (induction ys) auto

lemma js_insert_split:
  assumes "\<forall>a \<in> set ds. isDir a" and "\<forall>a \<in> set fs. \<not> isDir a"
  shows "js_insert (entry_order lc) x (ds @ fs) =
     (if isDir x then js_insert (\<lambda>a b. lc (fe_name a) (fe_name b)) x ds @ fs
      else ds @ js_insert (\<lambda>a b. lc (fe_name a) (fe_name b)) x fs)"
proof (cases "isDir x")
  case True
  have "js_insert (entry_order lc) x fs = x # fs"
    using True assms(2) by (cases fs) (auto simp: entry_order_def)
  with True assms(1) show ?thesis by (induction ds) (auto simp: entry_order_def)
next
  case False
  have "js_insert (entry_order lc) x fs = js_insert (\<lambda>a b. lc (fe_name a) (fe_name b)) x fs"
    using False assms(2) by (induction fs) (auto simp: entry_order_def)
  with False assms(1) show ?thesis by (induction ds) (auto simp: entry_order_def)
qed

lemma set_js_sort [simp]: "set (js_sort cmp xs) = set xs"
  by (induction xs) (simp_all add: js_sort_def)

lemma sortEntries_split:
  "sortEntries lc es =
     js_sort (\<lambda>a b. lc (fe_name a) (fe_name b)) (filter isDir es)
     @ js_sort (\<lambda>a b. lc (fe_name a) (fe_name b)) (filter (\<lambda>e. \<not> isDir e) es)"
proof (induction es)
  case (Cons e es)
  let ?c = "\<lambda>a b. lc (fe_name a) (fe_name b)"
  have "js_insert (entry_order lc) e (js_sort ?c (filter isDir es) @ js_sort ?c (filter (\<lambda>e. \<not> isDir e) es))
    = (if isDir e then js_insert ?c e (js_sort ?c (filter isDir es)) @ js_sort ?c (filter (\<lambda>e. \<not> isDir e) es)
       else js_sort ?c (filter isDir es) @ js_insert ?c e (js_sort ?c (filter (\<lambda>e. \<not> isDir e) es)))"
    by (rule js_insert_split) auto
  with Cons show ?case by (simp add: sortEntries_def js_sort_def)
qed (simp add: sortEntries_def js_sort_def)

text \<open>What the standard says of \<open>localeCompare\<close>: its sign is a total preorder.\<close>

definition total_preorder :: "('a \<Rightarrow> 'a \<Rightarrow> int) \<Rightarrow> bool" where
  "total_preorder cmp =
     ((\<forall>a b. sgn (cmp a b) = - sgn (cmp b a)) \<and> (\<forall>a b c. cmp a b \<le> 0 \<longrightarrow> cmp b c \<le> 0 \<longrightarrow> cmp a c \<le> 0))"

lemma total_preorder_flip:
  assumes "total_preorder cmp"
  shows "cmp a b \<le> 0 \<longleftrightarrow> 0 \<le> cmp b a"
proof -
  have s: "sgn (cmp a b) = - sgn (cmp b a)" using assms unfolding total_preorder_def by blast
  have "cmp a b \<le> 0 \<longleftrightarrow> sgn (cmp a b) \<le> 0" by (simp add: sgn_if)
  also have "\<dots> \<longleftrightarrow> 0 \<le> sgn (cmp b a)" using s by simp
  also have "\<dots> \<longleftrightarrow> 0 \<le> cmp b a" by (simp add: sgn_if)
  finally show ?thesis .
qed

lemma sorted_js_insert:
  assumes "total_preorder cmp" and "sorted_wrt (\<lambda>a b. cmp a b \<le> 0) ys"
  shows "sorted_wrt (\<lambda>a b. cmp a b \<le> 0) (js_insert cmp x ys)"
  using assms(2)
proof (induction ys)
  case (Cons y ys)
  have "cmp x y \<le> 0 \<Longrightarrow> z \<in> set ys \<Longrightarrow> cmp x z \<le> 0" for z
    using Cons.prems assms(1) unfolding total_preorder_def by (metis list.set_intros(2) sorted_wrt.simps(2))
  with Cons show ?case using total_preorder_flip [OF assms(1), of y x] by auto
qed simp

lemma sorted_js_sort: "total_preorder cmp \<Longrightarrow> sorted_wrt (\<lambda>a b. cmp a b \<le> 0) (js_sort cmp xs)"
  by (induction xs) (simp_all add: js_sort_def sorted_js_insert)

lemma stable_js_insert:
  assumes "total_preorder cmp"
  shows "filter (\<lambda>a. cmp a k = 0) (js_insert cmp x ys) = filter (\<lambda>a. cmp a k = 0) (x # ys)"
proof (induction ys)
  case (Cons y ys)
  have "\<not> (cmp x k = 0 \<and> cmp y k = 0)" if "0 < cmp x y"
  proof
    assume e: "cmp x k = 0 \<and> cmp y k = 0"
    then have "cmp k y \<le> 0" using total_preorder_flip [OF assms, of k y] by simp
    with e have "cmp x y \<le> 0" using assms unfolding total_preorder_def by (metis order_refl)
    with that show False by simp
  qed
  with Cons show ?case by auto
qed simp

lemma stable_js_sort:
  "total_preorder cmp \<Longrightarrow> filter (\<lambda>a. cmp a k = 0) (js_sort cmp xs) = filter (\<lambda>a. cmp a k = 0) xs"
  by (induction xs) (simp_all add: js_sort_def stable_js_insert)

text \<open>
  A listing is shown with the folders first and each group in the order of the names: no entry
  is lost or repeated, and entries whose names compare equal keep their order.
\<close>

theorem sortEntries_folders_first:
  assumes "total_preorder lc"
  shows "mset (sortEntries lc es) = mset es
    \<and> (\<exists>ds fs. sortEntries lc es = ds @ fs \<and> list_all isDir ds \<and> \<not> list_ex isDir fs
         \<and> sorted_wrt (\<lambda>a b. lc (fe_name a) (fe_name b) \<le> 0) ds
         \<and> sorted_wrt (\<lambda>a b. lc (fe_name a) (fe_name b) \<le> 0) fs
         \<and> (\<forall>n. filter (\<lambda>e. lc (fe_name e) n = 0) ds = filter (\<lambda>e. isDir e \<and> lc (fe_name e) n = 0) es
               \<and> filter (\<lambda>e. lc (fe_name e) n = 0) fs = filter (\<lambda>e. \<not> isDir e \<and> lc (fe_name e) n = 0) es))"
proof -
  let ?c = "\<lambda>a b. lc (fe_name a) (fe_name b)"
  have c: "total_preorder (?c :: FsEntry \<Rightarrow> FsEntry \<Rightarrow> int)"
    using assms unfolding total_preorder_def by blast
  have st: "filter (\<lambda>e. lc (fe_name e) n = 0) (js_sort ?c xs) = filter (\<lambda>e. lc (fe_name e) n = 0) xs"
    for n and xs :: "FsEntry list"
    using stable_js_sort [OF c, of "\<lparr>fe_name = n, isDir = True, fe_size = 0, modTime = []\<rparr>"] by simp
  define ds where "ds = js_sort ?c (filter isDir es)"
  define fs where "fs = js_sort ?c (filter (\<lambda>e. \<not> isDir e) es)"
  have split: "sortEntries lc es = ds @ fs" by (simp add: sortEntries_split ds_def fs_def)
  have "list_all isDir ds" "\<not> list_ex isDir fs" by (auto simp: ds_def fs_def list_all_iff list_ex_iff)
  moreover have "sorted_wrt (\<lambda>a b. ?c a b \<le> 0) ds" "sorted_wrt (\<lambda>a b. ?c a b \<le> 0) fs"
    by (simp_all add: ds_def fs_def sorted_js_sort [OF c])
  moreover have "filter (\<lambda>e. lc (fe_name e) n = 0) ds = filter (\<lambda>e. isDir e \<and> lc (fe_name e) n = 0) es"
      "filter (\<lambda>e. lc (fe_name e) n = 0) fs = filter (\<lambda>e. \<not> isDir e \<and> lc (fe_name e) n = 0) es" for n
    by (simp_all add: ds_def fs_def st conj_commute)
  ultimately show ?thesis
    using split mset_js_sort [of "entry_order lc" es] by (auto simp: sortEntries_def [symmetric])
qed

definition demo_compare :: "string \<Rightarrow> string \<Rightarrow> int" where
  "demo_compare a b = int (length a) - int (length b)"

definition demo_entries :: "FsEntry list" where
  "demo_entries =
     [\<lparr>fe_name = ''aaa'', isDir = False, fe_size = 3, modTime = ''2026''\<rparr>,
      \<lparr>fe_name = ''src'', isDir = True, fe_size = 0, modTime = ''2026''\<rparr>,
      \<lparr>fe_name = ''x'', isDir = False, fe_size = 9, modTime = ''2026''\<rparr>,
      \<lparr>fe_name = ''bb'', isDir = True, fe_size = 0, modTime = ''2026''\<rparr>]"

theorem sortEntries_folders_first_witness:
  "map fe_name (sortEntries demo_compare demo_entries) = [''bb'', ''src'', ''x'', ''aaa'']
   \<and> mset (sortEntries demo_compare demo_entries) = mset demo_entries"
proof -
  have "total_preorder demo_compare"
    by (auto simp: total_preorder_def demo_compare_def sgn_if)
  from sortEntries_folders_first [OF this, of demo_entries] show ?thesis
    by (simp add: sortEntries_def js_sort_def entry_order_def demo_compare_def demo_entries_def)
qed

section \<open>Rows\<close>

definition INDENT_BASE :: nat where "INDENT_BASE = 8"
definition INDENT_STEP :: nat where "INDENT_STEP = 16"

definition indentStyle :: "nat \<Rightarrow> nat" where
  "indentStyle depth = INDENT_BASE + depth * INDENT_STEP"

text \<open>A row: a folder with its path, or a file with the directory handed to \<open>onOpenFile\<close>, its
  size and its download link; both with their left padding.\<close>

datatype tree_row =
    FolderRow string string nat
  | FileRow string string string string nat

definition file_row :: "string \<Rightarrow> nat \<Rightarrow> FsEntry \<Rightarrow> tree_row" where
  "file_row dir depth e =
     FileRow (fe_name e) dir (formatSize (fe_size e)) (downloadUrl (joinPath dir (fe_name e))) (indentStyle depth)"

definition tree_rows :: "(string \<Rightarrow> string \<Rightarrow> int) \<Rightarrow> string \<Rightarrow> nat \<Rightarrow> FsEntry list \<Rightarrow> tree_row list" where
  "tree_rows lc path depth es =
     map (\<lambda>e. if isDir e then FolderRow (fe_name e) (joinPath path (fe_name e)) (indentStyle depth)
               else file_row path depth e) (sortEntries lc es)"

section \<open>A folder\<close>

record folder =
  fo_path :: string
  fo_depth :: nat
  fo_expanded :: bool
  fo_children :: "FsList option"
  fo_loading :: bool
  fo_error :: string
  fo_mounted :: bool                         \<comment> \<open>\<open>mountedRef\<close>\<close>
  fo_slot :: "(string, FsList reply) slot"

definition folder_init :: "string \<Rightarrow> nat \<Rightarrow> folder" where
  "folder_init path depth =
     \<lparr>fo_path = path, fo_depth = depth, fo_expanded = False, fo_children = None, fo_loading = False,
      fo_error = '''', fo_mounted = True, fo_slot = slot_empty\<rparr>"

definition folder_toggle :: "folder \<Rightarrow> folder" where
  "folder_toggle f =
     (let nxt = (\<not> fo_expanded f); f1 = f\<lparr>fo_expanded := nxt\<rparr> in
      if nxt \<and> fo_children f = None \<and> \<not> fo_loading f
      then f1\<lparr>fo_loading := True, fo_error := '''', fo_slot := slot_start (fo_path f) (fo_slot f)\<rparr>
      else f1)"

definition folder_answer :: "nat \<Rightarrow> FsList reply \<Rightarrow> folder \<Rightarrow> folder" where
  "folder_answer k r f =
     (let (mounted, sl) = slot_answer k r (fo_slot f); f1 = f\<lparr>fo_slot := sl\<rparr> in
      if \<not> mounted then f1
      else (case r of Got l \<Rightarrow> f1\<lparr>fo_children := Some l\<rparr>
                    | Err m \<Rightarrow> f1\<lparr>fo_error := err_text ''files.error'' m\<rparr>)\<lparr>fo_loading := False\<rparr>)"

definition folder_unmount :: "folder \<Rightarrow> folder" where
  "folder_unmount f = f\<lparr>fo_mounted := False, fo_slot := slot_cancel (fo_slot f)\<rparr>"

datatype listing_view =
    LoadingView | ErrorView string | EmptyView | NothingView | RowsView "tree_row list"

definition folder_view :: "(string \<Rightarrow> string \<Rightarrow> int) \<Rightarrow> folder \<Rightarrow> listing_view" where
  "folder_view lc f =
     (if \<not> fo_expanded f then NothingView
      else if fo_loading f then LoadingView
      else if length (fo_error f) > 0 then ErrorView (fo_error f)
      else case fo_children f of None \<Rightarrow> NothingView
        | Some l \<Rightarrow> if length (fl_entries l) = 0 then EmptyView
                    else RowsView (tree_rows lc (fo_path f) (Suc (fo_depth f)) (fl_entries l)))"

datatype folder_event = FolderToggle | FolderAnswer nat "FsList reply" | FolderUnmount

fun folder_step :: "folder \<Rightarrow> folder_event \<Rightarrow> folder" where
  "folder_step f FolderToggle = folder_toggle f"
| "folder_step f (FolderAnswer k r) = folder_answer k r f"
| "folder_step f FolderUnmount = folder_unmount f"

text \<open>A folder that has gone receives no more clicks.\<close>

fun folder_ok :: "folder \<Rightarrow> folder_event \<Rightarrow> bool" where
  "folder_ok f FolderToggle = fo_mounted f"
| "folder_ok f e = True"

text \<open>While it is on the page, a folder shows what became of the one request it last made.\<close>

fun kids_of :: "FsList reply option \<Rightarrow> FsList option" where
  "kids_of (Some (Got l)) = Some l"
| "kids_of _ = None"

definition folder_inv :: "folder \<Rightarrow> bool" where
  "folder_inv f =
     (let sl = fo_slot f; n = length (sl_asked sl) in
      slot_inv sl \<and> set (sl_asked sl) \<subseteq> {fo_path f}
      \<and> (if fo_mounted f
         then sl_live sl = (if n = 0 then None else Some (n - 1))
              \<and> fo_loading f = (n \<noteq> 0 \<and> slot_result sl = None)
              \<and> slot_waiting sl = (if fo_loading f then {n - 1} else {})
              \<and> fo_children f = kids_of (slot_result sl)
              \<and> fo_error f = error_of ''files.error'' (slot_result sl)
              \<and> (fo_expanded f \<longrightarrow> n \<noteq> 0)
         else sl_live sl = None))"

lemma folder_inv_init: "folder_inv (folder_init p d)"
  by (simp add: folder_inv_def folder_init_def)

lemma folder_inv_toggle:
  assumes "folder_inv f" and "fo_mounted f"
  shows "folder_inv (folder_toggle f)"
proof (cases "\<not> fo_expanded f \<and> fo_children f = None \<and> \<not> fo_loading f")
  case True
  then have "folder_toggle f = f\<lparr>fo_expanded := True, fo_loading := True, fo_error := '''',
      fo_slot := slot_start (fo_path f) (fo_slot f)\<rparr>"
    by (simp add: folder_toggle_def Let_def)
  with True assms show ?thesis
    by (simp add: folder_inv_def Let_def effect.start_inv effect.start_result waiting_start)
next
  case False
  then have t: "folder_toggle f = f\<lparr>fo_expanded := \<not> fo_expanded f\<rparr>"
    by (auto simp: folder_toggle_def Let_def)
  have "fo_expanded f \<or> fo_children f \<noteq> None \<or> fo_loading f" using False by simp
  then have "length (sl_asked (fo_slot f)) \<noteq> 0"
    using assms by (cases "sl_asked (fo_slot f) = []") (simp_all add: folder_inv_def Let_def)
  with assms show ?thesis by (simp add: t folder_inv_def Let_def)
qed

lemma folder_inv_answer:
  assumes "folder_inv f"
  shows "folder_inv (folder_answer k r f)"
proof -
  have inv: "slot_inv (fo_slot f)" using assms by (simp add: folder_inv_def Let_def)
  from inv show ?thesis
  proof (cases rule: slot_answer_cases [where k = k and r = r])
    case (delivered sl)
    have m: "fo_mounted f" using assms delivered by (cases "fo_mounted f") (simp_all add: folder_inv_def Let_def)
    with assms delivered have "fo_children f = None" "fo_error f = ''''" by (simp_all add: folder_inv_def Let_def)
    then have "folder_answer k r f = f\<lparr>fo_slot := sl, fo_loading := False, fo_children := kids_of (Some r),
        fo_error := error_of ''files.error'' (Some r)\<rparr>"
      using delivered(1) by (cases r) (simp_all add: folder_answer_def)
    with delivered m assms show ?thesis by (simp add: folder_inv_def Let_def split: if_splits)
  next
    case (dropped sl)
    have "fo_mounted f \<Longrightarrow> k \<notin> slot_waiting (fo_slot f)"
      using dropped(6) assms by (auto simp: folder_inv_def Let_def simp del: length_0_conv split: if_splits)
    moreover have "folder_answer k r f = f\<lparr>fo_slot := sl\<rparr>" using dropped(1) by (simp add: folder_answer_def)
    ultimately show ?thesis using assms dropped
      by (cases "fo_mounted f") (simp_all add: folder_inv_def Let_def)
  qed
qed

lemma folder_inv_step: "folder_inv f \<Longrightarrow> folder_ok f e \<Longrightarrow> folder_inv (folder_step f e)"
  by (cases e) (simp_all add: folder_inv_toggle folder_inv_answer, simp add: folder_inv_def folder_unmount_def effect.cancel_inv Let_def)

interpretation folder_run: machine_inv folder_step folder_ok folder_inv
  by unfold_locales (rule folder_inv_step)

lemma folder_place:
  "fo_path (run folder_step (folder_init p d) es) = p \<and> fo_depth (run folder_step (folder_init p d) es) = d"
proof -
  have step: "fo_path (folder_step f e) = fo_path f \<and> fo_depth (folder_step f e) = fo_depth f" for f e
    by (cases e) (simp_all add: folder_toggle_def folder_answer_def folder_unmount_def Let_def
        split: prod.split reply.split)
  have "fo_path (run folder_step f es) = fo_path f \<and> fo_depth (run folder_step f es) = fo_depth f" for f
    by (induction es arbitrary: f) (simp_all add: step)
  then show ?thesis by (simp add: folder_init_def)
qed

lemma folder_loaded_toggle: "fo_children f = Some l \<Longrightarrow> folder_toggle f = f\<lparr>fo_expanded := \<not> fo_expanded f\<rparr>"
  by (simp add: folder_toggle_def Let_def)

lemma folder_loaded_answer:
  assumes "folder_inv f" and "fo_children f = Some l"
  shows "fo_children (folder_answer k r f) = Some l \<and> sl_asked (fo_slot (folder_answer k r f)) = sl_asked (fo_slot f)"
proof -
  have "\<not> fst (slot_answer k r (fo_slot f))"
  proof (cases "fo_mounted f")
    case True
    then have "slot_result (fo_slot f) \<noteq> None" "slot_inv (fo_slot f)"
      using assms by (auto simp: folder_inv_def Let_def)
    then show ?thesis by (rule effect.answered_silent [rotated])
  next
    case False
    then show ?thesis
      using assms(1) delivered_waiting [of k r "fo_slot f"] by (auto simp: folder_inv_def Let_def)
  qed
  then have "folder_answer k r f = f\<lparr>fo_slot := snd (slot_answer k r (fo_slot f))\<rparr>"
    by (simp add: folder_answer_def split_beta)
  with assms(2) show ?thesis by simp
qed

lemma folder_loaded_run:
  "folder_inv f \<Longrightarrow> fo_children f = Some l \<Longrightarrow> run_ok folder_step folder_ok f es \<Longrightarrow>
     fo_children (run folder_step f es) = Some l
     \<and> sl_asked (fo_slot (run folder_step f es)) = sl_asked (fo_slot f)"
proof (induction es arbitrary: f)
  case (Cons e es)
  have "fo_children (folder_step f e) = Some l \<and> sl_asked (fo_slot (folder_step f e)) = sl_asked (fo_slot f)"
    using Cons.prems folder_loaded_toggle folder_loaded_answer
    by (cases e) (simp_all add: folder_unmount_def)
  with Cons folder_inv_step [of f e] show ?case by simp
qed simp

lemma folder_view_result:
  assumes "folder_inv f" and "fo_mounted f"
  shows "folder_view lc f =
     (if \<not> fo_expanded f then NothingView
      else case slot_result (fo_slot f) of
        None \<Rightarrow> LoadingView
      | Some (Got l) \<Rightarrow> if fl_entries l = [] then EmptyView
                        else RowsView (tree_rows lc (fo_path f) (Suc (fo_depth f)) (fl_entries l))
      | Some (Err m) \<Rightarrow> if err_text ''files.error'' m = '''' then NothingView
                        else ErrorView (err_text ''files.error'' m))"
  using assms by (auto simp: folder_inv_def folder_view_def Let_def split: option.split reply.split)

text \<open>
  A folder of the tree asks for its own path only, has at most one request on its way, and shows
  what became of the last one: the loading line until the answer, then its entries or the
  error. Once it has its entries it never asks again, however often it is opened and closed;
  after an error the next opening asks again. Answers that come after it left the page change
  nothing that is shown.
\<close>

theorem folder_shows_answer:
  assumes "run_ok folder_step folder_ok (folder_init p d) (es @ es')"
  shows "let f = run folder_step (folder_init p d) es; f' = run folder_step f es' in
    set (sl_asked (fo_slot f)) \<subseteq> {p}
    \<and> (if fo_children f \<noteq> None
       then fo_children f' = fo_children f \<and> sl_asked (fo_slot f') = sl_asked (fo_slot f) else True)
    \<and> (if fo_mounted f then
         card (slot_waiting (fo_slot f)) \<le> 1
         \<and> folder_view lc f =
             (if \<not> fo_expanded f then NothingView
              else case slot_result (fo_slot f) of
                None \<Rightarrow> LoadingView
              | Some (Got l) \<Rightarrow> if fl_entries l = [] then EmptyView
                                else RowsView (tree_rows lc p (Suc d) (fl_entries l))
              | Some (Err m) \<Rightarrow> if err_text ''files.error'' m = '''' then NothingView
                                else ErrorView (err_text ''files.error'' m))
       else True)"
proof -
  let ?f = "run folder_step (folder_init p d) es"
  have ok: "run_ok folder_step folder_ok (folder_init p d) es" "run_ok folder_step folder_ok ?f es'"
    using assms by simp_all
  have inv: "folder_inv ?f" by (rule folder_run.run_inv [OF folder_inv_init ok(1)])
  have place: "fo_path ?f = p" "fo_depth ?f = d" using folder_place by simp_all
  have "card (slot_waiting (fo_slot ?f)) \<le> 1" if "fo_mounted ?f"
    using inv that by (simp add: folder_inv_def Let_def)
  moreover have "set (sl_asked (fo_slot ?f)) \<subseteq> {p}"
    using inv place by (simp add: folder_inv_def Let_def)
  moreover have "if fo_children ?f \<noteq> None
       then fo_children (run folder_step ?f es') = fo_children ?f
         \<and> sl_asked (fo_slot (run folder_step ?f es')) = sl_asked (fo_slot ?f) else True"
    using folder_loaded_run [OF inv _ ok(2)] by auto
  ultimately show ?thesis
    using folder_view_result [OF inv, of lc, unfolded place]
    by (cases "fo_mounted ?f") (simp_all add: Let_def)
qed

theorem folder_shows_answer_witness:
  "let f = run folder_step (folder_init ''/a'' 0)
        [FolderToggle, FolderAnswer 0 (Err None), FolderToggle, FolderToggle,
         FolderAnswer 1 (Got \<lparr>fl_path = ''/a'', fl_parent = None, fl_entries = []\<rparr>)] in
     folder_view demo_compare f = EmptyView \<and> sl_asked (fo_slot f) = [''/a'', ''/a'']"
  using folder_shows_answer [of "''/a''" 0 "[FolderToggle, FolderAnswer 0 (Err None), FolderToggle, FolderToggle,
         FolderAnswer 1 (Got \<lparr>fl_path = ''/a'', fl_parent = None, fl_entries = []\<rparr>)]" "[]" demo_compare]
  by (simp add: folder_toggle_def folder_answer_def folder_init_def slot_start_def slot_answer_def
      slot_empty_def slot_result_def err_text_def Let_def)

end
