(* ===== verification/FileBrowser.thy ===== *)
theory FileBrowser
  imports FileTree Toasts
begin

text \<open>
  \<^verbatim>\<open>features/terminal/FileBrowser.tsx\<close>: the listing of the terminal's directory, uploads by the
  file input and by drop, and which file is open in the editor. The listing is one
  cancellable request (\<open>Requests\<close>); the uploads are requests without a cleanup.
\<close>

section \<open>State and handlers\<close>

record browser =
  fb_path :: string
  fb_data :: "FsList option"
  fb_loading :: bool
  fb_error :: string
  uploading :: bool
  uploadingRef :: bool
  fb_input :: "string list"                          \<comment> \<open>what the file input holds\<close>
  dragOver :: bool
  editing :: "(string \<times> string) option"
  fb_slot :: "(string, FsList reply) slot"
  fb_uploads :: "(bool \<times> string list, unit reply) slot"  \<comment> \<open>from the input?, the files\<close>
  fb_mounted :: bool
  fb_notices :: "(string \<times> ToastKind) list"

definition list_effect :: "browser \<Rightarrow> browser" where
  "list_effect b = b\<lparr>fb_loading := True, fb_error := '''', fb_slot := slot_start (fb_path b) (fb_slot b)\<rparr>"

definition browser_mount :: "string \<Rightarrow> browser" where
  "browser_mount path =
     list_effect \<lparr>fb_path = path, fb_data = None, fb_loading = True, fb_error = '''', uploading = False,
       uploadingRef = False, fb_input = [], dragOver = False, editing = None, fb_slot = slot_empty,
       fb_uploads = slot_empty, fb_mounted = True, fb_notices = []\<rparr>"

definition list_answer :: "nat \<Rightarrow> FsList reply \<Rightarrow> browser \<Rightarrow> browser" where
  "list_answer k r b =
     (let (live, sl) = slot_answer k r (fb_slot b); b1 = b\<lparr>fb_slot := sl\<rparr> in
      if \<not> live then b1
      else (case r of Got l \<Rightarrow> b1\<lparr>fb_data := Some l\<rparr>
                    | Err m \<Rightarrow> b1\<lparr>fb_error := err_text ''files.error'' m\<rparr>)\<lparr>fb_loading := False\<rparr>)"

definition upload :: "bool \<Rightarrow> string list \<Rightarrow> browser \<Rightarrow> browser" where
  "upload fromInput files b =
     (if length files = 0 \<or> uploadingRef b then (if fromInput then b\<lparr>fb_input := []\<rparr> else b)
      else b\<lparr>uploadingRef := True, uploading := True, fb_uploads := slot_start (fromInput, files) (fb_uploads b)\<rparr>)"

text \<open>The answer of an upload: what follows the \<open>await\<close>, the \<open>finally\<close>, and the one of \<open>onChooseFiles\<close>.
  \<open>setTick\<close> runs the listing effect again, unless the panel has gone.\<close>

definition upload_answer :: "nat \<Rightarrow> unit reply \<Rightarrow> browser \<Rightarrow> browser" where
  "upload_answer k r b =
     (if k \<notin> slot_waiting (fb_uploads b) then b
      else
        let (fromInput, files) = sl_asked (fb_uploads b) ! k;
            b1 = b\<lparr>fb_uploads := snd (slot_answer k r (fb_uploads b))\<rparr>;
            b2 = (case r of
                    Got u \<Rightarrow>
                      (let n = b1\<lparr>fb_notices := fb_notices b1 @ [(''toast.uploaded:'' @ nat_str 10 (length files), Success)]\<rparr>
                       in if fb_mounted n then list_effect n else n)
                  | Err m \<Rightarrow> b1\<lparr>fb_notices := fb_notices b1 @ [(err_text ''toast.uploadFailed'' m, Error)]\<rparr>);
            b3 = b2\<lparr>uploadingRef := False, uploading := False, dragOver := False\<rparr>
        in if fromInput then b3\<lparr>fb_input := []\<rparr> else b3)"

definition onChooseFiles :: "string list \<Rightarrow> browser \<Rightarrow> browser" where
  "onChooseFiles files b = upload True files (b\<lparr>fb_input := files\<rparr>)"

definition onDrop :: "string list \<Rightarrow> browser \<Rightarrow> browser" where
  "onDrop files b = upload False files b"

definition openFile :: "string \<Rightarrow> string \<Rightarrow> browser \<Rightarrow> browser" where
  "openFile name dir b = b\<lparr>editing := Some (name, joinPath dir name)\<rparr>"

datatype browser_event =
    PathChanged string
  | TranslationChanged
  | Retry
  | ListAnswer nat "FsList reply"
  | ChooseFiles "string list"
  | DropFiles "string list"
  | UploadAnswer nat "unit reply"
  | DragOver
  | DragLeave bool                 \<comment> \<open>left the panel itself, not a child\<close>
  | OpenFile string string
  | CloseEditor
  | BrowserUnmount

fun browser_step :: "browser \<Rightarrow> browser_event \<Rightarrow> browser" where
  "browser_step b (PathChanged p) = list_effect (b\<lparr>fb_path := p\<rparr>)"
| "browser_step b TranslationChanged = list_effect b"
| "browser_step b Retry = list_effect b"
| "browser_step b (ListAnswer k r) = list_answer k r b"
| "browser_step b (ChooseFiles fs) = onChooseFiles fs b"
| "browser_step b (DropFiles fs) = onDrop fs b"
| "browser_step b (UploadAnswer k r) = upload_answer k r b"
| "browser_step b DragOver = b\<lparr>dragOver := True\<rparr>"
| "browser_step b (DragLeave self) = (if self then b\<lparr>dragOver := False\<rparr> else b)"
| "browser_step b (OpenFile name dir) = openFile name dir b"
| "browser_step b CloseEditor = b\<lparr>editing := None\<rparr>"
| "browser_step b BrowserUnmount = b\<lparr>fb_mounted := False, fb_slot := slot_cancel (fb_slot b)\<rparr>"

text \<open>Only answers reach a panel that has gone.\<close>

fun browser_ok :: "browser \<Rightarrow> browser_event \<Rightarrow> bool" where
  "browser_ok b (ListAnswer k r) = True"
| "browser_ok b (UploadAnswer k r) = True"
| "browser_ok b e = fb_mounted b"

text \<open>The body of the panel when no file is open.\<close>

definition browser_view :: "(string \<Rightarrow> string \<Rightarrow> int) \<Rightarrow> browser \<Rightarrow> listing_view" where
  "browser_view lc b =
     (if length (fb_error b) > 0 then ErrorView (fb_error b)
      else case fb_data b of
        None \<Rightarrow> LoadingView
      | Some l \<Rightarrow> if fb_loading b then LoadingView
                  else if length (fl_entries l) = 0 then EmptyView
                  else RowsView (tree_rows lc (fl_path l) 0 (fl_entries l)))"

section \<open>Invariant\<close>

definition browser_inv :: "browser \<Rightarrow> bool" where
  "browser_inv b =
     (slot_inv (fb_slot b) \<and> slot_inv (fb_uploads b)
      \<and> uploading b = uploadingRef b
      \<and> slot_waiting (fb_uploads b) = (if uploadingRef b then {length (sl_asked (fb_uploads b)) - 1} else {})
      \<and> (uploadingRef b \<longrightarrow> sl_asked (fb_uploads b) \<noteq> [])
      \<and> list_all (\<lambda>q. snd q \<noteq> []) (sl_asked (fb_uploads b))
      \<and> (if fb_mounted b
         then slot_request (fb_slot b) = Some (fb_path b)
              \<and> fb_loading b = (slot_result (fb_slot b) = None)
              \<and> fb_error b = error_of ''files.error'' (slot_result (fb_slot b))
              \<and> (\<forall>l. slot_result (fb_slot b) = Some (Got l) \<longrightarrow> fb_data b = Some l)
         else sl_live (fb_slot b) = None))"

lemma list_effect_inv:
  assumes "browser_inv b" and "fb_mounted b"
  shows "browser_inv (list_effect (b\<lparr>fb_path := p\<rparr>))"
  using assms
  by (simp add: browser_inv_def list_effect_def effect.start_inv effect.start_result effect.start_request)

lemma list_effect_inv_same: "browser_inv b \<Longrightarrow> fb_mounted b \<Longrightarrow> browser_inv (list_effect b)"
  using list_effect_inv [of b "fb_path b"] by simp

lemma browser_mount_inv: "browser_inv (browser_mount p)"
  by (simp add: browser_inv_def browser_mount_def list_effect_def effect.start_inv effect.start_result
      effect.start_request)

lemma list_answer_inv:
  assumes "browser_inv b"
  shows "browser_inv (list_answer k r b)"
proof -
  have inv: "slot_inv (fb_slot b)" using assms by (simp add: browser_inv_def)
  from inv show ?thesis
  proof (cases rule: slot_answer_cases [where k = k and r = r])
    case (delivered sl)
    have m: "fb_mounted b" using assms delivered by (cases "fb_mounted b") (simp_all add: browser_inv_def)
    have req: "slot_request sl = slot_request (fb_slot b)"
      using effect.answer_request [of k r "fb_slot b"] delivered(1) by simp
    have "fb_error b = ''''" using assms delivered m by (simp add: browser_inv_def)
    with delivered m req assms show ?thesis
      by (cases r) (simp_all add: list_answer_def browser_inv_def)
  next
    case (dropped sl)
    have req: "slot_request sl = slot_request (fb_slot b)"
      using effect.answer_request [of k r "fb_slot b"] dropped(1) by simp
    have "list_answer k r b = b\<lparr>fb_slot := sl\<rparr>" using dropped(1) by (simp add: list_answer_def)
    with assms dropped req show ?thesis by (simp add: browser_inv_def)
  qed
qed

lemma upload_inv:
  assumes "browser_inv b"
  shows "browser_inv (upload fromInput files b)"
  using assms by (simp add: browser_inv_def upload_def effect.start_inv waiting_start)

lemma browser_inv_input [simp]: "browser_inv (b\<lparr>fb_input := x\<rparr>) = browser_inv b"
  by (simp add: browser_inv_def)

lemma browser_inv_drag [simp]: "browser_inv (b\<lparr>dragOver := x\<rparr>) = browser_inv b"
  by (simp add: browser_inv_def)

lemma browser_inv_editing [simp]: "browser_inv (b\<lparr>editing := x\<rparr>) = browser_inv b"
  by (simp add: browser_inv_def)

lemma browser_inv_notices [simp]: "browser_inv (b\<lparr>fb_notices := x\<rparr>) = browser_inv b"
  by (simp add: browser_inv_def)

lemma upload_answered_inv:
  assumes "browser_inv b" and "k \<in> slot_waiting (fb_uploads b)"
  shows "browser_inv (b\<lparr>fb_uploads := snd (slot_answer k r (fb_uploads b)), uploadingRef := False, uploading := False\<rparr>)"
  using assms by (auto simp: browser_inv_def effect.answer_inv waiting_answer split: if_splits)

lemma upload_answer_inv:
  assumes "browser_inv b"
  shows "browser_inv (upload_answer k r b)"
proof (cases "k \<in> slot_waiting (fb_uploads b)")
  case True
  let ?b = "b\<lparr>fb_uploads := snd (slot_answer k r (fb_uploads b)), uploadingRef := False, uploading := False\<rparr>"
  obtain fromInput files where q: "sl_asked (fb_uploads b) ! k = (fromInput, files)" by (cases "sl_asked (fb_uploads b) ! k")
  let ?n = "(case r of Got u \<Rightarrow> (''toast.uploaded:'' @ nat_str 10 (length files), Success)
                     | Err m \<Rightarrow> (err_text ''toast.uploadFailed'' m, Error))"
  define c where "c = ?b\<lparr>dragOver := False, fb_notices := fb_notices b @ [?n], fb_input := (if fromInput then [] else fb_input b)\<rparr>"
  have c: "browser_inv c" "fb_mounted c = fb_mounted b"
    using upload_answered_inv [OF assms True] by (simp_all add: c_def)
  have "upload_answer k r b = (if fb_mounted b \<and> r = Got () then list_effect c else c)"
    using True q by (cases r) (simp_all add: upload_answer_def list_effect_def c_def Let_def)
  with c list_effect_inv_same [OF c(1)] show ?thesis by simp
qed (simp add: upload_answer_def assms)

lemma browser_inv_step: "browser_inv b \<Longrightarrow> browser_ok b e \<Longrightarrow> browser_inv (browser_step b e)"
proof (cases e)
  case BrowserUnmount
  assume "browser_inv b"
  with BrowserUnmount show ?thesis by (simp add: browser_inv_def effect.cancel_inv)
qed (simp_all add: list_effect_inv list_effect_inv_same list_answer_inv upload_inv upload_answer_inv
       onChooseFiles_def onDrop_def openFile_def)

interpretation browser_run: machine_inv browser_step browser_ok browser_inv
  by unfold_locales (rule browser_inv_step)

section \<open>What the panel shows\<close>

text \<open>
  C31. The panel shows the listing of its directory as of the latest request: loading until the
  answer, then that answer, whatever answers of older requests arrive and whatever was shown
  before. At most one upload is on its way, it has at least one file, and the busy state is
  shown exactly while it is; an upload that succeeds is followed by a new listing.
\<close>

theorem browser_shows_latest:
  assumes "run_ok browser_step browser_ok (browser_mount p) es"
  shows "let b = run browser_step (browser_mount p) es in
    card (slot_waiting (fb_uploads b)) \<le> 1
    \<and> uploading b = (slot_waiting (fb_uploads b) \<noteq> {})
    \<and> list_all (\<lambda>q. snd q \<noteq> []) (sl_asked (fb_uploads b))
    \<and> (if fb_mounted b then
         slot_request (fb_slot b) = Some (fb_path b)
         \<and> browser_view lc b =
             (case slot_result (fb_slot b) of
                None \<Rightarrow> LoadingView
              | Some (Got l) \<Rightarrow> if fl_entries l = [] then EmptyView else RowsView (tree_rows lc (fl_path l) 0 (fl_entries l))
              | Some (Err m) \<Rightarrow> if err_text ''files.error'' m = '''' then browser_view lc b
                                else ErrorView (err_text ''files.error'' m))
         \<and> (if uploading b
            then slot_result (fb_slot (upload_answer (length (sl_asked (fb_uploads b)) - 1) (Got ()) b)) = None
              \<and> \<not> uploading (upload_answer (length (sl_asked (fb_uploads b)) - 1) (Got ()) b) else True)
       else True)"
proof -
  let ?b = "run browser_step (browser_mount p) es"
  have inv: "browser_inv ?b" by (rule browser_run.run_inv [OF browser_mount_inv assms])
  have view: "browser_view lc b =
             (case slot_result (fb_slot b) of
                None \<Rightarrow> LoadingView
              | Some (Got l) \<Rightarrow> if fl_entries l = [] then EmptyView else RowsView (tree_rows lc (fl_path l) 0 (fl_entries l))
              | Some (Err m) \<Rightarrow> if err_text ''files.error'' m = '''' then browser_view lc b
                                else ErrorView (err_text ''files.error'' m))"
    if "browser_inv b" "fb_mounted b" for b
  proof (cases "slot_result (fb_slot b)")
    case None
    with that show ?thesis by (simp add: browser_inv_def browser_view_def split: option.split)
  next
    case (Some r)
    with that show ?thesis by (cases r) (simp_all add: browser_inv_def browser_view_def)
  qed
  have up: "slot_result (fb_slot (upload_answer (length (sl_asked (fb_uploads b)) - 1) (Got ()) b)) = None
      \<and> \<not> uploading (upload_answer (length (sl_asked (fb_uploads b)) - 1) (Got ()) b)"
    if "browser_inv b" "fb_mounted b" "uploading b" for b
    using that by (simp add: browser_inv_def upload_answer_def list_effect_def effect.start_result split_beta Let_def)
  have "card (slot_waiting (fb_uploads ?b)) \<le> 1 \<and> uploading ?b = (slot_waiting (fb_uploads ?b) \<noteq> {})
      \<and> list_all (\<lambda>q. snd q \<noteq> []) (sl_asked (fb_uploads ?b))"
    using inv by (simp add: browser_inv_def)
  moreover have "fb_mounted ?b \<Longrightarrow> slot_request (fb_slot ?b) = Some (fb_path ?b)"
    using inv by (simp add: browser_inv_def)
  ultimately show ?thesis
    unfolding Let_def using view [OF inv] up [OF inv] by (cases "fb_mounted ?b") (simp_all only: if_True if_False simp_thms, simp)
qed

definition demo_listing :: FsList where
  "demo_listing = \<lparr>fl_path = ''/w'', fl_parent = None, fl_entries = demo_entries\<rparr>"

theorem browser_shows_latest_witness:
  "let b = run browser_step (browser_mount ''/w'')
        [ListAnswer 0 (Err None), Retry, DropFiles [''f''], TranslationChanged, ListAnswer 1 (Err None),
         ListAnswer 2 (Got demo_listing), UploadAnswer 0 (Got ())] in
     browser_view demo_compare b = LoadingView \<and> fb_data b = Some demo_listing \<and> \<not> uploading b"
  using browser_shows_latest [of "''/w''" "[ListAnswer 0 (Err None), Retry, DropFiles [''f''], TranslationChanged,
         ListAnswer 1 (Err None), ListAnswer 2 (Got demo_listing), UploadAnswer 0 (Got ())]" demo_compare]
  by (simp add: browser_mount_def list_effect_def list_answer_def onDrop_def upload_def upload_answer_def
      slot_start_def slot_answer_def slot_empty_def slot_waiting_def slot_result_def Let_def)

text \<open>A drop without files (dragged text, say) leaves the panel highlighted.\<close>

lemma empty_drop_keeps_highlight:
  "dragOver (run browser_step b [DragOver, DropFiles []]) \<and> \<not> dragOver (run browser_step b [DragOver, DragLeave True])"
  by (simp add: onDrop_def upload_def)

end
