(* ===== verification/FileEditor.thy ===== *)
theory FileEditor
  imports Requests Toasts Confirm
begin

text \<open>
  \<^verbatim>\<open>features/terminal/FileEditor.tsx\<close>: loading a file, the text area, saving, and closing with a
  question when there are unsaved changes. The file on the server is part of the state:
  \<open>ServerReads\<close> is the moment a read request takes its snapshot, \<open>ServerWrites\<close> the moment a
  write request takes effect.
\<close>

section \<open>State and handlers\<close>

record editor =
  ed_path :: string
  ed_content :: "string option"
  ed_original :: string
  ed_loading :: bool
  ed_error :: string
  ed_saving :: bool
  ed_savingRef :: bool
  ed_slot :: "(string, string reply) slot"
  ed_writes :: "(string \<times> string, unit reply) slot"   \<comment> \<open>path, content\<close>
  ed_conf :: confirm_state
  ed_asking :: "nat list"                             \<comment> \<open>promises that \<open>handleClose\<close> awaits\<close>
  ed_closed :: nat                                    \<comment> \<open>calls of \<open>onClose\<close>\<close>
  ed_mounted :: bool
  ed_notices :: "(string \<times> ToastKind) list"
  srv_file :: string                                  \<comment> \<open>the file on the server\<close>
  srv_snaps :: "(nat \<times> string) list"                  \<comment> \<open>what the server read for which request\<close>
  srv_done :: "nat list"                              \<comment> \<open>writes that took effect\<close>

definition load_effect :: "editor \<Rightarrow> editor" where
  "load_effect d =
     d\<lparr>ed_loading := True, ed_error := '''', ed_content := None, ed_slot := slot_start (ed_path d) (ed_slot d)\<rparr>"

definition editor_mount :: "string \<Rightarrow> string \<Rightarrow> editor" where
  "editor_mount path file =
     load_effect \<lparr>ed_path = path, ed_content = None, ed_original = '''', ed_loading = True, ed_error = '''',
       ed_saving = False, ed_savingRef = False, ed_slot = slot_empty, ed_writes = slot_empty,
       ed_conf = useConfirm, ed_asking = [], ed_closed = 0, ed_mounted = True, ed_notices = [],
       srv_file = file, srv_snaps = [], srv_done = []\<rparr>"

definition read_answer :: "nat \<Rightarrow> string reply \<Rightarrow> editor \<Rightarrow> editor" where
  "read_answer k r d =
     (let (live, sl) = slot_answer k r (ed_slot d); d1 = d\<lparr>ed_slot := sl\<rparr> in
      if \<not> live then d1
      else (case r of Got c \<Rightarrow> d1\<lparr>ed_content := Some c, ed_original := c\<rparr>
                    | Err m \<Rightarrow> d1\<lparr>ed_error := err_text ''editor.loadError'' m\<rparr>)\<lparr>ed_loading := False\<rparr>)"

definition dirty :: "editor \<Rightarrow> bool" where
  "dirty d = (ed_content d \<noteq> None \<and> ed_content d \<noteq> Some (ed_original d))"

definition save :: "editor \<Rightarrow> editor" where
  "save d =
     (case ed_content d of None \<Rightarrow> d
      | Some c \<Rightarrow>
          if ed_savingRef d \<or> \<not> dirty d then d
          else d\<lparr>ed_savingRef := True, ed_saving := True, ed_writes := slot_start (ed_path d, c) (ed_writes d)\<rparr>)"

definition save_answer :: "nat \<Rightarrow> unit reply \<Rightarrow> editor \<Rightarrow> editor" where
  "save_answer k r d =
     (if k \<notin> slot_waiting (ed_writes d) then d
      else
        let d1 = d\<lparr>ed_writes := snd (slot_answer k r (ed_writes d))\<rparr>;
            d2 = (case r of
                    Got u \<Rightarrow> d1\<lparr>ed_original := snd (sl_asked (ed_writes d) ! k),
                                ed_notices := ed_notices d1 @ [(''editor.saved'', Success)]\<rparr>
                  | Err m \<Rightarrow> d1\<lparr>ed_notices := ed_notices d1 @ [(err_text ''editor.saveError'' m, Error)]\<rparr>)
        in d2\<lparr>ed_savingRef := False, ed_saving := False\<rparr>)"

text \<open>\<open>onClose\<close>: the parent takes the editor off the page, which cancels the load.\<close>

definition close_editor :: "editor \<Rightarrow> editor" where
  "close_editor d = d\<lparr>ed_closed := Suc (ed_closed d), ed_mounted := False, ed_slot := slot_cancel (ed_slot d)\<rparr>"

definition discard_options :: ConfirmOptions where
  "discard_options = \<lparr>co_title = ''editor.unsaved'', co_message = ''editor.discardConfirm'',
     co_confirmLabel = Some ''editor.discard'', co_cancelLabel = None, co_danger = True\<rparr>"

text \<open>The rest of \<open>handleClose\<close> after a promise was resolved.\<close>

definition close_resumes :: "nat \<times> bool \<Rightarrow> editor \<Rightarrow> editor" where
  "close_resumes r d =
     (if fst r \<notin> set (ed_asking d) then d
      else let d1 = d\<lparr>ed_asking := removeAll (fst r) (ed_asking d)\<rparr> in if \<not> snd r then d1 else close_editor d1)"

definition handleClose :: "editor \<Rightarrow> editor" where
  "handleClose d =
     (if dirty d then
        let (p, c) = confirm discard_options (ed_conf d);
            d1 = fold close_resumes (drop (length (settled (ed_conf d))) (settled c)) (d\<lparr>ed_conf := c\<rparr>)
        in d1\<lparr>ed_asking := ed_asking d1 @ [p]\<rparr>
      else close_editor d)"

definition answer_close :: "bool \<Rightarrow> editor \<Rightarrow> editor" where
  "answer_close ok d =
     (let c = settle ok (ed_conf d)
      in fold close_resumes (drop (length (settled (ed_conf d))) (settled c)) (d\<lparr>ed_conf := c\<rparr>))"

text \<open>The save chords of the text area: Ctrl or Meta with \<open>s\<close> or Enter.\<close>

definition save_chord :: "bool \<Rightarrow> bool \<Rightarrow> string \<Rightarrow> bool" where
  "save_chord metaKey ctrlKey key = ((metaKey \<or> ctrlKey) \<and> (key = ''s'' \<or> key = ''Enter''))"

definition onKeyDown :: "bool \<Rightarrow> bool \<Rightarrow> string \<Rightarrow> editor \<Rightarrow> editor" where
  "onKeyDown metaKey ctrlKey key d = (if save_chord metaKey ctrlKey key then save d else d)"

datatype editor_screen = EditorError string | EditorLoading | is_text: EditorText string

definition editor_view :: "editor \<Rightarrow> editor_screen" where
  "editor_view d =
     (if length (ed_error d) > 0 then EditorError (ed_error d)
      else case ed_content d of
        None \<Rightarrow> EditorLoading
      | Some c \<Rightarrow> if ed_loading d then EditorLoading else EditorText c)"

datatype editor_event =
    Reload string                       \<comment> \<open>the path or the translation changed\<close>
  | ReadAnswer nat "string reply"
  | Edit string
  | KeyDown bool bool string
  | SaveClick
  | SaveAnswer nat "unit reply"
  | CloseClick
  | AnswerClose bool
  | ServerReads nat
  | ServerWrites nat

fun editor_step :: "editor \<Rightarrow> editor_event \<Rightarrow> editor" where
  "editor_step d (Reload p) = load_effect (d\<lparr>ed_path := p\<rparr>)"
| "editor_step d (ReadAnswer k r) = read_answer k r d"
| "editor_step d (Edit str) = d\<lparr>ed_content := Some str\<rparr>"
| "editor_step d (KeyDown meta ctrl key) = onKeyDown meta ctrl key d"
| "editor_step d SaveClick = save d"
| "editor_step d (SaveAnswer k r) = save_answer k r d"
| "editor_step d CloseClick = handleClose d"
| "editor_step d (AnswerClose ok) = answer_close ok d"
| "editor_step d (ServerReads k) = d\<lparr>srv_snaps := (k, srv_file d) # srv_snaps d\<rparr>"
| "editor_step d (ServerWrites k) = d\<lparr>srv_file := snd (sl_asked (ed_writes d) ! k), srv_done := k # srv_done d\<rparr>"

text \<open>
  What can happen: the text area and its keys only while it is shown, answers to the dialog only
  while it is open, and a server that reads and writes when asked, once, and tells the truth:
  a read brings what the file held at some moment between request and answer, a write is
  confirmed after it took effect and reported as failed only when it did not and will not.
\<close>

fun editor_ok :: "editor \<Rightarrow> editor_event \<Rightarrow> bool" where
  "editor_ok d (Reload p) = ed_mounted d"
| "editor_ok d (ReadAnswer k r) =
     (k \<in> slot_waiting (ed_slot d) \<and> (case r of Got c \<Rightarrow> map_of (srv_snaps d) k = Some c | Err m \<Rightarrow> True))"
| "editor_ok d (Edit str) = (ed_mounted d \<and> is_text (editor_view d))"
| "editor_ok d (KeyDown meta ctrl key) = (ed_mounted d \<and> is_text (editor_view d))"
| "editor_ok d SaveClick = ed_mounted d"
| "editor_ok d (SaveAnswer k r) =
     (k \<in> slot_waiting (ed_writes d) \<and> (case r of Got u \<Rightarrow> k \<in> set (srv_done d) | Err m \<Rightarrow> k \<notin> set (srv_done d)))"
| "editor_ok d CloseClick = ed_mounted d"
| "editor_ok d (AnswerClose ok) = (ed_mounted d \<and> dialog (ed_conf d) \<noteq> None)"
| "editor_ok d (ServerReads k) = (k \<in> slot_waiting (ed_slot d) \<and> map_of (srv_snaps d) k = None)"
| "editor_ok d (ServerWrites k) = (k \<in> slot_waiting (ed_writes d) \<and> k \<notin> set (srv_done d))"

section \<open>Closing\<close>

definition asking_inv :: "editor \<Rightarrow> bool" where
  "asking_inv d =
     (confirm_inv (ed_conf d)
      \<and> ed_asking d = (case resolveRef (ed_conf d) of None \<Rightarrow> [] | Some p \<Rightarrow> [p]))"

lemma handleClose_dirty:
  assumes "asking_inv d" and "dirty d"
  shows "handleClose d = d\<lparr>ed_conf := snd (confirm discard_options (ed_conf d)), ed_asking := [next_promise (ed_conf d)]\<rparr>"
  using assms
  by (cases "resolveRef (ed_conf d)")
    (simp_all add: handleClose_def asking_inv_def confirm_def resolve_current_def close_resumes_def Let_def)

lemma answer_close_cases:
  assumes "asking_inv d"
  shows "answer_close ok d =
    (let d1 = d\<lparr>ed_conf := settle ok (ed_conf d), ed_asking := []\<rparr>
     in if ok \<and> resolveRef (ed_conf d) \<noteq> None then close_editor d1 else d1)"
  using assms
  by (cases "resolveRef (ed_conf d)")
    (simp_all add: answer_close_def asking_inv_def settle_def resolve_current_def close_resumes_def Let_def)

lemma asking_inv_confirm:
  "asking_inv d \<Longrightarrow> asking_inv (d\<lparr>ed_conf := snd (confirm q (ed_conf d)), ed_asking := [next_promise (ed_conf d)]\<rparr>)"
  using confirm_inv_confirm [of "ed_conf d" q]
  by (simp add: asking_inv_def confirm_def resolve_current_def Let_def split: option.splits)

lemma asking_inv_settle: "asking_inv d \<Longrightarrow> asking_inv (d\<lparr>ed_conf := settle ok (ed_conf d), ed_asking := []\<rparr>)"
  using confirm_inv_settle [of "ed_conf d" ok] by (simp add: asking_inv_def settle_def)

section \<open>Invariant\<close>

fun is_got :: "'a reply option \<Rightarrow> bool" where
  "is_got (Some (Got c)) = True"
| "is_got _ = False"

definition load_inv :: "editor \<Rightarrow> bool" where
  "load_inv d =
     (slot_inv (ed_slot d)
      \<and> (if ed_mounted d
         then slot_request (ed_slot d) = Some (ed_path d)
              \<and> ed_loading d = (slot_result (ed_slot d) = None)
              \<and> ed_error d = error_of ''editor.loadError'' (slot_result (ed_slot d))
              \<and> (ed_content d = None) = (\<not> is_got (slot_result (ed_slot d)))
         else sl_live (ed_slot d) = None))"

definition write_inv :: "editor \<Rightarrow> bool" where
  "write_inv d =
     (slot_inv (ed_writes d) \<and> ed_saving d = ed_savingRef d
      \<and> slot_waiting (ed_writes d) = (if ed_savingRef d then {length (sl_asked (ed_writes d)) - 1} else {})
      \<and> (ed_savingRef d \<longrightarrow> sl_asked (ed_writes d) \<noteq> [])
      \<and> (\<forall>k \<in> set (srv_done d). k < length (sl_asked (ed_writes d))))"

definition editor_inv :: "editor \<Rightarrow> bool" where
  "editor_inv d = (load_inv d \<and> write_inv d \<and> asking_inv d \<and> ed_closed d = (if ed_mounted d then 0 else 1))"

lemma load_effect_inv:
  "load_inv d \<Longrightarrow> ed_mounted d \<Longrightarrow> load_inv (load_effect (d\<lparr>ed_path := p\<rparr>))"
  by (simp add: load_inv_def load_effect_def effect.start_inv effect.start_result effect.start_request)

lemma read_answer_load:
  assumes "load_inv d"
  shows "load_inv (read_answer k r d)"
proof -
  have inv: "slot_inv (ed_slot d)" using assms by (simp add: load_inv_def)
  have req: "slot_request (snd (slot_answer k r (ed_slot d))) = slot_request (ed_slot d)"
    by (rule effect.answer_request)
  from inv show ?thesis
  proof (cases rule: slot_answer_cases [where k = k and r = r])
    case (delivered sl)
    have m: "ed_mounted d" using assms delivered by (cases "ed_mounted d") (simp_all add: load_inv_def)
    then have "ed_content d = None" "ed_error d = ''''" using assms delivered by (simp_all add: load_inv_def)
    with delivered m req assms show ?thesis
      by (cases r) (simp_all add: read_answer_def load_inv_def)
  next
    case (dropped sl)
    then have "read_answer k r d = d\<lparr>ed_slot := sl\<rparr>" by (simp add: read_answer_def)
    with assms dropped req show ?thesis by (simp add: load_inv_def)
  qed
qed

lemma read_answer_fields [simp]:
  "ed_writes (read_answer k r d) = ed_writes d" "ed_saving (read_answer k r d) = ed_saving d"
  "ed_savingRef (read_answer k r d) = ed_savingRef d" "srv_done (read_answer k r d) = srv_done d"
  "ed_conf (read_answer k r d) = ed_conf d" "ed_asking (read_answer k r d) = ed_asking d"
  "ed_closed (read_answer k r d) = ed_closed d" "ed_mounted (read_answer k r d) = ed_mounted d"
  "srv_file (read_answer k r d) = srv_file d" "srv_snaps (read_answer k r d) = srv_snaps d"
  by (simp_all add: read_answer_def split_beta Let_def split: reply.split)

lemma save_answer_fields [simp]:
  "ed_slot (save_answer k r d) = ed_slot d" "ed_mounted (save_answer k r d) = ed_mounted d"
  "ed_loading (save_answer k r d) = ed_loading d" "ed_error (save_answer k r d) = ed_error d"
  "ed_path (save_answer k r d) = ed_path d" "ed_content (save_answer k r d) = ed_content d"
  "ed_conf (save_answer k r d) = ed_conf d" "ed_asking (save_answer k r d) = ed_asking d"
  "ed_closed (save_answer k r d) = ed_closed d"
  by (simp_all add: save_answer_def Let_def split: reply.split)

lemma save_fields [simp]:
  "ed_slot (save d) = ed_slot d" "ed_mounted (save d) = ed_mounted d"
  "ed_loading (save d) = ed_loading d" "ed_error (save d) = ed_error d"
  "ed_path (save d) = ed_path d" "ed_content (save d) = ed_content d"
  "ed_conf (save d) = ed_conf d" "ed_asking (save d) = ed_asking d"
  "ed_closed (save d) = ed_closed d" "ed_original (save d) = ed_original d"
  "srv_file (save d) = srv_file d" "srv_done (save d) = srv_done d" "srv_snaps (save d) = srv_snaps d"
  by (simp_all add: save_def split: option.split)

lemma load_inv_cong:
  "ed_slot d' = ed_slot d \<Longrightarrow> ed_mounted d' = ed_mounted d \<Longrightarrow> ed_loading d' = ed_loading d \<Longrightarrow>
   ed_error d' = ed_error d \<Longrightarrow> ed_path d' = ed_path d \<Longrightarrow> ed_content d' = ed_content d \<Longrightarrow>
   load_inv d' = load_inv d"
  by (simp add: load_inv_def)

lemma save_write: "write_inv d \<Longrightarrow> write_inv (save d)"
  by (auto simp: write_inv_def save_def effect.start_inv waiting_start split: option.split)

lemma save_answer_write: "write_inv d \<Longrightarrow> write_inv (save_answer k r d)"
  by (auto simp: write_inv_def save_answer_def effect.answer_inv waiting_answer Let_def split: reply.split if_splits)

lemma close_editor_inv: "editor_inv d \<Longrightarrow> ed_mounted d \<Longrightarrow> editor_inv (close_editor d)"
  by (simp add: editor_inv_def close_editor_def load_inv_def write_inv_def asking_inv_def effect.cancel_inv)

lemma editor_inv_mount: "editor_inv (editor_mount p f)"
  by (simp add: editor_inv_def editor_mount_def load_inv_def load_effect_def write_inv_def asking_inv_def
      effect.start_inv effect.start_result effect.start_request confirm_inv_init)
    (simp add: useConfirm_def)

lemma editor_inv_asking:
  "editor_inv d \<Longrightarrow> asking_inv (d\<lparr>ed_conf := c, ed_asking := a\<rparr>) \<Longrightarrow> editor_inv (d\<lparr>ed_conf := c, ed_asking := a\<rparr>)"
  by (simp add: editor_inv_def load_inv_def write_inv_def)

lemma editor_inv_step:
  assumes "editor_inv d" and "editor_ok d e"
  shows "editor_inv (editor_step d e)"
proof (cases e)
  case (Reload p)
  with assms show ?thesis
    by (simp add: editor_inv_def load_effect_inv) (simp add: load_effect_def write_inv_def asking_inv_def)
next
  case (ReadAnswer k r)
  with assms show ?thesis by (simp add: editor_inv_def read_answer_load write_inv_def asking_inv_def)
next
  case (Edit str)
  then have "ed_content d \<noteq> None" using assms(2) by (cases "ed_content d") (auto simp: editor_view_def split: if_splits)
  with Edit assms show ?thesis by (simp add: editor_inv_def load_inv_def write_inv_def asking_inv_def)
next
  case (KeyDown meta ctrl key)
  with assms show ?thesis
    by (simp add: onKeyDown_def editor_inv_def save_write asking_inv_def load_inv_cong [of "save d" d])
next
  case SaveClick
  with assms show ?thesis
    by (simp add: editor_inv_def save_write asking_inv_def load_inv_cong [of "save d" d])
next
  case (SaveAnswer k r)
  with assms show ?thesis
    by (simp add: editor_inv_def save_answer_write asking_inv_def load_inv_cong [of "save_answer k r d" d])
next
  case CloseClick
  have a: "asking_inv d" using assms by (simp add: editor_inv_def)
  show ?thesis
  proof (cases "dirty d")
    case True
    then show ?thesis
      using CloseClick handleClose_dirty [OF a] asking_inv_confirm [OF a] editor_inv_asking [OF assms(1)] by simp
  next
    case False
    then show ?thesis using CloseClick assms by (simp add: handleClose_def close_editor_inv)
  qed
next
  case (AnswerClose ok)
  have a: "asking_inv d" using assms by (simp add: editor_inv_def)
  have i: "editor_inv (d\<lparr>ed_conf := settle ok (ed_conf d), ed_asking := []\<rparr>)"
    by (rule editor_inv_asking [OF assms(1) asking_inv_settle [OF a]])
  then show ?thesis
    using AnswerClose assms close_editor_inv [OF i] by (cases ok) (simp_all add: answer_close_cases [OF a] Let_def)
next
  case (ServerReads k)
  with assms show ?thesis by (simp add: editor_inv_def load_inv_def write_inv_def asking_inv_def)
next
  case (ServerWrites k)
  then have "k < length (sl_asked (ed_writes d))" using assms by (simp add: slot_waiting_def)
  with ServerWrites assms show ?thesis by (simp add: editor_inv_def load_inv_def write_inv_def asking_inv_def)
qed

interpretation editor_run: machine_inv editor_step editor_ok editor_inv
  by unfold_locales (rule editor_inv_step)


definition unsaved_edit :: "editor_event list" where
  "unsaved_edit = [ServerReads 0, ReadAnswer 0 (Got ''a''), Edit ''b'']"

lemmas editor_eval =
  editor_mount_def load_effect_def read_answer_def save_def save_answer_def dirty_def editor_view_def handleClose_def
  slot_start_def slot_answer_def slot_empty_def slot_waiting_def slot_result_def unsaved_edit_def Let_def


section \<open>Saving\<close>

text \<open>Without a reload the editor and the file move together.\<close>

definition editor_calm :: "editor \<Rightarrow> editor_event \<Rightarrow> bool" where
  "editor_calm d e = (editor_ok d e \<and> (case e of Reload p \<Rightarrow> False | _ \<Rightarrow> True))"

definition written :: "editor \<Rightarrow> string" where
  "written d = snd (sl_asked (ed_writes d) ! (length (sl_asked (ed_writes d)) - 1))"

definition in_sync :: "editor \<Rightarrow> bool" where
  "in_sync d =
     (case ed_content d of
        None \<Rightarrow> sl_asked (ed_writes d) = [] \<and> (\<forall>s \<in> set (srv_snaps d). snd s = srv_file d)
      | Some c \<Rightarrow> srv_file d =
          (if ed_saving d \<and> length (sl_asked (ed_writes d)) - 1 \<in> set (srv_done d) then written d
           else ed_original d))"

definition sync_inv :: "editor \<Rightarrow> bool" where
  "sync_inv d = (editor_inv d \<and> in_sync d)"

lemma in_sync_cong:
  "ed_content d' = ed_content d \<Longrightarrow> ed_writes d' = ed_writes d \<Longrightarrow> srv_snaps d' = srv_snaps d \<Longrightarrow>
   srv_file d' = srv_file d \<Longrightarrow> ed_saving d' = ed_saving d \<Longrightarrow> srv_done d' = srv_done d \<Longrightarrow>
   ed_original d' = ed_original d \<Longrightarrow> in_sync d' = in_sync d"
  by (auto simp: in_sync_def written_def split: option.split)

lemma sync_inv_mount: "sync_inv (editor_mount p f)"
  using editor_inv_mount [of p f] by (simp add: sync_inv_def in_sync_def editor_mount_def load_effect_def)

lemma sync_read:
  assumes "sync_inv d" and "editor_ok d (ReadAnswer k r)"
  shows "sync_inv (read_answer k r d)"
proof -
  have e: "editor_inv (read_answer k r d)" using assms editor_inv_step [of d "ReadAnswer k r"] by (simp add: sync_inv_def)
  have inv: "slot_inv (ed_slot d)" using assms by (simp add: sync_inv_def editor_inv_def load_inv_def)
  from inv show ?thesis
  proof (cases rule: slot_answer_cases [where k = k and r = r])
    case (delivered sl)
    then have m: "ed_mounted d" using assms(1) by (cases "ed_mounted d") (simp_all add: sync_inv_def editor_inv_def load_inv_def)
    then have c: "ed_content d = None" using assms(1) delivered by (simp add: sync_inv_def editor_inv_def load_inv_def)
    then have w: "\<not> ed_saving d" using assms(1) by (auto simp: sync_inv_def in_sync_def editor_inv_def write_inv_def)
    have snap: "r = Got s \<Longrightarrow> s = srv_file d" for s
      using assms c by (auto simp: sync_inv_def in_sync_def dest!: map_of_SomeD)
    show ?thesis using e delivered(1) w c assms(1) snap
      by (cases r) (simp_all add: sync_inv_def in_sync_def read_answer_def)
  next
    case (dropped sl)
    then have "read_answer k r d = d\<lparr>ed_slot := sl\<rparr>" by (simp add: read_answer_def)
    with e assms(1) in_sync_cong [of "d\<lparr>ed_slot := sl\<rparr>" d] show ?thesis by (simp add: sync_inv_def)
  qed
qed

lemma sync_save: "sync_inv d \<Longrightarrow> sync_inv (save d)"
proof -
  assume s: "sync_inv d"
  have e: "editor_inv (save d)"
    using s by (simp add: sync_inv_def editor_inv_def save_write asking_inv_def load_inv_cong [of "save d" d])
  show ?thesis
  proof (cases "save d = d")
    case False
    then obtain c where c: "ed_content d = Some c" "\<not> ed_savingRef d"
      "save d = d\<lparr>ed_savingRef := True, ed_saving := True, ed_writes := slot_start (ed_path d, c) (ed_writes d)\<rparr>"
      by (auto simp: save_def split: option.splits if_splits)
    have "length (sl_asked (ed_writes d)) \<notin> set (srv_done d)" "\<not> ed_saving d"
      using s c by (auto simp: sync_inv_def editor_inv_def write_inv_def)
    with s e c show ?thesis by (simp add: sync_inv_def in_sync_def)
  qed (simp add: s)
qed

lemma sync_save_answer:
  assumes "sync_inv d" and "editor_ok d (SaveAnswer k r)"
  shows "sync_inv (save_answer k r d)"
proof -
  have e: "editor_inv (save_answer k r d)" using assms editor_inv_step [of d "SaveAnswer k r"] by (simp add: sync_inv_def)
  have k: "ed_saving d" "k = length (sl_asked (ed_writes d)) - 1" "sl_asked (ed_writes d) \<noteq> []"
    using assms by (auto simp: sync_inv_def editor_inv_def write_inv_def split: if_splits)
  then obtain c where c: "ed_content d = Some c"
    using assms(1) by (cases "ed_content d") (simp_all add: sync_inv_def in_sync_def)
  with k e assms show ?thesis
    by (cases r) (simp_all add: sync_inv_def in_sync_def save_answer_def written_def Let_def)
qed

lemma sync_inv_step:
  assumes "sync_inv d" and "editor_calm d e"
  shows "sync_inv (editor_step d e)"
proof -
  have ok: "editor_ok d e" using assms by (simp add: editor_calm_def)
  have e: "editor_inv (editor_step d e)" using assms ok editor_inv_step [of d e] by (simp add: sync_inv_def)
  have a: "asking_inv d" using assms by (simp add: sync_inv_def editor_inv_def)
  show ?thesis
  proof (cases e)
    case (Edit str)
    then obtain c where "ed_content d = Some c"
      using ok by (cases "ed_content d") (auto simp: editor_view_def split: if_splits)
    with Edit e assms show ?thesis by (simp add: sync_inv_def in_sync_def written_def)
  next
    case CloseClick
    have "in_sync (handleClose d) = in_sync d"
    proof (cases "dirty d")
      case True
      show ?thesis by (rule in_sync_cong) (simp_all add: handleClose_dirty [OF a True])
    next
      case False
      then show ?thesis by (intro in_sync_cong) (simp_all add: handleClose_def close_editor_def)
    qed
    with CloseClick e assms(1) show ?thesis by (simp add: sync_inv_def)
  next
    case (AnswerClose b)
    have "in_sync (answer_close b d) = in_sync d"
      by (rule in_sync_cong) (simp_all add: answer_close_cases [OF a] close_editor_def Let_def)
    with AnswerClose e assms(1) show ?thesis by (simp add: sync_inv_def)
  next
    case (ServerReads k)
    with e assms show ?thesis by (simp add: sync_inv_def in_sync_def written_def split: option.splits)
  next
    case (ServerWrites k)
    have w: "k \<in> slot_waiting (ed_writes d)" using ServerWrites ok by simp
    then have "ed_saving d" "k = length (sl_asked (ed_writes d)) - 1" "sl_asked (ed_writes d) \<noteq> []"
      using assms by (auto simp: sync_inv_def editor_inv_def write_inv_def split: if_splits)
    with ServerWrites e assms show ?thesis
      by (cases "ed_content d") (simp_all add: sync_inv_def in_sync_def written_def)
  qed (use assms ok in \<open>simp_all add: editor_calm_def sync_read sync_save sync_save_answer onKeyDown_def\<close>)
qed

interpretation calm_run: machine_inv editor_step editor_calm sync_inv
  by unfold_locales (rule sync_inv_step)



text \<open>
  The effect depends on the translation function, so choosing another language reloads the file:
  unsaved changes go without a question, and when a save is on its way the editor can end up
  showing the text from before it, with no mark, while the file holds the new one.
\<close>

lemma language_change_discards_edits:
  "let es = unsaved_edit @ [Reload ''/f'', ServerReads 1, ReadAnswer 1 (Got ''a'')];
       d = run editor_step (editor_mount ''/f'' ''a'') es in
     run_ok editor_step editor_ok (editor_mount ''/f'' ''a'') es
     \<and> ed_content d = Some ''a'' \<and> \<not> dirty d \<and> settled (ed_conf d) = []"
  by (simp add: editor_eval useConfirm_def)

lemma language_change_shows_stale_text:
  "let es = unsaved_edit @ [SaveClick, Reload ''/f'', ServerReads 1, ServerWrites 0, SaveAnswer 0 (Got ()),
              ReadAnswer 1 (Got ''a'')];
       d = run editor_step (editor_mount ''/f'' ''a'') es in
     run_ok editor_step editor_ok (editor_mount ''/f'' ''a'') es
     \<and> ed_content d = Some ''a'' \<and> \<not> dirty d \<and> srv_file d = ''b''"
  by (simp add: editor_eval)

end
