(* ===== verification/Wizard.thy ===== *)
theory Wizard
  imports Requests Hub
begin

text \<open>
  \<^verbatim>\<open>features/workspace/WorkspaceWizard.tsx\<close> with its steps: the folder picker (one cancellable
  request, run again whenever the selected path changes), the name, and the creation of the
  workspace, whose answer counts only in the generation of the dialog that asked for it.
\<close>

section \<open>The folder picker\<close>

record FsBrowse =
  br_path :: string
  br_parent :: "string option"
  br_dirs :: "string list"

record picker =
  pk_active :: bool
  pk_data :: "FsBrowse option"
  pk_selected :: "string option"
  pk_loading :: bool
  pk_error :: string
  pk_slot :: "(string, FsBrowse reply) slot"

definition picker_init :: picker where
  "picker_init = \<lparr>pk_active = False, pk_data = None, pk_selected = None, pk_loading = False, pk_error = '''',
     pk_slot = slot_empty\<rparr>"

text \<open>The loading effect; \<open>tick\<close> and the translation only make it run again.\<close>

definition browse_effect :: "picker \<Rightarrow> picker" where
  "browse_effect p =
     (if \<not> pk_active p then p
      else p\<lparr>pk_loading := True, pk_error := '''', pk_slot := slot_start (or_else (pk_selected p) '''') (pk_slot p)\<rparr>)"

definition set_active :: "bool \<Rightarrow> picker \<Rightarrow> picker" where
  "set_active a p =
     (if pk_active p = a then p
      else if a then browse_effect (p\<lparr>pk_active := True\<rparr>)
      else p\<lparr>pk_active := False, pk_data := None, pk_selected := None, pk_error := '''',
             pk_slot := slot_cancel (pk_slot p)\<rparr>)"

text \<open>\<open>setSelected\<close>: an unchanged value runs no effect.\<close>

definition set_selected :: "string \<Rightarrow> picker \<Rightarrow> picker" where
  "set_selected path p =
     (if pk_selected p = Some path then p else browse_effect (p\<lparr>pk_selected := Some path\<rparr>))"

definition browse_answer :: "nat \<Rightarrow> FsBrowse reply \<Rightarrow> picker \<Rightarrow> picker" where
  "browse_answer k r p =
     (let (live, sl) = slot_answer k r (pk_slot p); p1 = p\<lparr>pk_slot := sl\<rparr> in
      if \<not> live then p1
      else case r of
        Got res \<Rightarrow> set_selected (br_path res) (p1\<lparr>pk_data := Some res, pk_loading := False\<rparr>)
      | Err m \<Rightarrow> p1\<lparr>pk_error := err_text ''wizard.browseError'' m, pk_loading := False\<rparr>)"

definition navigate :: "string \<Rightarrow> picker \<Rightarrow> picker" where
  "navigate path p = set_selected path p"

definition reload :: "picker \<Rightarrow> picker" where
  "reload p = browse_effect p"

text \<open>What \<open>WorkspaceFolderPickerStep\<close> offers: the parent and the folders, only for a listing that
  is shown.\<close>

datatype picker_screen = PickError string | PickLoading | PickList "string option" "string list"

definition picker_view :: "picker \<Rightarrow> picker_screen" where
  "picker_view p =
     (if length (pk_error p) > 0 then PickError (pk_error p)
      else case pk_data p of
        None \<Rightarrow> PickLoading
      | Some d \<Rightarrow> if pk_loading p then PickLoading
                  else PickList (case br_parent d of Some (c # s) \<Rightarrow> Some (c # s) | _ \<Rightarrow> None)
                         (map (joinPath (br_path d)) (br_dirs d)))"

definition can_go :: "picker \<Rightarrow> string \<Rightarrow> bool" where
  "can_go p path =
     (case picker_view p of PickList parent dirs \<Rightarrow> parent = Some path \<or> path \<in> set dirs | _ \<Rightarrow> False)"

fun shows_result :: "FsBrowse reply option \<Rightarrow> FsBrowse option \<Rightarrow> string option \<Rightarrow> bool" where
  "shows_result (Some (Got d)) data sel = (data = Some d \<and> sel = Some (br_path d))"
| "shows_result _ data sel = True"

definition picker_inv :: "picker \<Rightarrow> bool" where
  "picker_inv p =
     (slot_inv (pk_slot p)
      \<and> (if pk_active p
         then slot_request (pk_slot p) = Some (or_else (pk_selected p) '''')
              \<and> pk_loading p = (slot_result (pk_slot p) = None)
              \<and> pk_error p = error_of ''wizard.browseError'' (slot_result (pk_slot p))
              \<and> shows_result (slot_result (pk_slot p)) (pk_data p) (pk_selected p)
         else sl_live (pk_slot p) = None \<and> pk_data p = None \<and> pk_selected p = None))"

lemma picker_inv_init: "picker_inv picker_init"
  by (simp add: picker_inv_def picker_init_def)

lemma browse_effect_inv: "slot_inv (pk_slot p) \<Longrightarrow> pk_active p \<Longrightarrow> picker_inv (browse_effect p)"
  by (simp add: picker_inv_def browse_effect_def effect.start_inv effect.start_result effect.start_request)

lemma set_active_inv: "picker_inv p \<Longrightarrow> picker_inv (set_active a p)"
  by (simp add: set_active_def browse_effect_inv picker_inv_def effect.cancel_inv split: if_splits)
    (simp add: picker_inv_def browse_effect_def effect.start_inv effect.start_result effect.start_request)

lemma set_selected_inv: "picker_inv p \<Longrightarrow> pk_active p \<Longrightarrow> picker_inv (set_selected path p)"
  by (cases "pk_selected p = Some path") (simp_all add: set_selected_def, rule browse_effect_inv, simp_all add: picker_inv_def)

lemma browse_again_inv: "picker_inv p \<Longrightarrow> picker_inv (browse_effect p)"
  by (cases "pk_active p") (simp_all add: browse_effect_inv picker_inv_def browse_effect_def
      effect.start_inv effect.start_result effect.start_request)

lemma browse_answer_inv:
  assumes "picker_inv p"
  shows "picker_inv (browse_answer k r p)"
proof -
  have inv: "slot_inv (pk_slot p)" using assms by (simp add: picker_inv_def)
  have req: "slot_request (snd (slot_answer k r (pk_slot p))) = slot_request (pk_slot p)"
    by (rule effect.answer_request)
  from inv show ?thesis
  proof (cases rule: slot_answer_cases [where k = k and r = r])
    case (delivered sl)
    have a: "pk_active p" using assms delivered by (cases "pk_active p") (simp_all add: picker_inv_def)
    have e: "pk_error p = ''''" using assms delivered a by (simp add: picker_inv_def)
    show ?thesis
    proof (cases r)
      case (Got d)
      let ?p = "p\<lparr>pk_slot := sl, pk_data := Some d, pk_loading := False\<rparr>"
      have ans: "browse_answer k r p = set_selected (br_path d) ?p"
        using delivered(1) Got by (simp add: browse_answer_def)
      show ?thesis
      proof (cases "pk_selected p = Some (br_path d)")
        case True
        then have "browse_answer k r p = ?p" using ans by (simp add: set_selected_def)
        with True Got delivered a e req assms show ?thesis by (simp add: picker_inv_def)
      next
        case False
        then have "browse_answer k r p = browse_effect (?p\<lparr>pk_selected := Some (br_path d)\<rparr>)"
          using ans by (simp add: set_selected_def)
        then show ?thesis using delivered a by (simp add: browse_effect_inv)
      qed
    next
      case (Err m)
      with delivered a req assms show ?thesis by (simp add: browse_answer_def picker_inv_def)
    qed
  next
    case (dropped sl)
    then have "browse_answer k r p = p\<lparr>pk_slot := sl\<rparr>" by (simp add: browse_answer_def)
    with assms dropped req show ?thesis by (simp add: picker_inv_def)
  qed
qed

section \<open>The picker comes to rest\<close>

text \<open>
  A listing sets the selected path, which runs the effect again. With \<open>browse\<close> the answer of
  the server for each path, \<open>picker_reply\<close> delivers the answer the picker is waiting for.
\<close>

definition picker_reply :: "(string \<Rightarrow> FsBrowse reply) \<Rightarrow> picker \<Rightarrow> picker" where
  "picker_reply browse p =
     (case sl_live (pk_slot p) of None \<Rightarrow> p
      | Some k \<Rightarrow> if pk_loading p then browse_answer k (browse (sl_asked (pk_slot p) ! k)) p else p)"

lemma live_answer:
  assumes "slot_inv sl" and "sl_live sl = Some k" and "slot_result sl = None"
  shows "fst (slot_answer k r sl)"
  using assms by (auto simp: slot_inv_def slot_answer_def slot_result_def map_of_eq_None_iff)

lemma picker_reply_waiting:
  assumes "picker_inv p" and "pk_active p" and "pk_loading p"
  shows "\<exists>sl. picker_reply browse p =
     (case browse (or_else (pk_selected p) '''') of
        Got d \<Rightarrow> set_selected (br_path d) (p\<lparr>pk_slot := sl, pk_data := Some d, pk_loading := False\<rparr>)
      | Err m \<Rightarrow> p\<lparr>pk_slot := sl, pk_error := err_text ''wizard.browseError'' m, pk_loading := False\<rparr>)"
proof -
  have inv: "slot_inv (pk_slot p)" "slot_request (pk_slot p) = Some (or_else (pk_selected p) '''')"
      "slot_result (pk_slot p) = None"
    using assms by (simp_all add: picker_inv_def)
  then obtain k where k: "sl_live (pk_slot p) = Some k" "sl_asked (pk_slot p) ! k = or_else (pk_selected p) ''''"
    by (auto simp: slot_request_def split: option.splits)
  obtain sl where "slot_answer k (browse (or_else (pk_selected p) '''')) (pk_slot p) = (True, sl)"
    using live_answer [OF inv(1) k(1) inv(3)] by (metis prod.collapse)
  then show ?thesis
    using k assms(3) by (intro exI [of _ sl]) (simp add: picker_reply_def browse_answer_def split: reply.split)
qed

lemma picker_reply_inv: "picker_inv p \<Longrightarrow> picker_inv (picker_reply browse p)"
  by (simp add: picker_reply_def browse_answer_inv split: option.split)

lemma set_selected_active [simp]: "pk_active (set_selected path p) = pk_active p"
  by (simp add: set_selected_def browse_effect_def)

lemma picker_reply_active: "picker_inv p \<Longrightarrow> pk_active p \<Longrightarrow> pk_active (picker_reply browse p)"
  by (simp add: picker_reply_def browse_answer_def split_beta Let_def split: option.split reply.split)

lemma picker_reply_known:
  assumes "picker_inv p" and "pk_active p" and "pk_loading p" and "pk_selected p = Some path"
    and "browse path = Got d" and "br_path d = path"
  shows "\<not> pk_loading (picker_reply browse p) \<and> pk_data (picker_reply browse p) = Some d
    \<and> pk_selected (picker_reply browse p) = Some path \<and> pk_error (picker_reply browse p) = ''''"
  using picker_reply_waiting [OF assms(1-3), of browse] assms by (auto simp: set_selected_def picker_inv_def)

text \<open>
  The picker comes to rest: if the server answers with the canonical path of the folder, that is
  a path it answers with itself, two answers are enough from any state.
\<close>

lemma picker_rests:
  assumes "picker_inv p" and "pk_active p"
    and "\<And>path d. browse path = Got d \<Longrightarrow> \<exists>d'. browse (br_path d) = Got d' \<and> br_path d' = br_path d"
  shows "let q = (picker_reply browse ^^ 2) p in
    \<not> pk_loading q
    \<and> (case slot_result (pk_slot q) of
         None \<Rightarrow> False
       | Some (Got d) \<Rightarrow> pk_data q = Some d \<and> pk_selected q = Some (br_path d) \<and> pk_error q = ''''
       | Some (Err m) \<Rightarrow> pk_error q = err_text ''wizard.browseError'' m)"
proof -
  let ?r = "picker_reply browse"
  have rest: "?r x = x" if "\<not> pk_loading x" for x
    using that by (simp add: picker_reply_def split: option.split)
  have two: "\<not> pk_loading (?r (?r p))"
  proof (cases "pk_loading p")
    case True
    obtain sl where r: "?r p =
       (case browse (or_else (pk_selected p) '''') of
          Got d \<Rightarrow> set_selected (br_path d) (p\<lparr>pk_slot := sl, pk_data := Some d, pk_loading := False\<rparr>)
        | Err m \<Rightarrow> p\<lparr>pk_slot := sl, pk_error := err_text ''wizard.browseError'' m, pk_loading := False\<rparr>)"
      using picker_reply_waiting [OF assms(1,2) True] by blast
    show ?thesis
    proof (cases "browse (or_else (pk_selected p) '''')")
      case (Got d)
      then obtain d' where d': "browse (br_path d) = Got d'" "br_path d' = br_path d"
        using assms(3) by blast
      have sel: "pk_selected (?r p) = Some (br_path d)" using r Got by (simp add: set_selected_def browse_effect_def)
      show ?thesis
        using picker_reply_known [of "?r p" "br_path d" browse d'] sel d' rest
          picker_reply_inv [OF assms(1)] picker_reply_active [OF assms(1,2)]
        by (cases "pk_loading (?r p)") auto
    next
      case (Err m)
      then have "\<not> pk_loading (?r p)" using r by simp
      then show ?thesis using rest by simp
    qed
  qed (simp add: rest)
  have inv: "picker_inv (?r (?r p))" "pk_active (?r (?r p))"
    using assms(1,2) by (simp_all add: picker_reply_inv picker_reply_active)
  with two obtain x where x: "slot_result (pk_slot (?r (?r p))) = Some x"
    by (auto simp: picker_inv_def)
  with two inv show ?thesis by (cases x) (simp_all add: numeral_2_eq_2 picker_inv_def)
qed

text \<open>After a failed listing the picker offers no folder to go to, and its \<open>reload\<close> has no button.\<close>

lemma failed_listing_is_stuck:
  assumes "picker_inv p" and "pk_active p" and "slot_result (pk_slot p) = Some (Err (Some (c # s)))"
  shows "\<not> can_go p path"
  using assms by (simp add: picker_inv_def can_go_def picker_view_def err_text_def)

section \<open>The wizard\<close>

record wizard =
  wz_open :: bool
  wz_step :: nat
  wz_name :: string
  nameTouched :: bool
  creating :: bool
  creatingRef :: bool
  wz_error :: string
  createGeneration :: nat
  wz_picker :: picker
  wz_creates :: "(nat \<times> string \<times> string, Workspace reply) slot"   \<comment> \<open>generation, name, path\<close>
  wz_created :: "Workspace list"                                  \<comment> \<open>calls of \<open>onCreated\<close>\<close>

definition wizard_init :: wizard where
  "wizard_init = \<lparr>wz_open = False, wz_step = 1, wz_name = '''', nameTouched = False, creating = False,
     creatingRef = False, wz_error = '''', createGeneration = 1, wz_picker = picker_init,
     wz_creates = slot_empty, wz_created = []\<rparr>"

text \<open>The effect on \<open>open\<close> and the picker's effects.\<close>

definition set_open :: "bool \<Rightarrow> wizard \<Rightarrow> wizard" where
  "set_open b w =
     (if wz_open w = b then w
      else let w1 = w\<lparr>wz_open := b, wz_picker := set_active b (wz_picker w)\<rparr> in
        if b then w1\<lparr>wz_step := 1, wz_name := '''', nameTouched := False, creatingRef := False, creating := False,
                     wz_error := ''''\<rparr>
        else w1\<lparr>createGeneration := createGeneration w1 + 1, creatingRef := False\<rparr>)"

text \<open>\<open>onClose\<close> of the application sets \<open>open\<close> to false.\<close>

definition closeWizard :: "wizard \<Rightarrow> wizard" where
  "closeWizard w = set_open False (w\<lparr>createGeneration := createGeneration w + 1, creatingRef := False\<rparr>)"

definition truthy :: "string option \<Rightarrow> bool" where
  "truthy s = (case s of Some (c # r) \<Rightarrow> True | _ \<Rightarrow> False)"

definition create :: "wizard \<Rightarrow> wizard" where
  "create w =
     (let path = pk_selected (wz_picker w) in
      if creatingRef w \<or> \<not> truthy path then w
      else w\<lparr>creatingRef := True, creating := True, wz_error := '''',
             wz_creates := slot_start (createGeneration w, js_trim (wz_name w), the path) (wz_creates w)\<rparr>)"

definition create_answer :: "nat \<Rightarrow> Workspace reply \<Rightarrow> wizard \<Rightarrow> wizard" where
  "create_answer k r w =
     (if k \<notin> slot_waiting (wz_creates w) then w
      else
        let gen = fst (sl_asked (wz_creates w) ! k);
            w1 = w\<lparr>wz_creates := snd (slot_answer k r (wz_creates w))\<rparr>;
            w2 = (if gen \<noteq> createGeneration w1 then w1
                  else case r of
                    Got x \<Rightarrow> closeWizard (w1\<lparr>wz_created := wz_created w1 @ [x]\<rparr>)
                  | Err m \<Rightarrow> w1\<lparr>wz_error := err_text ''wizard.createError'' m\<rparr>)
        in if gen = createGeneration w2 then w2\<lparr>creatingRef := False, creating := False\<rparr> else w2)"

definition nextFromPicker :: "wizard \<Rightarrow> wizard" where
  "nextFromPicker w =
     (let sel = pk_selected (wz_picker w) in
      if \<not> truthy sel then w
      else (if length (js_trim (wz_name w)) = 0 then w\<lparr>wz_name := basename (the sel)\<rparr> else w)\<lparr>wz_step := 2\<rparr>)"

definition onNameChange :: "string \<Rightarrow> wizard \<Rightarrow> wizard" where
  "onNameChange str w = w\<lparr>wz_name := str, nameTouched := True\<rparr>"

definition name_required :: "wizard \<Rightarrow> bool" where
  "name_required w = (nameTouched w \<and> length (js_trim (wz_name w)) = 0)"

definition TOTAL_STEPS :: nat where "TOTAL_STEPS = 3"

text \<open>The header: the keys of title and description, and the state of each step's mark.\<close>

datatype step_mark = Done | Current | Ahead

definition step_titles :: "nat \<Rightarrow> string \<times> string" where
  "step_titles s =
     (if s = 1 then (''wizard.step1Title'', ''wizard.step1Desc'')
      else if s = 2 then (''wizard.step2Title'', ''wizard.step2Desc'')
      else if s = 3 then (''wizard.step3Title'', ''wizard.step3Desc'')
      else (''wizard.title'', ''''))"

definition step_marks :: "nat \<Rightarrow> step_mark list" where
  "step_marks s = map (\<lambda>n. if n < s then Done else if n = s then Current else Ahead) [1..<TOTAL_STEPS + 1]"

text \<open>What the last step shows: name and path.\<close>

definition summary :: "wizard \<Rightarrow> string \<times> string option" where
  "summary w = (js_trim (wz_name w), pk_selected (wz_picker w))"

datatype wizard_event =
    OpenWizard
  | ExternalClose
  | CloseDialog
  | PickerGo string
  | PickerAnswer nat "FsBrowse reply"
  | WizardTranslation
  | NextFromPicker
  | TypeName string
  | NextFromName
  | Back
  | Create
  | CreateAnswer nat "Workspace reply"

fun wizard_step :: "wizard \<Rightarrow> wizard_event \<Rightarrow> wizard" where
  "wizard_step w OpenWizard = set_open True w"
| "wizard_step w ExternalClose = set_open False w"
| "wizard_step w CloseDialog = closeWizard w"
| "wizard_step w (PickerGo path) = w\<lparr>wz_picker := navigate path (wz_picker w)\<rparr>"
| "wizard_step w (PickerAnswer k r) = w\<lparr>wz_picker := browse_answer k r (wz_picker w)\<rparr>"
| "wizard_step w WizardTranslation = w\<lparr>wz_picker := browse_effect (wz_picker w)\<rparr>"
| "wizard_step w NextFromPicker = nextFromPicker w"
| "wizard_step w (TypeName str) = onNameChange str w"
| "wizard_step w NextFromName = w\<lparr>wz_step := 3\<rparr>"
| "wizard_step w Back = w\<lparr>wz_step := wz_step w - 1\<rparr>"
| "wizard_step w Create = create w"
| "wizard_step w (CreateAnswer k r) = create_answer k r w"

text \<open>What the buttons and fields on the screen allow. The server names every folder.\<close>

fun wizard_ok :: "wizard \<Rightarrow> wizard_event \<Rightarrow> bool" where
  "wizard_ok w OpenWizard = True"
| "wizard_ok w ExternalClose = True"
| "wizard_ok w CloseDialog = wz_open w"
| "wizard_ok w (PickerGo path) = (wz_open w \<and> wz_step w = 1 \<and> can_go (wz_picker w) path)"
| "wizard_ok w (PickerAnswer k r) =
     (k \<in> slot_waiting (pk_slot (wz_picker w)) \<and> (case r of Got d \<Rightarrow> br_path d \<noteq> '''' | Err m \<Rightarrow> True))"
| "wizard_ok w WizardTranslation = True"
| "wizard_ok w NextFromPicker = (wz_open w \<and> wz_step w = 1 \<and> truthy (pk_selected (wz_picker w)))"
| "wizard_ok w (TypeName str) = (wz_open w \<and> wz_step w = 2)"
| "wizard_ok w NextFromName = (wz_open w \<and> wz_step w = 2 \<and> length (js_trim (wz_name w)) > 0)"
| "wizard_ok w Back = (wz_open w \<and> wz_step w > 1 \<and> \<not> creating w)"
| "wizard_ok w Create = (wz_open w \<and> wz_step w = 3 \<and> \<not> creating w)"
| "wizard_ok w (CreateAnswer k r) = (k \<in> slot_waiting (wz_creates w))"

section \<open>Invariant of the wizard\<close>

text \<open>The requests of the current generation that are on their way.\<close>

definition current_creates :: "wizard \<Rightarrow> nat set" where
  "current_creates w =
     {k \<in> slot_waiting (wz_creates w). fst (sl_asked (wz_creates w) ! k) = createGeneration w}"

definition creates_inv :: "wizard \<Rightarrow> bool" where
  "creates_inv w =
     (slot_inv (wz_creates w)
      \<and> (\<forall>q \<in> set (sl_asked (wz_creates w)). fst q \<le> createGeneration w \<and> fst (snd q) \<noteq> '''' \<and> snd (snd q) \<noteq> '''')
      \<and> current_creates w = (if creatingRef w then {length (sl_asked (wz_creates w)) - 1} else {})
      \<and> (creatingRef w \<longrightarrow> sl_asked (wz_creates w) \<noteq> [])
      \<and> (if wz_open w then creating w = creatingRef w else \<not> creatingRef w))"

definition wizard_inv :: "wizard \<Rightarrow> bool" where
  "wizard_inv w =
     (picker_inv (wz_picker w) \<and> creates_inv w
      \<and> pk_active (wz_picker w) = wz_open w
      \<and> pk_selected (wz_picker w) \<noteq> Some ''''
      \<and> wz_step w \<in> {1..3}
      \<and> (wz_open w \<longrightarrow> 2 \<le> wz_step w \<longrightarrow> truthy (pk_selected (wz_picker w)))
      \<and> (wz_step w = 3 \<longrightarrow> js_trim (wz_name w) \<noteq> ''''))"

lemma truthy_iff: "truthy s = (s \<noteq> None \<and> s \<noteq> Some '''')"
  by (auto simp: truthy_def split: option.split list.split)

lemma wizard_inv_init: "wizard_inv wizard_init"
  using picker_inv_init by (simp add: wizard_inv_def wizard_init_def picker_init_def creates_inv_def current_creates_def)

lemma set_active_fields [simp]:
  "pk_active (set_active a p) = a"
  "pk_selected (set_active a p) = (if pk_active p = a then pk_selected p else if a then pk_selected p else None)"
  by (auto simp: set_active_def browse_effect_def)

lemma set_selected_cases: "pk_selected (set_selected path p) = Some path"
  by (simp add: set_selected_def browse_effect_def)

lemma browse_effect_fields [simp]:
  "pk_active (browse_effect p) = pk_active p" "pk_selected (browse_effect p) = pk_selected p"
  by (simp_all add: browse_effect_def)

lemma browse_answer_fields:
  "pk_active (browse_answer k r p) = pk_active p"
  "pk_selected (browse_answer k r p) = pk_selected p \<or> (\<exists>d. r = Got d \<and> pk_selected (browse_answer k r p) = Some (br_path d))"
  by (simp_all add: browse_answer_def split_beta Let_def set_selected_cases split: reply.split)

lemma can_go_nonempty: "can_go p path \<Longrightarrow> path \<noteq> ''''"
  by (auto simp: can_go_def picker_view_def joinPath_def split: option.splits list.splits if_splits)

text \<open>Raising the generation leaves no request of the current one.\<close>

lemma creates_inv_raise:
  assumes "creates_inv w" and "0 < n"
  shows "creates_inv (w\<lparr>createGeneration := createGeneration w + n, creatingRef := False, wz_open := False, wz_picker := p\<rparr>)"
proof -
  have "fst (sl_asked (wz_creates w) ! k) \<le> createGeneration w" if "k \<in> slot_waiting (wz_creates w)" for k
    using assms(1) that by (simp add: creates_inv_def slot_waiting_def)
  then have none: "current_creates (w\<lparr>createGeneration := createGeneration w + n, creatingRef := False, wz_open := False,
      wz_picker := p\<rparr>) = {}"
    using assms(2) by (fastforce simp: current_creates_def)
  show ?thesis unfolding creates_inv_def none using assms(1) by (auto simp: creates_inv_def)
qed

lemma creates_inv_cong:
  "wz_creates w' = wz_creates w \<Longrightarrow> createGeneration w' = createGeneration w \<Longrightarrow> creatingRef w' = creatingRef w \<Longrightarrow>
   creating w' = creating w \<Longrightarrow> wz_open w' = wz_open w \<Longrightarrow> creates_inv w' = creates_inv w"
  by (simp add: creates_inv_def current_creates_def)

lemma wizard_inv_creating: "wizard_inv w \<Longrightarrow> \<not> wz_open w \<Longrightarrow> wizard_inv (w\<lparr>creating := c\<rparr>)"
  by (simp add: wizard_inv_def creates_inv_def current_creates_def)

lemma wizard_inv_open: "wizard_inv w \<Longrightarrow> wizard_inv (set_open True w)"
  by (cases "wz_open w")
    (auto simp: set_open_def wizard_inv_def set_active_inv creates_inv_def current_creates_def)

lemma wizard_inv_close:
  assumes "wizard_inv w"
  shows "wizard_inv (set_open False w)"
proof (cases "wz_open w")
  case True
  then have "set_open False w = w\<lparr>createGeneration := createGeneration w + 1, creatingRef := False, wz_open := False,
      wz_picker := set_active False (wz_picker w)\<rparr>"
    by (simp add: set_open_def)
  then show ?thesis using assms True creates_inv_raise [of w 1]
    by (simp add: wizard_inv_def set_active_inv)
qed (simp add: set_open_def assms)

lemma closeWizard_open:
  assumes "wz_open w"
  shows "closeWizard w = w\<lparr>createGeneration := createGeneration w + 2, creatingRef := False, wz_open := False,
      wz_picker := set_active False (wz_picker w)\<rparr>"
  using assms by (simp add: closeWizard_def set_open_def)

lemma wizard_inv_closeWizard: "wizard_inv w \<Longrightarrow> wz_open w \<Longrightarrow> wizard_inv (closeWizard w)"
  using creates_inv_raise [of w 2]
  by (simp add: closeWizard_open wizard_inv_def set_active_inv)

lemma create_possible:
  assumes "wizard_inv w" and "wizard_ok w Create"
  shows "create w = w\<lparr>creatingRef := True, creating := True, wz_error := '''',
     wz_creates := slot_start (createGeneration w, js_trim (wz_name w), the (pk_selected (wz_picker w))) (wz_creates w)\<rparr>
    \<and> js_trim (wz_name w) \<noteq> '''' \<and> the (pk_selected (wz_picker w)) \<noteq> ''''"
  using assms by (auto simp: create_def wizard_inv_def creates_inv_def truthy_iff)

lemma current_creates_start:
  assumes "creates_inv w" and "\<not> creatingRef w"
  shows "current_creates (w\<lparr>creatingRef := True, creating := True, wz_error := e,
     wz_creates := slot_start (createGeneration w, q) (wz_creates w)\<rparr>) = {length (sl_asked (wz_creates w))}"
proof -
  have "\<not> (k < length (sl_asked (wz_creates w)) \<and> k \<notin> fst ` set (sl_got (wz_creates w))
      \<and> fst (sl_asked (wz_creates w) ! k) = createGeneration w)" for k
    using assms by (auto simp: creates_inv_def current_creates_def slot_waiting_def)
  moreover have "k < length (sl_asked (wz_creates w))" if "k \<in> fst ` set (sl_got (wz_creates w))" for k
    using assms that by (auto simp: creates_inv_def slot_inv_def)
  ultimately show ?thesis
    by (auto simp: current_creates_def slot_waiting_def slot_start_def nth_append less_Suc_eq)
qed

lemma wizard_inv_create:
  assumes "wizard_inv w" and "wizard_ok w Create"
  shows "wizard_inv (create w)"
proof -
  have c: "creates_inv w" "\<not> creatingRef w" using assms by (auto simp: wizard_inv_def creates_inv_def)
  show ?thesis
    using create_possible [OF assms] current_creates_start [OF c] assms c(1)
    by (simp add: wizard_inv_def creates_inv_def effect.start_inv)
qed

lemma current_creates_answer:
  "current_creates (w\<lparr>wz_creates := snd (slot_answer k r (wz_creates w))\<rparr>) = current_creates w - {k}"
  by (auto simp: current_creates_def waiting_answer)

lemma create_answer_late:
  assumes "k \<notin> current_creates w"
  shows "create_answer k r w = (if k \<in> slot_waiting (wz_creates w)
     then w\<lparr>wz_creates := snd (slot_answer k r (wz_creates w))\<rparr> else w)"
  using assms by (simp add: create_answer_def current_creates_def Let_def)

lemma create_answer_current:
  assumes "k \<in> current_creates w" and "wz_open w"
  shows "create_answer k r w =
     (let w1 = w\<lparr>wz_creates := snd (slot_answer k r (wz_creates w)), creatingRef := False, creating := creating w\<rparr>
      in case r of
        Got x \<Rightarrow> closeWizard (w1\<lparr>wz_created := wz_created w @ [x]\<rparr>)
      | Err m \<Rightarrow> w1\<lparr>wz_error := err_text ''wizard.createError'' m, creating := False\<rparr>)"
  using assms by (simp add: create_answer_def current_creates_def closeWizard_open Let_def split: reply.split)

lemma wizard_inv_create_answer:
  assumes "wizard_inv w"
  shows "wizard_inv (create_answer k r w)"
proof (cases "k \<in> current_creates w")
  case True
  have c: "creates_inv w" using assms by (simp add: wizard_inv_def)
  with True have cur: "creatingRef w" "current_creates w = {k}" "wz_open w" "creating w"
    by (auto simp: creates_inv_def split: if_splits)
  let ?w = "w\<lparr>wz_creates := snd (slot_answer k r (wz_creates w)), creatingRef := False, creating := False\<rparr>"
  have "current_creates ?w = {}"
    using current_creates_answer [where w = w and k = k and r = r] cur(2) by (simp add: current_creates_def)
  then have w: "creates_inv ?w"
    using c by (simp add: creates_inv_def effect.answer_inv)
  then have "wizard_inv ?w" using assms cur by (simp add: wizard_inv_def)
  then have w: "wizard_inv ?w" .
  show ?thesis
  proof (cases r)
    case (Err m)
    then have "create_answer k r w = ?w\<lparr>wz_error := err_text ''wizard.createError'' m\<rparr>"
      using create_answer_current [OF True cur(3)] by simp
    then show ?thesis using w creates_inv_cong [of "?w\<lparr>wz_error := err_text ''wizard.createError'' m\<rparr>" ?w]
      by (simp add: wizard_inv_def)
  next
    case (Got x)
    let ?c = "closeWizard (?w\<lparr>wz_created := wz_created w @ [x]\<rparr>)"
    have "wizard_inv (?w\<lparr>wz_created := wz_created w @ [x]\<rparr>)"
      using w creates_inv_cong [of "?w\<lparr>wz_created := wz_created w @ [x]\<rparr>" ?w] by (simp add: wizard_inv_def)
    then have "wizard_inv ?c" by (rule wizard_inv_closeWizard) (simp add: cur(3))
    moreover have "create_answer k r w = ?c\<lparr>creating := True\<rparr>"
      using create_answer_current [OF True cur(3)] Got cur by (simp add: closeWizard_open)
    moreover have "\<not> wz_open ?c" using cur(3) by (simp add: closeWizard_open)
    ultimately show ?thesis using wizard_inv_creating [of ?c] by simp
  qed
next
  case False
  show ?thesis
  proof (cases "k \<in> slot_waiting (wz_creates w)")
    case True
    let ?w = "w\<lparr>wz_creates := snd (slot_answer k r (wz_creates w))\<rparr>"
    have "current_creates ?w = current_creates w"
      using current_creates_answer [where w = w and k = k and r = r] False by simp
    then have "creates_inv ?w" using assms by (simp add: wizard_inv_def creates_inv_def effect.answer_inv)
    with True False assms show ?thesis by (simp add: create_answer_late wizard_inv_def)
  qed (simp add: create_answer_late False assms)
qed

lemma wizard_inv_step: "wizard_inv w \<Longrightarrow> wizard_ok w e \<Longrightarrow> wizard_inv (wizard_step w e)"
proof (cases e)
  case (PickerGo path)
  assume w: "wizard_inv w" "wizard_ok w e"
  then have "path \<noteq> ''''" using PickerGo can_go_nonempty [of "wz_picker w" path] by simp
  with w PickerGo creates_inv_cong [of "w\<lparr>wz_picker := navigate path (wz_picker w)\<rparr>" w] show ?thesis
    by (simp add: wizard_inv_def navigate_def set_selected_inv set_selected_cases)
next
  case (PickerAnswer k r)
  assume w: "wizard_inv w" "wizard_ok w e"
  let ?p = "browse_answer k r (wz_picker w)"
  have "pk_selected ?p = pk_selected (wz_picker w) \<or> (\<exists>s. s \<noteq> '''' \<and> pk_selected ?p = Some s)"
    using browse_answer_fields(2) [of k r "wz_picker w"] w(2) PickerAnswer by auto
  with w PickerAnswer creates_inv_cong [of "w\<lparr>wz_picker := ?p\<rparr>" w] show ?thesis
    by (auto simp: wizard_inv_def browse_answer_inv browse_answer_fields(1) truthy_iff)
next
  case WizardTranslation
  assume w: "wizard_inv w"
  with WizardTranslation creates_inv_cong [of "w\<lparr>wz_picker := browse_effect (wz_picker w)\<rparr>" w] show ?thesis
    by (simp add: wizard_inv_def browse_again_inv)
next
  case NextFromPicker
  assume w: "wizard_inv w" "wizard_ok w e"
  with NextFromPicker have "creates_inv (nextFromPicker w)" "wz_step (nextFromPicker w) = 2"
      "wz_picker (nextFromPicker w) = wz_picker w" "wz_open (nextFromPicker w) = wz_open w"
    using creates_inv_cong [of "nextFromPicker w" w] by (simp_all add: nextFromPicker_def wizard_inv_def Let_def)
  with w NextFromPicker show ?thesis by (simp add: wizard_inv_def)
next
  case (TypeName str)
  assume w: "wizard_inv w" "wizard_ok w e"
  with TypeName creates_inv_cong [of "onNameChange str w" w] show ?thesis
    by (simp add: wizard_inv_def onNameChange_def)
next
  case NextFromName
  assume w: "wizard_inv w" "wizard_ok w e"
  with NextFromName creates_inv_cong [of "w\<lparr>wz_step := 3\<rparr>" w] show ?thesis by (simp add: wizard_inv_def)
next
  case Back
  assume w: "wizard_inv w" "wizard_ok w e"
  with Back creates_inv_cong [of "w\<lparr>wz_step := wz_step w - 1\<rparr>" w] show ?thesis by (auto simp: wizard_inv_def)
qed (simp_all add: wizard_inv_open wizard_inv_close wizard_inv_closeWizard wizard_inv_create wizard_inv_create_answer)

interpretation wizard_run: machine_inv wizard_step wizard_ok wizard_inv
  by unfold_locales (rule wizard_inv_step)

section \<open>What the wizard promises\<close>

text \<open>
  The workspace is created as it was confirmed: at the last step \<open>Create\<close> sends one request, with
  exactly the name and the path the summary shows, both non-empty; while it is on its way no
  second one can be sent, whatever else happens.
\<close>

theorem wizard_sends_summary:
  assumes "run_ok wizard_step wizard_ok wizard_init es"
  shows "let w = run wizard_step wizard_init es in
    card (current_creates w) \<le> 1
    \<and> list_all (\<lambda>q. fst (snd q) \<noteq> '''' \<and> snd (snd q) \<noteq> '''') (sl_asked (wz_creates w))
    \<and> (if creatingRef w then create w = w else True)
    \<and> (if wizard_ok w Create then
         \<exists>path. summary w = (js_trim (wz_name w), Some path)
           \<and> sl_asked (wz_creates (create w)) = sl_asked (wz_creates w) @ [(createGeneration w, fst (summary w), path)]
       else True)"
proof -
  let ?w = "run wizard_step wizard_init es"
  have inv: "wizard_inv ?w" by (rule wizard_run.run_inv [OF wizard_inv_init assms])
  have "card (current_creates w) \<le> 1
      \<and> list_all (\<lambda>q. fst (snd q) \<noteq> '''' \<and> snd (snd q) \<noteq> '''') (sl_asked (wz_creates w))" if "wizard_inv w" for w
    using that by (simp add: wizard_inv_def creates_inv_def list_all_iff)
  moreover have "creatingRef w \<Longrightarrow> create w = w" for w by (simp add: create_def Let_def)
  moreover have "\<exists>path. summary w = (js_trim (wz_name w), Some path)
           \<and> sl_asked (wz_creates (create w)) = sl_asked (wz_creates w) @ [(createGeneration w, fst (summary w), path)]"
    if "wizard_inv w" "wizard_ok w Create" for w
    using create_possible [OF that] that by (auto simp: summary_def wizard_inv_def truthy_iff)
  ultimately show ?thesis using inv by (simp add: Let_def)
qed

definition demo_wizard :: "wizard_event list" where
  "demo_wizard = [OpenWizard, PickerAnswer 0 (Got \<lparr>br_path = ''/a'', br_parent = Some ''/'', br_dirs = []\<rparr>),
     NextFromPicker, TypeName '' x '', NextFromName]"

lemmas wizard_eval =
  demo_wizard_def set_open_def set_active_def browse_effect_def browse_answer_def set_selected_def wizard_init_def
  picker_init_def nextFromPicker_def onNameChange_def create_def create_answer_def summary_def truthy_def
  slot_start_def slot_answer_def slot_empty_def slot_waiting_def js_trim_def is_ws_def basename_def
  endsWith_char_def Let_def

theorem wizard_sends_summary_witness:
  "let w = run wizard_step wizard_init demo_wizard in
     sl_asked (wz_creates (create w)) = [(1, ''x'', ''/a'')] \<and> card (current_creates w) \<le> 1"
proof -
  have ok: "run_ok wizard_step wizard_ok wizard_init demo_wizard" by (simp add: wizard_eval)
  have "wizard_ok (run wizard_step wizard_init demo_wizard) Create"
    "summary (run wizard_step wizard_init demo_wizard) = (''x'', Some ''/a'')"
    "sl_asked (wz_creates (run wizard_step wizard_init demo_wizard)) = []"
    "createGeneration (run wizard_step wizard_init demo_wizard) = 1"
    by (simp_all add: wizard_eval)
  then show ?thesis using wizard_sends_summary [OF ok] by (auto simp: Let_def)
qed

text \<open>
  C30. An answer counts only for the dialog that asked: the answer to a request of the open dialog
  either reports the new workspace once and closes the dialog, or shows the error and lets
  the user try again; an answer that comes after the dialog was closed, even if it was
  opened again since, changes nothing that is shown and reports nothing.
\<close>

theorem wizard_answer_of_this_dialog:
  assumes "run_ok wizard_step wizard_ok wizard_init es"
  shows "let w = run wizard_step wizard_init es; w' = create_answer k r w in
    if k \<in> current_creates w then
      wz_open w
      \<and> (case r of
           Got x \<Rightarrow> wz_created w' = wz_created w @ [x] \<and> \<not> wz_open w'
         | Err m \<Rightarrow> wz_created w' = wz_created w \<and> wz_open w' \<and> wz_step w' = wz_step w
             \<and> wz_error w' = err_text ''wizard.createError'' m \<and> \<not> creating w' \<and> \<not> creatingRef w')
    else w' = w\<lparr>wz_creates := wz_creates w'\<rparr>"
proof -
  let ?w = "run wizard_step wizard_init es"
  have inv: "wizard_inv ?w" by (rule wizard_run.run_inv [OF wizard_inv_init assms])
  show ?thesis
  proof (cases "k \<in> current_creates ?w")
    case True
    have "wz_open w" if "wizard_inv w" "k \<in> current_creates w" for w
      using that by (auto simp: wizard_inv_def creates_inv_def split: if_splits)
    then have o: "wz_open ?w" using inv True by blast
    show ?thesis using True o create_answer_current [OF True o, of r]
      by (cases r) (simp_all add: Let_def closeWizard_open)
  next
    case False
    then show ?thesis using create_answer_late [OF False, of r] by (simp add: Let_def)
  qed
qed

theorem wizard_answer_of_this_dialog_witness:
  "let w = run wizard_step wizard_init (demo_wizard @ [Create, CloseDialog, OpenWizard]) in
     wz_created (create_answer 0 (Err None) w) = [] \<and> wz_open (create_answer 0 (Err None) w)"
proof -
  let ?es = "demo_wizard @ [Create, CloseDialog, OpenWizard]"
  have ok: "run_ok wizard_step wizard_ok wizard_init ?es"
    by (simp add: wizard_eval closeWizard_def)
  have w: "wz_open (run wizard_step wizard_init ?es)" "wz_created (run wizard_step wizard_init ?es) = []"
    "sl_asked (wz_creates (run wizard_step wizard_init ?es)) = [(1, ''x'', ''/a'')]"
    "createGeneration (run wizard_step wizard_init ?es) = 3"
    by (simp_all add: wizard_eval closeWizard_def)
  then have "0 \<notin> current_creates (run wizard_step wizard_init ?es)" by (simp add: current_creates_def)
  then have "create_answer 0 (Err None) (run wizard_step wizard_init ?es) =
      run wizard_step wizard_init ?es
        \<lparr>wz_creates := wz_creates (create_answer 0 (Err None) (run wizard_step wizard_init ?es))\<rparr>"
    using wizard_answer_of_this_dialog [OF ok, of 0 "Err None"] by (simp only: Let_def if_False)
  then show ?thesis using w unfolding Let_def
    by (metis (no_types) wizard.select_convs wizard.update_convs wizard.surjective)
qed

end
