(* ===== verification/MobileInput.thy ===== *)
theory MobileInput
  imports TerminalHook
begin

text \<open>
  \<^verbatim>\<open>features/split/MobileInputOverlay.tsx\<close> on top of the terminal it types into (\<open>TerminalHook\<close>):
  the text area that is sent as a whole, the special keys, and the flush when the pane loses
  the focus. \<open>term.input(data, true)\<close> hands the data to xterm's \<open>onData\<close>, that is to the hook.
\<close>

section \<open>Tables\<close>

definition KEY_SEQUENCES :: "string \<Rightarrow> string option" where
  "KEY_SEQUENCES = [''Escape'' \<mapsto> [ESC], ''Tab'' \<mapsto> [CHR 0x09]]"

text \<open>Label and sequence; the arrows and the erase sign are written as their UTF-8 bytes.\<close>

definition EXTRA_KEYS :: "(string \<times> string) list" where
  "EXTRA_KEYS =
     [(''ESC'', [ESC]), (''TAB'', [CHR 0x09]),
      ([CHR 0xE2, CHR 0x8C, CHR 0xAB], [CHR 0x7F]),
      ([CHR 0xE2, CHR 0x86, CHR 0x91], ESC # ''[A''),
      ([CHR 0xE2, CHR 0x86, CHR 0x93], ESC # ''[B''),
      ([CHR 0xE2, CHR 0x86, CHR 0x92], ESC # ''[C''),
      ([CHR 0xE2, CHR 0x86, CHR 0x90], ESC # ''[D''),
      (''^C'', [CHR 0x03]), (''^D'', [CHR 0x04]), (''^Z'', [CHR 0x1A]), (''^L'', [CHR 0x0C]),
      (''^B'', [CHR 0x02]), (''^A'', [CHR 0x01]), (''^E'', [CHR 0x05]), (''^U'', [CHR 0x15]),
      (''^K'', [CHR 0x0B]), (''^W'', [CHR 0x17]), (''^R'', [CHR 0x12]),
      (''HOME'', ESC # ''[H''), (''END'', ESC # ''[F''), (''PGUP'', ESC # ''[5~''), (''PGDN'', ESC # ''[6~'')]"

section \<open>State and handlers\<close>

record mobile =
  mi_hook :: hook_state
  mi_text :: string          \<comment> \<open>the text area\<close>
  mi_focused :: bool         \<comment> \<open>the pane has the focus\<close>
  mi_caret :: bool           \<comment> \<open>the text area has the keyboard\<close>
  keysOpen :: bool

definition mobile_send :: "ws_config \<Rightarrow> string \<Rightarrow> mobile \<Rightarrow> mobile" where
  "mobile_send cfg data m =
     (if length data > 0 then m\<lparr>mi_hook := hook_step cfg (mi_hook m) (TermData data)\<rparr> else m)"

definition flush :: "ws_config \<Rightarrow> mobile \<Rightarrow> mobile" where
  "flush cfg m = (mobile_send cfg (mi_text m) m)\<lparr>mi_text := ''''\<rparr>"

definition onSend :: "ws_config \<Rightarrow> mobile \<Rightarrow> mobile" where
  "onSend cfg m = (mobile_send cfg [CHR 0x0D] (flush cfg m))\<lparr>mi_caret := True\<rparr>"

text \<open>The effect on \<open>focused\<close>.\<close>

definition set_focused :: "ws_config \<Rightarrow> bool \<Rightarrow> mobile \<Rightarrow> mobile" where
  "set_focused cfg b m =
     (if mi_focused m = b then m
      else if b then m\<lparr>mi_focused := True\<rparr>
      else (flush cfg (m\<lparr>mi_focused := False\<rparr>))\<lparr>mi_caret := False\<rparr>)"

definition mobile_mount :: "ws_config \<Rightarrow> bool \<Rightarrow> hook_state \<Rightarrow> mobile" where
  "mobile_mount cfg focused h =
     (let m = \<lparr>mi_hook = h, mi_text = '''', mi_focused = focused, mi_caret = False, keysOpen = False\<rparr>
      in if focused then m else (flush cfg m)\<lparr>mi_caret := False\<rparr>)"

definition extra_key :: "ws_config \<Rightarrow> nat \<Rightarrow> mobile \<Rightarrow> mobile" where
  "extra_key cfg i m =
     (if i < length EXTRA_KEYS then (mobile_send cfg (snd (EXTRA_KEYS ! i)) m)\<lparr>mi_caret := True\<rparr> else m)"

definition text_key :: "ws_config \<Rightarrow> bool \<Rightarrow> string \<Rightarrow> mobile \<Rightarrow> mobile" where
  "text_key cfg ime key m =
     (if ime then m
      else case KEY_SEQUENCES key of None \<Rightarrow> m | Some seq \<Rightarrow> mobile_send cfg seq m)"

datatype mobile_event =
    HookEvent hook_event
  | TypeText string
  | SendClick
  | ExtraKey nat
  | TextKey bool string
  | PaneFocus bool
  | ToggleKeys

fun mobile_step :: "ws_config \<Rightarrow> mobile \<Rightarrow> mobile_event \<Rightarrow> mobile" where
  "mobile_step cfg m (HookEvent e) = m\<lparr>mi_hook := hook_step cfg (mi_hook m) e\<rparr>"
| "mobile_step cfg m (TypeText str) = m\<lparr>mi_text := str\<rparr>"
| "mobile_step cfg m SendClick = onSend cfg m"
| "mobile_step cfg m (ExtraKey i) = extra_key cfg i m"
| "mobile_step cfg m (TextKey ime key) = text_key cfg ime key m"
| "mobile_step cfg m (PaneFocus b) = set_focused cfg b m"
| "mobile_step cfg m ToggleKeys = m\<lparr>keysOpen := \<not> keysOpen m\<rparr>"

fun mobile_ok :: "mobile \<Rightarrow> mobile_event \<Rightarrow> bool" where
  "mobile_ok m (HookEvent e) = hook_ok (mi_hook m) e"
| "mobile_ok m e = True"

section \<open>The overlay only types\<close>

text \<open>The events the hook sees for an event of the overlay.\<close>

definition typed :: "string \<Rightarrow> hook_event list" where
  "typed data = (if length data > 0 then [TermData data] else [])"

fun hook_events :: "mobile \<Rightarrow> mobile_event \<Rightarrow> hook_event list" where
  "hook_events m (HookEvent e) = [e]"
| "hook_events m (TypeText str) = []"
| "hook_events m SendClick = typed (mi_text m) @ [TermData [CHR 0x0D]]"
| "hook_events m (ExtraKey i) = (if i < length EXTRA_KEYS then typed (snd (EXTRA_KEYS ! i)) else [])"
| "hook_events m (TextKey ime key) =
     (if ime then [] else case KEY_SEQUENCES key of None \<Rightarrow> [] | Some seq \<Rightarrow> typed seq)"
| "hook_events m (PaneFocus b) = (if mi_focused m \<and> \<not> b then typed (mi_text m) else [])"
| "hook_events m ToggleKeys = []"

lemma mobile_send_hook [simp]: "mi_hook (mobile_send cfg data m) = run (hook_step cfg) (mi_hook m) (typed data)"
  by (simp add: mobile_send_def typed_def)

lemma mobile_send_fields [simp]:
  "mi_text (mobile_send cfg data m) = mi_text m" "mi_focused (mobile_send cfg data m) = mi_focused m"
  by (simp_all add: mobile_send_def)

lemma mobile_step_hook: "mi_hook (mobile_step cfg m e) = run (hook_step cfg) (mi_hook m) (hook_events m e)"
  by (cases e) (auto simp: flush_def onSend_def extra_key_def text_key_def set_focused_def typed_def
      split: option.split)

fun all_hook_events :: "ws_config \<Rightarrow> mobile \<Rightarrow> mobile_event list \<Rightarrow> hook_event list" where
  "all_hook_events cfg m [] = []"
| "all_hook_events cfg m (e # es) = hook_events m e @ all_hook_events cfg (mobile_step cfg m e) es"

lemma hook_ok_typed: "run_ok (hook_step cfg) hook_ok h (typed data)"
  by (simp add: typed_def hook_ok_def)

lemma hook_ok_data: "hook_ok h (TermData d)"
  by (simp add: hook_ok_def)

lemma hook_events_ok: "mobile_ok m e \<Longrightarrow> run_ok (hook_step cfg) hook_ok (mi_hook m) (hook_events m e)"
  by (cases e) (auto simp: hook_ok_typed hook_ok_data split: option.split)


lemma mobile_inv_step:
  assumes "hook_inv (mi_hook m)" and "mobile_ok m e"
  shows "hook_inv (mi_hook (mobile_step (hook_cfg secure hst wsId tmId) m e))"
  unfolding mobile_step_hook using assms by (intro hook_run.run_inv hook_events_ok)

interpretation mobile_run: machine_inv "mobile_step (hook_cfg secure hst wsId tmId)" mobile_ok "\<lambda>m. hook_inv (mi_hook m)"
  by unfold_locales (rule mobile_inv_step)

section \<open>What is sent\<close>

text \<open>The messages that typing \<open>ds\<close> puts on the wire, each as one input message.\<close>

definition sent_inputs :: "hook_state \<Rightarrow> string list \<Rightarrow> ws_out list" where
  "sent_inputs h ds =
     (if \<not> mounted h then []
      else case live_sock (h_conn h) of None \<Rightarrow> []
        | Some i \<Rightarrow> map (\<lambda>d. SockSend i (input_msg d)) (filter (\<lambda>d. \<not> malformed_mouse d) ds))"

lemma live_sock_send [simp]: "live_sock (snd (ws_send m c)) = live_sock c"
  by (auto simp: live_sock_def ws_send_def emit_def sock_ready_def split: option.split)

lemma out_send: "out (snd (ws_send m c)) = out c @ (case live_sock c of None \<Rightarrow> [] | Some i \<Rightarrow> [SockSend i m])"
  by (auto simp: live_sock_def ws_send_def emit_def split: option.split)

lemma typed_sends:
  "out (h_conn (run (hook_step cfg) h (map TermData ds))) = out (h_conn h) @ sent_inputs h ds
   \<and> mounted (run (hook_step cfg) h (map TermData ds)) = mounted h
   \<and> live_sock (h_conn (run (hook_step cfg) h (map TermData ds))) = live_sock (h_conn h)"
proof (induction ds arbitrary: h)
  case (Cons d ds)
  show ?case using Cons [of "hook_step cfg h (TermData d)"]
    by (auto simp: sent_inputs_def on_data_def out_send split: option.split)
qed (simp add: sent_inputs_def split: option.split)

lemma plain_not_malformed: "length d < 7 \<Longrightarrow> \<not> malformed_mouse d"
  by (auto simp: malformed_mouse_iff_suffix malformed_at_iff)

text \<open>
  A line is sent as it was typed and once: with the connection open the server gets the text of the
  area, unchanged and as one message, and then the carriage return, in this order; an empty
  area sends the return alone, and the area is empty afterwards. Without an open connection
  nothing is sent, but the area is cleared all the same.
\<close>

theorem mobile_line_sent:
  "let h = mi_hook m; m' = onSend cfg m in
     mi_text m' = '''' \<and> mi_caret m'
     \<and> out (h_conn (mi_hook m')) = out (h_conn h) @
         (case (if mounted h then live_sock (h_conn h) else None) of
            None \<Rightarrow> []
          | Some i \<Rightarrow>
              (if mi_text m = '''' \<or> malformed_mouse (mi_text m) then [] else [SockSend i (input_msg (mi_text m))])
              @ [SockSend i (input_msg [CHR 0x0D])])"
proof -
  let ?ds = "(if mi_text m = '''' then [] else [mi_text m]) @ [[CHR 0x0D]]"
  have "mi_hook (onSend cfg m) = run (hook_step cfg) (mi_hook m) (map TermData ?ds)"
    using mobile_step_hook [of cfg m SendClick] by (auto simp: typed_def)
  then have "out (h_conn (mi_hook (onSend cfg m))) = out (h_conn (mi_hook m)) @ sent_inputs (mi_hook m) ?ds"
    using typed_sends by metis
  moreover have "\<not> malformed_mouse [CHR 0x0D]" by (rule plain_not_malformed) simp
  ultimately show ?thesis
    by (auto simp: sent_inputs_def onSend_def flush_def Let_def split: option.split)
qed

text \<open>Each special key sends its sequence and leaves the text alone.\<close>

lemma extra_key_sent:
  assumes "i < length EXTRA_KEYS"
  shows "out (h_conn (mi_hook (extra_key cfg i m))) = out (h_conn (mi_hook m)) @
      (case (if mounted (mi_hook m) then live_sock (h_conn (mi_hook m)) else None) of
         None \<Rightarrow> [] | Some s \<Rightarrow> [SockSend s (input_msg (snd (EXTRA_KEYS ! i)))])
    \<and> mi_text (extra_key cfg i m) = mi_text m"
proof -
  have "\<forall>k \<in> set EXTRA_KEYS. length (snd k) < 7 \<and> snd k \<noteq> []" by (simp add: EXTRA_KEYS_def)
  then have k: "length (snd (EXTRA_KEYS ! i)) < 7" "snd (EXTRA_KEYS ! i) \<noteq> []"
    using assms nth_mem by blast+
  then have "mi_hook (extra_key cfg i m) = run (hook_step cfg) (mi_hook m) (map TermData [snd (EXTRA_KEYS ! i)])"
    using mobile_step_hook [of cfg m "ExtraKey i"] assms by (simp add: typed_def)
  then have "out (h_conn (mi_hook (extra_key cfg i m))) = out (h_conn (mi_hook m)) @ sent_inputs (mi_hook m) [snd (EXTRA_KEYS ! i)]"
    using typed_sends [of cfg "mi_hook m" "[snd (EXTRA_KEYS ! i)]"] by simp
  then show ?thesis
    using plain_not_malformed [OF k(1)] assms by (simp add: sent_inputs_def extra_key_def split: option.split)
qed

text \<open>A key labelled with a caret sends the control character of its letter; no label is used twice.\<close>

lemma extra_keys_ctrl:
  "list_all (\<lambda>(label, s). case label of [c, x] \<Rightarrow> c = CHR ''^'' \<longrightarrow> s = [char_of ((of_char x :: nat) - 64)] | _ \<Rightarrow> True) EXTRA_KEYS
   \<and> distinct (map fst EXTRA_KEYS)"
  by (simp add: EXTRA_KEYS_def char_of_def bit_0)


end
