(* ===== verification/Panes.thy ===== *)
theory Panes
  imports Hub TerminalHook Requests
begin

text \<open>
  What is on the screen: \<^verbatim>\<open>features/split/SplitView.tsx\<close> (panes, dividers and their drag), the main
  region of \<^verbatim>\<open>App.tsx\<close>, and the header of \<^verbatim>\<open>features/split/TerminalPane.tsx\<close>. The view is a function of
  the layout and of the session map; markup and styles are left out.
\<close>

section \<open>Panes\<close>

text \<open>A pane shows a terminal (with its focus) or the session picker; both can be closed when the
  screen is wide enough to split.\<close>

datatype pane_view = TerminalView string SessionRef bool | PickerView string

datatype view =
    PaneBox pane_view
  | SplitBox string SplitDir jsnum jsnum view view    \<comment> \<open>id, direction, the two flex-grow factors\<close>

definition leaf_view :: "(string \<rightharpoonup> SessionRef) \<Rightarrow> string \<Rightarrow> string \<Rightarrow> string option \<Rightarrow> pane_view" where
  "leaf_view ss focusedId i sess =
     (case (case sess of None \<Rightarrow> None | Some t \<Rightarrow> ss t) of
        Some r \<Rightarrow> TerminalView i r (focusedId = i)
      | None \<Rightarrow> PickerView i)"

fun split_view :: "(string \<rightharpoonup> SessionRef) \<Rightarrow> string \<Rightarrow> PaneNode \<Rightarrow> view" where
  "split_view ss focusedId (Leaf i sess) = PaneBox (leaf_view ss focusedId i sess)"
| "split_view ss focusedId (Split i d r f s) =
     SplitBox i d r (js_sub (Num 1) r) (split_view ss focusedId f) (split_view ss focusedId s)"

text \<open>The main region: the split view on a wide screen, otherwise the focused session or the
  empty state.\<close>

datatype main_region = SplitMain view | SingleMain SessionRef | EmptyMain

definition active_session :: "hub \<Rightarrow> SessionRef option" where
  "active_session h =
     (case findLeaf (ls_root (lay h)) (focusedPaneId (lay h)) of
        Some (Leaf i (Some t)) \<Rightarrow> sessions_of (workspaces h) t
      | _ \<Rightarrow> None)"

definition main_view :: "bool \<Rightarrow> hub \<Rightarrow> main_region" where
  "main_view splitEnabled h =
     (if splitEnabled then SplitMain (split_view (sessions_of (workspaces h)) (focusedPaneId (lay h)) (ls_root (lay h)))
      else case active_session h of Some r \<Rightarrow> SingleMain r | None \<Rightarrow> EmptyMain)"

text \<open>The terminals on the screen with their focus, from left to right. Each is one mounted
  \<open>TerminalPane\<close>, that is one connection.\<close>

fun view_panes :: "view \<Rightarrow> pane_view list" where
  "view_panes (PaneBox p) = [p]"
| "view_panes (SplitBox i d r1 r2 a b) = view_panes a @ view_panes b"

fun pane_terminal :: "pane_view \<Rightarrow> (SessionRef \<times> bool) option" where
  "pane_terminal (TerminalView i r foc) = Some (r, foc)"
| "pane_terminal (PickerView i) = None"

fun shown_terminals :: "main_region \<Rightarrow> (SessionRef \<times> bool) list" where
  "shown_terminals (SplitMain v) = List.map_filter pane_terminal (view_panes v)"
| "shown_terminals (SingleMain r) = [(r, True)]"
| "shown_terminals EmptyMain = []"

lemma view_panes_split: "view_panes (split_view ss foc t) = map (\<lambda>(i, sess). leaf_view ss foc i sess) (leaves t)"
  by (induction t) auto

lemma session_of_id: "sessions_of wss t = Some r \<Longrightarrow> sr_tmId r = t"
  using sessions_lookup [of t wss] by (auto simp: session_ref_def)

definition pane_refs ::
  "(string \<rightharpoonup> SessionRef) \<Rightarrow> string \<Rightarrow> (string \<times> string option) list \<Rightarrow> (SessionRef \<times> bool) list" where
  "pane_refs ss foc ps = List.map_filter pane_terminal (map (\<lambda>(i, sess). leaf_view ss foc i sess) ps)"

lemma pane_refs_simps [simp]:
  "pane_refs ss foc [] = []"
  "pane_refs ss foc ((i, sess) # ps) =
     (case sess of None \<Rightarrow> pane_refs ss foc ps
      | Some t \<Rightarrow> (case ss t of None \<Rightarrow> pane_refs ss foc ps | Some r \<Rightarrow> (r, foc = i) # pane_refs ss foc ps))"
  by (auto simp: pane_refs_def leaf_view_def map_filter_simps split: option.split)

lemma shown_ids:
  assumes "\<And>t r. ss t = Some r \<Longrightarrow> sr_tmId r = t"
  shows "map (\<lambda>p. sr_tmId (fst p)) (pane_refs ss foc ps) = filter (\<lambda>t. ss t \<noteq> None) (placed_list ps)"
  by (induction ps) (auto simp: assms split: option.splits)

lemma focused_refs:
  assumes "\<And>t r. ss t = Some r \<Longrightarrow> sr_tmId r = t"
  shows "(\<lambda>p. sr_tmId (fst p)) ` set (filter snd (pane_refs ss foc ps)) = {t. (foc, Some t) \<in> set ps \<and> t \<in> dom ss}"
proof (induction ps)
  case (Cons p ps)
  obtain i sess where "p = (i, sess)" by (cases p)
  with Cons show ?case by (cases sess; cases "ss (the sess)"; cases "foc = i") (auto simp: assms)
qed simp

lemma unfocused_refs: "foc \<notin> fst ` set ps \<Longrightarrow> filter snd (pane_refs ss foc ps) = []"
  by (induction ps) (auto split: option.split)

lemma shown_focus: "distinct (map fst ps) \<Longrightarrow> length (filter snd (pane_refs ss foc ps)) \<le> 1"
proof (induction ps)
  case (Cons p ps)
  obtain i sess where "p = (i, sess)" by (cases p)
  with Cons unfocused_refs [of i ps ss] show ?case by (auto split: option.split)
qed simp

lemma shown_refs: "(r, b) \<in> set (pane_refs ss foc ps) \<Longrightarrow> \<exists>t. ss t = Some r"
  by (induction ps) (auto split: option.splits)

lemma screen_shown:
  assumes l: "layout_inv (lay h)"
  shows "distinct (map (\<lambda>p. sr_tmId (fst p)) (shown_terminals (main_view True h)))
      \<and> length (filter snd (shown_terminals (main_view True h))) \<le> 1
      \<and> list_all (\<lambda>p. sessions_of (workspaces h) (sr_tmId (fst p)) = Some (fst p)) (shown_terminals (main_view True h))
      \<and> sr_tmId ` fst ` set (shown_terminals (main_view True h)) = placed (lay h) \<inter> dom (sessions_of (workspaces h))"
proof -
  let ?ss = "sessions_of (workspaces h)" and ?ps = "leaves (ls_root (lay h))"
  let ?ts = "pane_refs ?ss (focusedPaneId (lay h)) ?ps"
  have ts: "shown_terminals (main_view True h) = ?ts"
    by (simp add: main_view_def view_panes_split pane_refs_def)
  have ids: "map (\<lambda>p. sr_tmId (fst p)) ?ts = filter (\<lambda>t. ?ss t \<noteq> None) (placed_list ?ps)"
    by (rule shown_ids) (rule session_of_id)
  have "sr_tmId ` fst ` set ?ts = set (map (\<lambda>p. sr_tmId (fst p)) ?ts)" by (simp add: image_image)
  also have "\<dots> = placed (lay h) \<inter> dom ?ss"
    unfolding ids using l by (auto simp: layout_inv_def placedSessionIds_eq)
  finally have "sr_tmId ` fst ` set ?ts = placed (lay h) \<inter> dom ?ss" .
  moreover have "distinct (map (\<lambda>p. sr_tmId (fst p)) ?ts)"
    unfolding ids using l by (simp add: layout_inv_def session_once_def)
  moreover have "length (filter snd ?ts) \<le> 1"
    using shown_focus [of ?ps ?ss "focusedPaneId (lay h)"] l wf_leaf_ids [of "ls_root (lay h)"]
    by (simp add: layout_inv_def)
  moreover have "list_all (\<lambda>p. ?ss (sr_tmId (fst p)) = Some (fst p)) ?ts"
    unfolding list_all_iff
  proof clarify
    fix r b
    assume "(r, b) \<in> set ?ts"
    then obtain t where "?ss t = Some r" by (blast dest: shown_refs)
    then show "?ss (sr_tmId (fst (r, b))) = Some (fst (r, b))" using session_of_id by simp
  qed
  ultimately show ?thesis unfolding ts by blast
qed

text \<open>
  No terminal is on the screen twice, so no session has two connections of one page: whatever
  the user and the server do, the terminals shown are pairwise distinct, each is a listed terminal
  with its own workspace, and at most one has the focus. On a wide screen exactly the
  listed terminals that are placed in a pane are shown; a pane whose terminal was deleted
  shows the picker.
\<close>

theorem screen_terminals:
  assumes "ids_fresh w {}" and "run_ok hub_step hub_ok (hub_init w srv mobile) es"
  shows "let h = run hub_step (hub_init w srv mobile) es; ts = shown_terminals (main_view splitEnabled h) in
    distinct (map (\<lambda>p. sr_tmId (fst p)) ts)
    \<and> length (filter snd ts) \<le> 1
    \<and> list_all (\<lambda>p. sessions_of (workspaces h) (sr_tmId (fst p)) = Some (fst p)) ts
    \<and> (if splitEnabled then sr_tmId ` fst ` set ts = placed (lay h) \<inter> dom (sessions_of (workspaces h)) else True)"
proof -
  let ?h = "run hub_step (hub_init w srv mobile) es"
  have inv: "layout_inv (lay ?h)"
    by (rule hub_run.run_inv [OF _ assms(2)]) (simp add: hub_init_def layout_inv_init assms(1))
  have narrow: "distinct (map (\<lambda>p. sr_tmId (fst p)) (shown_terminals (main_view False h)))
      \<and> length (filter snd (shown_terminals (main_view False h))) \<le> 1
      \<and> list_all (\<lambda>p. sessions_of (workspaces h) (sr_tmId (fst p)) = Some (fst p)) (shown_terminals (main_view False h))" for h
  proof (cases "active_session h")
    case (Some r)
    then obtain t where t: "sessions_of (workspaces h) t = Some r"
      by (auto simp: active_session_def split: option.splits PaneNode.splits)
    then show ?thesis using session_of_id [OF t] Some by (simp add: main_view_def)
  qed (simp add: main_view_def)
  show ?thesis using screen_shown [OF inv] narrow [of ?h] by (cases splitEnabled) (simp_all add: Let_def)
qed

theorem screen_terminals_witness:
  "let h = run hub_step (hub_init demo_world None False)
        [AddTerminal demo_ws, Done 0 (GotTerminal \<lparr>tm_id = ''t9'', tm_name = '''', tmuxSession = ''''\<rparr>)] in
     distinct (map (\<lambda>p. sr_tmId (fst p)) (shown_terminals (main_view True h)))
     \<and> sr_tmId ` fst ` set (shown_terminals (main_view True h)) = placed (lay h) \<inter> dom (sessions_of (workspaces h))"
  using screen_terminals [where w = demo_world and srv = None and mobile = False and splitEnabled = True
      and es = "[AddTerminal demo_ws, Done 0 (GotTerminal \<lparr>tm_id = ''t9'', tm_name = '''', tmuxSession = ''''\<rparr>)]"]
    demo_fresh_empty
  by (simp add: hub_ok_def Let_def)

section \<open>Dividers\<close>

record rect = rc_left :: rat  rc_top :: rat  rc_width :: rat  rc_height :: rat

text \<open>The divider of one split: its \<open>dragging\<close> ref and the pointer capture of the element.\<close>

record divider =
  dv_dragging :: bool
  dv_captured :: bool

definition pointer_ratio :: "SplitDir \<Rightarrow> rect \<Rightarrow> rat \<Rightarrow> rat \<Rightarrow> jsnum" where
  "pointer_ratio d rc x y =
     (if d = DirH then js_div (js_sub (Num x) (Num (rc_left rc))) (Num (rc_width rc))
      else js_div (js_sub (Num y) (Num (rc_top rc))) (Num (rc_height rc)))"

definition onDividerDown :: "divider \<Rightarrow> divider" where
  "onDividerDown dv = dv\<lparr>dv_dragging := True, dv_captured := True\<rparr>"

definition onDividerMove ::
  "string \<Rightarrow> SplitDir \<Rightarrow> rect option \<Rightarrow> rat \<Rightarrow> rat \<Rightarrow> divider \<Rightarrow> layout_state \<Rightarrow> layout_state" where
  "onDividerMove i d el x y dv st =
     (if \<not> dv_dragging dv then st
      else case el of None \<Rightarrow> st | Some rc \<Rightarrow> changeRatio i (pointer_ratio d rc x y) st)"

definition endDrag :: "divider \<Rightarrow> divider" where
  "endDrag dv =
     (if \<not> dv_dragging dv then dv
      else let dv1 = dv\<lparr>dv_dragging := False\<rparr> in if dv_captured dv1 then dv1\<lparr>dv_captured := False\<rparr> else dv1)"

lemma js_div_pos: "0 < w \<Longrightarrow> js_div (Num a) (Num w) = Num (a / w)"
  by simp

lemma clamp_ratio_num: "clamp_ratio (Num x) = Num (min (9 / 10) (max (1 / 10) x))"
  by (simp add: clamp_ratio_def RATIO_MIN_def RATIO_MAX_def)

text \<open>
  The divider follows the pointer: while it is dragged the split's ratio is the pointer's
  position in the split's box, held between a tenth and nine tenths; the two sides share the
  whole box; panes, terminals, focus and every other split stay as they are. Without a press, and
  after the release, moving the pointer changes nothing.
\<close>

theorem divider_follows_pointer:
  assumes "layout_inv st" and "(i, d, r) \<in> set (split_nodes (ls_root st))"
    and "0 < rc_width rc" and "0 < rc_height rc"
  shows "let pos = (if d = DirH then (x - rc_left rc) / rc_width rc else (y - rc_top rc) / rc_height rc);
             q = min (9 / 10) (max (1 / 10) pos);
             st' = onDividerMove i d (Some rc) x y (onDividerDown dv) st in
    split_nodes (ls_root st') =
      map (\<lambda>(j, e, s). (j, e, if j = i then Num q else s)) (split_nodes (ls_root st))
    \<and> leaves (ls_root st') = leaves (ls_root st) \<and> focusedPaneId st' = focusedPaneId st \<and> layout_inv st'
    \<and> js_add (Num q) (js_sub (Num 1) (Num q)) = Num 1
    \<and> onDividerMove i d (Some rc) x y (endDrag (onDividerDown dv)) st = st
    \<and> \<not> dv_captured (endDrag (onDividerDown dv))"
proof -
  define pos where "pos = (if d = DirH then (x - rc_left rc) / rc_width rc else (y - rc_top rc) / rc_height rc)"
  have wf: "tree_wf (ls_root st)" "rootRef st = ls_root st" using assms(1) by (simp_all add: layout_inv_def)
  have "pointer_ratio d rc x y = Num pos" using assms(3,4) by (simp add: pointer_ratio_def pos_def)
  then have move: "onDividerMove i d (Some rc) x y (onDividerDown dv) st = changeRatio i (Num pos) st"
    by (simp add: onDividerMove_def onDividerDown_def)
  have up: "onDividerMove i d (Some rc) x y (endDrag (onDividerDown dv)) st = st" "\<not> dv_captured (endDrag (onDividerDown dv))"
    by (simp_all add: onDividerMove_def endDrag_def onDividerDown_def)
  have "layout_inv (changeRatio i (Num pos) st)"
    using layout_inv_step [OF assms(1), of "ChangeRatio i (Num pos)"] by simp
  moreover have "ls_root (changeRatio i (Num pos) st) = setRatio (ls_root st) i (Num pos)"
      "focusedPaneId (changeRatio i (Num pos) st) = focusedPaneId st"
    by (simp_all add: changeRatio_def commit_def persist_def wf(2))
  ultimately show ?thesis
    unfolding Let_def pos_def [symmetric] move
    by (simp add: up splits_setRatio [OF wf(1), of i "Num pos", unfolded clamp_ratio_num] leaf_simps)
qed

theorem divider_follows_pointer_witness:
  "split_nodes (ls_root (onDividerMove ''s1'' DirH (Some \<lparr>rc_left = 10, rc_top = 0, rc_width = 100, rc_height = 50\<rparr>) 30 0
       (onDividerDown \<lparr>dv_dragging = False, dv_captured = False\<rparr>) demo_layout)) =
     [(''s1'', DirH, Num (1 / 5)), (''s2'', DirV, Num (1 / 4))]"
  using divider_follows_pointer [OF demo_layout_inv, of "''s1''" DirH DEFAULT_RATIO
      "\<lparr>rc_left = 10, rc_top = 0, rc_width = 100, rc_height = 50\<rparr>" 30 0 "\<lparr>dv_dragging = False, dv_captured = False\<rparr>"]
  by (simp add: demo_layout_def demo_tree_def Let_def)

text \<open>In a box without width the ratio is not a number and passes the limits.\<close>

lemma divider_zero_width:
  assumes "rc_width rc = 0" and "x = rc_left rc"
  shows "clamp_ratio (pointer_ratio DirH rc x y) = NaN"
  using assms clamp_ratio_NaN by (simp add: pointer_ratio_def)

section \<open>The header of a terminal pane\<close>

definition status_label :: "ConnStatus \<Rightarrow> string" where
  "status_label s =
     (case s of Connecting \<Rightarrow> ''terminal.connecting'' | Open \<Rightarrow> '''' | Reconnecting \<Rightarrow> ''terminal.reconnecting''
      | Closed \<Rightarrow> ''terminal.disconnected'')"

text \<open>The badge; none when the connection is open.\<close>

definition status_badge :: "ConnStatus \<Rightarrow> string option" where
  "status_badge s = (if s \<noteq> Open then Some (status_label s) else None)"

text \<open>\<open>copyAttach\<close>: the reply of the server, then the outcome of \<open>clipboard.writeText\<close>. The result
  is what was put on the clipboard, and the message.\<close>

definition copyAttach ::
  "string reply \<Rightarrow> (string \<Rightarrow> unit reply) \<Rightarrow> string option \<times> (string \<times> ToastKind)" where
  "copyAttach r writeText =
     (case r of
        Err m \<Rightarrow> (None, (err_text ''toast.copyFailed'' m, Error))
      | Got command \<Rightarrow>
          (case writeText command of
             Err m \<Rightarrow> (None, (err_text ''toast.copyFailed'' m, Error))
           | Got u \<Rightarrow> (Some command, (''toast.copied'', Success))))"

text \<open>A press on a pane focuses the pane, and its terminal unless the pane is on a phone.\<close>

definition onPanePointerDown :: "bool \<Rightarrow> string \<Rightarrow> layout_state \<Rightarrow> hook_state \<Rightarrow> layout_state \<times> hook_state" where
  "onPanePointerDown isMobile i st h =
     (focusPane i st, if \<not> isMobile \<and> mounted h then term_do TermFocus h else h)"

lemma copyAttach_honest: "(fst (copyAttach r wr) \<noteq> None) = (snd (copyAttach r wr) = (''toast.copied'', Success))"
  by (simp add: copyAttach_def split: reply.split)

lemma badge_only_when_not_open: "(status_badge s = None) = (s = Open)"
  by (simp add: status_badge_def)

end
