(* ===== verification/PaneParts.thy ===== *)
theory PaneParts
  imports Panes Settings
begin

text \<open>
  The controls around the terminals: the header and the body of a pane (\<^verbatim>\<open>features/split/TerminalPane.tsx\<close>),
  the picker of an empty pane (\<^verbatim>\<open>features/split/SessionPicker.tsx\<close>), the choices of the settings menu
  (\<^verbatim>\<open>components/SettingsMenu.tsx\<close>) and the language button of the login page. What a control does is
  said by the operations of \<open>Hub\<close>, \<open>Layout\<close> and \<open>Settings\<close>.
\<close>

section \<open>A terminal pane\<close>

record pane_ui =
  showFiles :: bool
  paneKeys :: bool              \<comment> \<open>\<open>keysOpen\<close>\<close>

definition HANDLE_OUTSET :: rat where "HANDLE_OUTSET = 3"

datatype header_action = MenuAction | SplitAction SplitDir | CloseAction | AttachAction | FilesAction

definition header_actions :: "bool \<Rightarrow> header_action list" where
  "header_actions splitEnabled =
     [MenuAction] @ (if splitEnabled then [SplitAction DirH, SplitAction DirV, CloseAction] else [])
       @ [AttachAction, FilesAction]"

text \<open>\<open>copyAttach\<close> changes neither the pane nor the application.\<close>

fun header_do :: "string \<Rightarrow> header_action \<Rightarrow> pane_ui \<times> hub \<Rightarrow> pane_ui \<times> hub" where
  "header_do i MenuAction (u, h) = (u, h\<lparr>sidebarCollapsed := False\<rparr>)"
| "header_do i (SplitAction d) (u, h) = (u, h\<lparr>lay := split_pane i d (lay h)\<rparr>)"
| "header_do i CloseAction (u, h) = (u, h\<lparr>lay := closePane i (lay h)\<rparr>)"
| "header_do i AttachAction (u, h) = (u, h)"
| "header_do i FilesAction (u, h) = (u\<lparr>showFiles := \<not> showFiles u\<rparr>, h)"

definition toggle_keys :: "pane_ui \<Rightarrow> pane_ui" where
  "toggle_keys u = u\<lparr>paneKeys := \<not> paneKeys u\<rparr>"

definition close_files :: "pane_ui \<Rightarrow> pane_ui" where
  "close_files u = u\<lparr>showFiles := False\<rparr>"

text \<open>What stands beside the terminal: the overlay on a phone; the handle, by its distance from the
  right edge, and the file panel.\<close>

datatype pane_child = TerminalBox | InputOverlay bool | FilesHandle jsnum | FilesPanel string jsnum

definition pane_body :: "bool \<Rightarrow> string \<Rightarrow> jsnum \<Rightarrow> pane_ui \<Rightarrow> pane_child list" where
  "pane_body isMobile path width u =
     [TerminalBox] @ (if isMobile then [InputOverlay (paneKeys u)] else [])
       @ (if showFiles u then [FilesHandle (js_sub width (Num HANDLE_OUTSET)), FilesPanel path width] else [])"

text \<open>The header keeps the layout sound; on a narrow screen it cannot change it at all.\<close>

lemma header_keeps_layout: "layout_inv (lay h) \<Longrightarrow> layout_inv (lay (snd (header_do i a (u, h))))"
  using layout_inv_step [of "lay h" "SplitPane i _"] layout_inv_step [of "lay h" "ClosePane i"]
  by (cases a) simp_all

lemma narrow_header: "a \<in> set (header_actions False) \<Longrightarrow> lay (snd (header_do i a (u, h))) = lay h"
  by (auto simp: header_actions_def)

section \<open>The picker of an empty pane\<close>

datatype picker_press = SelectWs string | PickItem string | CreateNew

text \<open>\<open>newWsId\<close> is the picker's own state; the select and the button are disabled without workspaces.\<close>

fun picker_do :: "string \<Rightarrow> picker_press \<Rightarrow> string \<times> hub \<Rightarrow> string \<times> hub" where
  "picker_do i (SelectWs w) (newWsId, h) = (if length (workspaces h) = 0 then newWsId else w, h)"
| "picker_do i (PickItem t) (newWsId, h) = (newWsId, h\<lparr>lay := assignSession i t (lay h)\<rparr>)"
| "picker_do i CreateNew (newWsId, h) =
     (newWsId,
      if length (workspaces h) \<noteq> 0 \<and> length (effectiveNewWsId newWsId (workspaces h)) > 0
      then createTerminalInPane i (effectiveNewWsId newWsId (workspaces h)) h else h)"

text \<open>The groups with their items, or \<open>None\<close> for the line that says there is nothing to pick.\<close>

definition picker_list :: "hub \<Rightarrow> (string \<times> (string \<times> string) list) list option" where
  "picker_list h =
     (let av = available (placed (lay h)) (workspaces h)
      in if length av = 0 then None
         else Some (map (\<lambda>(w, tms). (ws_name w, map (\<lambda>tm. (tm_id tm, tm_name tm)) tms)) av))"

definition picker_options :: "hub \<Rightarrow> (string \<times> string) list" where
  "picker_options h = map (\<lambda>w. (ws_id w, ws_name w)) (workspaces h)"

lemma picker_keeps_layout: "layout_inv (lay h) \<Longrightarrow> layout_inv (lay (snd (picker_do i p (newWsId, h))))"
  using layout_inv_step [of "lay h" "AssignSession i _"]
  by (cases p) (simp_all add: createTerminalInPane_def)

text \<open>The workspace the button creates in is one of the options, unless it was chosen and has gone since.\<close>

lemma create_target:
  assumes "picker_options h \<noteq> []" and "newWsId = '''' \<or> newWsId \<in> fst ` set (picker_options h)"
  shows "effectiveNewWsId newWsId (workspaces h) \<in> fst ` set (picker_options h)"
  using assms by (cases "workspaces h") (auto simp: effectiveNewWsId_def picker_options_def)

lemma items_unplaced:
  assumes "picker_list h = Some gs" and "(n, items) \<in> set gs" and "(t, m) \<in> set items"
  shows "t \<notin> placed (lay h)"
  using assms by (auto simp: picker_list_def available_def Let_def split: if_splits)

section \<open>The settings menu\<close>

definition lang_label :: "Lang \<Rightarrow> string" where
  "lang_label l = (case l of En \<Rightarrow> ''EN'' | Ko \<Rightarrow> ''KO'')"

definition lang_buttons :: "Lang \<Rightarrow> (string \<times> bool) list" where
  "lang_buttons lang = map (\<lambda>code. (lang_label code, lang = code)) [En, Ko]"

definition font_options :: "(string \<times> string) list" where
  "font_options = map (\<lambda>p. (font_str (fp_id p), fp_labelKey p)) FONT_PRESETS"

definition size_label :: "settings_state \<Rightarrow> string" where
  "size_label s = js_String (ss_size s) @ ''px''"

definition other_lang :: "Lang \<Rightarrow> Lang" where
  "other_lang lang = (if lang = Ko then En else Ko)"

text \<open>Exactly one language is marked; every option of the font select selects its font.\<close>

lemma one_language: "length (filter snd (lang_buttons l)) = 1"
  by (cases l) (simp_all add: lang_buttons_def)

lemma font_option_chosen:
  "list_all (\<lambda>p. ss_font (choose_font (font_str (fp_id p)) s) = fp_id p) FONT_PRESETS \<and> distinct (map fst font_options)"
  by (simp add: choose_font_def FONT_PRESETS_def setFont_def font_options_def)

end
