(* ===== verification/Tree.thy ===== *)
theory Tree
  imports Panes
begin

text \<open>
  The sidebar: \<^verbatim>\<open>components/SessionTree.tsx\<close> (the rows, the rename field and the keys),
  \<^verbatim>\<open>components/Sidebar.tsx\<close>, the open state of \<^verbatim>\<open>components/SettingsMenu.tsx\<close> and
  \<^verbatim>\<open>lib/useMediaQuery.ts\<close>. The rows are a function of the hub's state; the rename field keeps a state
  of its own and reaches the hub through \<open>commitRename\<close>.
\<close>

section \<open>Rows\<close>

record term_row =
  tr_id :: string
  tr_active :: bool
  tr_placed :: bool
  tr_renaming :: bool

record ws_row =
  wr_id :: string
  wr_open :: bool
  wr_renaming :: bool
  wr_count :: nat
  wr_terms :: "term_row list"

definition renaming_ws :: "rename_target option \<Rightarrow> Workspace \<Rightarrow> bool" where
  "renaming_ws rn w = (case rn of Some (RenameWorkspace i) \<Rightarrow> i = ws_id w | _ \<Rightarrow> False)"

definition renaming_tm :: "rename_target option \<Rightarrow> Terminal \<Rightarrow> bool" where
  "renaming_tm rn tm = (case rn of Some (RenameTerminal i t) \<Rightarrow> t = tm_id tm | _ \<Rightarrow> False)"

definition term_row_of :: "rename_target option \<Rightarrow> string option \<Rightarrow> string set \<Rightarrow> Terminal \<Rightarrow> term_row" where
  "term_row_of rn activeId placedSessions tm =
     \<lparr>tr_id = tm_id tm, tr_active = (Some (tm_id tm) = activeId), tr_placed = (tm_id tm \<in> placedSessions),
      tr_renaming = renaming_tm rn tm\<rparr>"

definition session_rows ::
  "rename_target option \<Rightarrow> string set \<Rightarrow> string option \<Rightarrow> string set \<Rightarrow> Workspace list \<Rightarrow> ws_row list" where
  "session_rows rn opened activeId placedSessions wss =
     map (\<lambda>w. \<lparr>wr_id = ws_id w, wr_open = (ws_id w \<in> opened), wr_renaming = renaming_ws rn w,
               wr_count = length (terminals w),
               wr_terms = map (term_row_of rn activeId placedSessions) (terminals w)\<rparr>) wss"

text \<open>\<open>App\<close> hands the tree the session of the focused pane and the placed sessions of the layout.\<close>

definition focused_session :: "hub \<Rightarrow> string option" where
  "focused_session h =
     (case findLeaf (ls_root (lay h)) (focusedPaneId (lay h)) of Some (Leaf i sess) \<Rightarrow> sess | _ \<Rightarrow> None)"

definition sidebar_rows :: "rename_target option \<Rightarrow> hub \<Rightarrow> ws_row list" where
  "sidebar_rows rn h =
     session_rows rn (expanded h) (focused_session h) (placed (lay h)) (workspaces h)"

definition row_ids :: "(term_row \<Rightarrow> bool) \<Rightarrow> ws_row list \<Rightarrow> string set" where
  "row_ids P rows = set (map tr_id (filter P (concat (map wr_terms rows))))"

lemma row_id [simp]: "tr_id (term_row_of rn a pl tm) = tm_id tm" "tr_active (term_row_of rn a pl tm) = (a = Some (tm_id tm))"
  "tr_placed (term_row_of rn a pl tm) = (tm_id tm \<in> pl)"
  by (auto simp: term_row_of_def)

lemma row_ids_rows:
  "row_ids P (session_rows rn opened a pl wss)
   = (\<Union>w \<in> set wss. tm_id ` {tm \<in> set (terminals w). P (term_row_of rn a pl tm)})"
proof (induction wss)
  case (Cons w wss)
  have "set (map tr_id (filter P (map (term_row_of rn a pl) tms)))
      = tm_id ` {tm \<in> set tms. P (term_row_of rn a pl tm)}" for tms
    by (induction tms) auto
  with Cons show ?case by (simp add: row_ids_def session_rows_def)
qed (simp add: row_ids_def session_rows_def)

lemma listed: "dom (sessions_of wss) = (\<Union>w \<in> set wss. tm_id ` set (terminals w))"
  using sessions_lookup [of _ wss] by (fastforce simp: image_iff)

lemma placed_rows: "row_ids tr_placed (sidebar_rows rn h) = placed (lay h) \<inter> dom (sessions_of (workspaces h))"
  by (auto simp: sidebar_rows_def row_ids_rows listed)

lemma active_rows:
  "row_ids tr_active (sidebar_rows rn h)
   = {t. focused_session h = Some t \<and> t \<in> dom (sessions_of (workspaces h))}"
  by (auto simp: sidebar_rows_def row_ids_rows listed)

lemma focused_session_leaf:
  assumes "tree_wf (ls_root (lay h))"
  shows "focused_session h = Some t \<longleftrightarrow> (focusedPaneId (lay h), Some t) \<in> set (leaves (ls_root (lay h)))"
proof -
  let ?ps = "leaves (ls_root (lay h))"
  have "focused_session h = (case map_of ?ps (focusedPaneId (lay h)) of None \<Rightarrow> None | Some sess \<Rightarrow> sess)"
    by (simp add: focused_session_def findLeaf_eq [OF assms] split: option.split)
  then show ?thesis
    using map_of_eq_Some_iff [OF wf_leaf_ids [OF assms], of "focusedPaneId (lay h)" "Some t"]
    by (simp split: option.splits)
qed

lemma active_focused:
  "active_session h = (case focused_session h of None \<Rightarrow> None | Some t \<Rightarrow> sessions_of (workspaces h) t)"
  by (simp add: active_session_def focused_session_def split: option.split PaneNode.split)

text \<open>
  C35. The sidebar tells the truth about the screen, on a wide screen and on a narrow one, whatever the user
  and the server do: the highlighted rows are those of the terminal that has the focus on the
  screen (none if none has), and on a wide screen the dots mark exactly the terminals shown.
\<close>

theorem sidebar_matches_screen:
  assumes "ids_fresh w {}" and "run_ok hub_step hub_ok (hub_init w srv mobile) es"
  shows "let h = run hub_step (hub_init w srv mobile) es; ts = shown_terminals (main_view splitEnabled h); rows = sidebar_rows rn h in
    row_ids tr_active rows = (\<lambda>p. sr_tmId (fst p)) ` set (filter snd ts)
    \<and> (if splitEnabled then row_ids tr_placed rows = (\<lambda>p. sr_tmId (fst p)) ` set ts else True)"
proof -
  let ?h = "run hub_step (hub_init w srv mobile) es"
  let ?ss = "sessions_of (workspaces ?h)" and ?l = "lay ?h"
  have inv: "layout_inv ?l"
    by (rule hub_run.run_inv [OF _ assms(2)]) (simp add: hub_init_def layout_inv_init assms(1))
  have wide: "shown_terminals (main_view True ?h) = pane_refs ?ss (focusedPaneId ?l) (leaves (ls_root ?l))"
    by (simp add: main_view_def view_panes_split pane_refs_def)
  have ids: "(\<lambda>p. sr_tmId (fst p)) ` set (shown_terminals (main_view True ?h)) = placed ?l \<inter> dom ?ss"
    using screen_shown [OF inv] by (simp add: image_image)
  have foc: "(\<lambda>p. sr_tmId (fst p)) ` set (filter snd (shown_terminals (main_view True ?h)))
      = row_ids tr_active (sidebar_rows rn ?h)"
    unfolding wide active_rows
    using inv focused_refs [of ?ss, OF session_of_id] focused_session_leaf [of ?h]
    by (simp add: layout_inv_def)
  have narrow: "(\<lambda>p. sr_tmId (fst p)) ` set (filter snd (shown_terminals (main_view False ?h)))
      = row_ids tr_active (sidebar_rows rn ?h)"
    unfolding active_rows
    by (auto simp: main_view_def active_focused dest: session_of_id split: option.split)
  show ?thesis using ids foc narrow by (cases splitEnabled) (simp_all add: Let_def placed_rows)
qed

theorem sidebar_matches_screen_witness:
  "let h = run hub_step (hub_init demo_world None False)
        [AddTerminal demo_ws, Done 0 (GotTerminal \<lparr>tm_id = ''t9'', tm_name = '''', tmuxSession = ''''\<rparr>)];
       ts = shown_terminals (main_view True h) in
     row_ids tr_placed (sidebar_rows None h) = (\<lambda>p. sr_tmId (fst p)) ` set ts
     \<and> row_ids tr_active (sidebar_rows None h) = (\<lambda>p. sr_tmId (fst p)) ` set (filter snd ts)"
  using sidebar_matches_screen [where w = demo_world and srv = None and mobile = False and splitEnabled = True
      and rn = None
      and es = "[AddTerminal demo_ws, Done 0 (GotTerminal \<lparr>tm_id = ''t9'', tm_name = '''', tmuxSession = ''''\<rparr>)]"]
    demo_fresh_empty
  by (simp add: hub_ok_def Let_def)

section \<open>The rename field\<close>

text \<open>\<open>tu_field\<close> is the mounted \<open>RenameInput\<close> with the target its \<open>onCommit\<close> captured.\<close>

record rename_field =
  ri_value :: string
  ri_done :: bool

record tree_ui =
  tu_rename :: "rename_target option"
  tu_field :: "(rename_target \<times> rename_field) option"
  tu_hub :: hub

fun row_name :: "rename_target \<Rightarrow> Workspace list \<Rightarrow> string option" where
  "row_name (RenameWorkspace i) wss = map_option ws_name (find (\<lambda>w. ws_id w = i) wss)"
| "row_name (RenameTerminal i t) wss = map_option tm_name (find (\<lambda>tm. tm_id tm = t) (concat (map terminals wss)))"

text \<open>A render mounts the field in the row of the target, if there is one, with the name it has.\<close>

definition tree_render :: "tree_ui \<Rightarrow> tree_ui" where
  "tree_render u =
     u\<lparr>tu_field :=
        (case tu_rename u of
           None \<Rightarrow> None
         | Some tg \<Rightarrow>
             (case row_name tg (workspaces (tu_hub u)) of
                None \<Rightarrow> None
              | Some n \<Rightarrow>
                  (if map_option fst (tu_field u) = Some tg then tu_field u
                   else Some (tg, \<lparr>ri_value = n, ri_done = False\<rparr>))))\<rparr>"

definition field_commit :: "string \<Rightarrow> tree_ui \<Rightarrow> tree_ui" where
  "field_commit v u =
     (case tu_field u of
        None \<Rightarrow> u
      | Some (tg, f) \<Rightarrow>
          (if ri_done f then u
           else u\<lparr>tu_field := Some (tg, f\<lparr>ri_done := True\<rparr>), tu_rename := None,
                  tu_hub := commitRename tg v (tu_hub u)\<rparr>))"

definition field_value :: "tree_ui \<Rightarrow> string" where
  "field_value u = (case tu_field u of None \<Rightarrow> '''' | Some (tg, f) \<Rightarrow> ri_value f)"

datatype field_event = FieldChange string | FieldEnter | FieldEscape | FieldBlur | TreeRender

fun field_step :: "tree_ui \<Rightarrow> field_event \<Rightarrow> tree_ui" where
  "field_step u (FieldChange v) = u\<lparr>tu_field := map_option (\<lambda>(tg, f). (tg, f\<lparr>ri_value := v\<rparr>)) (tu_field u)\<rparr>"
| "field_step u FieldEnter = field_commit (field_value u) u"
| "field_step u FieldEscape = field_commit '''' u"
| "field_step u FieldBlur = field_commit (field_value u) u"
| "field_step u TreeRender = tree_render u"

definition start_rename :: "rename_target \<Rightarrow> hub \<Rightarrow> tree_ui" where
  "start_rename tg h = tree_render \<lparr>tu_rename = Some tg, tu_field = None, tu_hub = h\<rparr>"

text \<open>The text the first committing event of the session commits.\<close>

fun first_commit :: "string \<Rightarrow> field_event list \<Rightarrow> string option" where
  "first_commit v [] = None"
| "first_commit v (FieldChange s # es) = first_commit s es"
| "first_commit v (FieldEnter # es) = Some v"
| "first_commit v (FieldEscape # es) = Some ''''"
| "first_commit v (FieldBlur # es) = Some v"
| "first_commit v (TreeRender # es) = first_commit v es"

definition committed :: "rename_target \<Rightarrow> string option \<Rightarrow> hub \<Rightarrow> hub" where
  "committed tg c h = (case c of None \<Rightarrow> h | Some s \<Rightarrow> commitRename tg s h)"

lemma committed_simps [simp]: "committed tg None h = h" "committed tg (Some s) h = commitRename tg s h"
  by (simp_all add: committed_def)

text \<open>A committed field is spent: the blur that its removal causes does nothing.\<close>

definition spent :: "tree_ui \<Rightarrow> bool" where
  "spent u = (tu_rename u = None \<and> (case tu_field u of None \<Rightarrow> True | Some (tg, f) \<Rightarrow> ri_done f))"

lemma spent_step: "spent u \<Longrightarrow> spent (field_step u e) \<and> tu_hub (field_step u e) = tu_hub u"
  by (cases e) (auto simp: spent_def field_commit_def tree_render_def split: option.splits)

lemma spent_run: "spent u \<Longrightarrow> tu_hub (run field_step u es) = tu_hub u"
proof (induction es arbitrary: u)
  case (Cons e es)
  then show ?case using spent_step [of u e] by simp
qed simp

lemma commit_spent:
  assumes "tu_field u = Some (tg, \<lparr>ri_value = x, ri_done = False\<rparr>)"
  shows "tu_hub (run field_step (field_commit v u) es) = commitRename tg v (tu_hub u)"
proof -
  have "spent (field_commit v u)" "tu_hub (field_commit v u) = commitRename tg v (tu_hub u)"
    using assms by (simp_all add: spent_def field_commit_def)
  then show ?thesis using spent_run by simp
qed

lemma field_session:
  assumes "row_name tg (workspaces (tu_hub u)) = Some n" and "tu_rename u = Some tg"
    and "tu_field u = Some (tg, \<lparr>ri_value = v, ri_done = False\<rparr>)"
  shows "tu_hub (run field_step u es)
    = committed tg (first_commit v es) (tu_hub u)"
  using assms
proof (induction es arbitrary: u v)
  case (Cons e es)
  have val: "field_value u = v" using Cons.prems by (simp add: field_value_def)
  show ?case
  proof (cases e)
    case (FieldChange s)
    let ?u = "field_step u (FieldChange s)"
    have "tu_hub (run field_step ?u es) = committed tg (first_commit s es) (tu_hub ?u)"
      by (rule Cons.IH) (use Cons.prems in simp_all)
    with FieldChange show ?thesis by simp
  next
    case TreeRender
    have "tree_render u = u" using Cons.prems by (simp add: tree_render_def)
    with TreeRender Cons.IH [OF Cons.prems] show ?thesis by simp
  qed (use val commit_spent [OF Cons.prems(3)] in simp_all)
qed simp

text \<open>
  C36. A rename commits once: whatever mixture of typing, Enter, Escape, losing the focus and renders follows
  the opening of the field -- the blur that removing the field causes included -- the effect on the
  application is that of one \<open>commitRename\<close> with the text of the first of Enter, Escape and blur
  (empty for Escape, which then changes nothing), or of none.
\<close>

theorem rename_commits_once:
  assumes "row_name tg (workspaces h) = Some n"
  shows "tu_hub (run field_step (start_rename tg h) es)
      = committed tg (first_commit n es) h
    \<and> commitRename tg '''' h = h"
proof -
  let ?u = "start_rename tg h"
  have u: "tu_hub ?u = h" "tu_rename ?u = Some tg" "tu_field ?u = Some (tg, \<lparr>ri_value = n, ri_done = False\<rparr>)"
    using assms by (simp_all add: start_rename_def tree_render_def)
  have "tu_hub (run field_step ?u es)
      = committed tg (first_commit n es) (tu_hub ?u)"
    by (rule field_session) (use u assms in simp_all)
  then show ?thesis by (simp add: u(1) commitRename_def js_trim_def Let_def)
qed

theorem rename_commits_once_witness:
  "tasks (tu_hub (run field_step (start_rename (RenameWorkspace ''w'') demo_hub)
     [FieldChange ''home'', FieldEnter, FieldBlur, TreeRender, FieldBlur]))
   = tasks demo_hub @ [(2, RenameWsTask demo_ws ''home'')]"
proof -
  have n: "row_name (RenameWorkspace ''w'') (workspaces demo_hub) = Some ''work''"
    by (simp add: demo_ws_def)
  have "commitRename (RenameWorkspace ''w'') ''home'' demo_hub = start_task (RenameWsTask demo_ws ''home'') demo_hub"
    by (simp add: commitRename_def js_trim_def is_ws_def Let_def, simp add: demo_ws_def)
  moreover have "next_task demo_hub = 2" by (simp add: demo_hub_def)
  ultimately show ?thesis
    using rename_commits_once [OF n, of "[FieldChange ''home'', FieldEnter, FieldBlur, TreeRender, FieldBlur]"]
    by (simp del: run.simps)
qed

section \<open>Keys and clicks on a row\<close>

text \<open>Where in the row an event starts: the row with its label, one of the action buttons, the field.\<close>

datatype row_spot = OnRow | OnAction | OnField

text \<open>The handlers of the row the event bubbles to: whether they select or toggle the row, and
  whether they prevent the browser's own action.\<close>

fun row_onKeyDown :: "string \<Rightarrow> row_spot \<Rightarrow> bool \<times> bool" where
  "row_onKeyDown k OnField = (False, False)"
| "row_onKeyDown k spot = (if k = ''Enter'' \<or> k = '' '' then (True, True) else (False, False))"

fun row_onClick :: "row_spot \<Rightarrow> bool" where
  "row_onClick OnRow = True"
| "row_onClick OnAction = False"
| "row_onClick OnField = False"

text \<open>Enter on a focused button clicks it unless the key is prevented.\<close>

definition press_enter :: "row_spot \<Rightarrow> bool \<times> bool" where
  "press_enter spot =
     (let (handled, prevented) = row_onKeyDown ''Enter'' spot
      in (handled, spot = OnAction \<and> \<not> prevented))"

text \<open>With the mouse the buttons of a row act without touching the row; with Enter they never act,
  and the row is toggled or selected instead.\<close>

lemma actions_mouse_only: "\<not> row_onClick OnAction" "press_enter OnAction = (True, False)"
  by (simp_all add: press_enter_def)

section \<open>The sidebar and its menu\<close>

record sidebar_screen =
  sv_backdrop :: bool
  sv_inert :: bool
  sv_close :: bool
  sv_empty :: bool

definition sidebar_view :: "bool \<Rightarrow> bool \<Rightarrow> Workspace list \<Rightarrow> sidebar_screen" where
  "sidebar_view isMobile collapsed wss =
     \<lparr>sv_backdrop = (isMobile \<and> \<not> collapsed), sv_inert = (isMobile \<and> collapsed), sv_close = isMobile,
      sv_empty = (length wss = 0)\<rparr>"

record menu_state =
  settingsOpen :: bool
  statsOpen :: bool

definition menu_mount :: menu_state where
  "menu_mount = \<lparr>settingsOpen = False, statsOpen = False\<rparr>"

datatype menu_event = MenuButton | MenuPointerDown bool | MenuKey string | MenuStats | StatsClosed

definition toggle_menu :: "menu_state \<Rightarrow> menu_state" where
  "toggle_menu m = m\<lparr>settingsOpen := \<not> settingsOpen m\<rparr>"

text \<open>The two listeners are there while the menu is open.\<close>

definition onMenuPointerDown :: "bool \<Rightarrow> menu_state \<Rightarrow> menu_state" where
  "onMenuPointerDown inside m = (if settingsOpen m \<and> \<not> inside then m\<lparr>settingsOpen := False\<rparr> else m)"

definition onMenuKeyDown :: "string \<Rightarrow> menu_state \<Rightarrow> menu_state" where
  "onMenuKeyDown key m = (if settingsOpen m \<and> key = ''Escape'' then m\<lparr>settingsOpen := False\<rparr> else m)"

definition open_stats :: "menu_state \<Rightarrow> menu_state" where
  "open_stats m = (if settingsOpen m then m\<lparr>settingsOpen := False, statsOpen := True\<rparr> else m)"

fun menu_step :: "menu_state \<Rightarrow> menu_event \<Rightarrow> menu_state" where
  "menu_step m MenuButton = toggle_menu m"
| "menu_step m (MenuPointerDown inside) = onMenuPointerDown inside m"
| "menu_step m (MenuKey key) = onMenuKeyDown key m"
| "menu_step m MenuStats = open_stats m"
| "menu_step m StatsClosed = m\<lparr>statsOpen := False\<rparr>"

lemmas menu_defs = toggle_menu_def onMenuPointerDown_def onMenuKeyDown_def open_stats_def

text \<open>With the mouse the statistics are only reached through the open menu, which closes.\<close>

lemma stats_from_menu:
  "\<not> statsOpen m \<Longrightarrow> statsOpen (menu_step m e) \<Longrightarrow> settingsOpen m \<and> \<not> settingsOpen (menu_step m e)"
  by (cases e) (auto simp: menu_defs split: if_splits)

section \<open>Media queries\<close>

text \<open>\<open>mq_real\<close> is what the browser would answer; a change between the first render and the effect is
  not heard, which is why the effect asks again.\<close>

record media =
  mq_real :: bool
  mq_matches :: bool
  mq_listening :: bool

definition media_mount :: "bool \<Rightarrow> media" where
  "media_mount b = \<lparr>mq_real = b, mq_matches = b, mq_listening = False\<rparr>"

datatype media_event = MediaEffect | MediaChange bool | MediaUnmount

fun media_step :: "media \<Rightarrow> media_event \<Rightarrow> media" where
  "media_step m MediaEffect = m\<lparr>mq_matches := mq_real m, mq_listening := True\<rparr>"
| "media_step m (MediaChange b) = m\<lparr>mq_real := b, mq_matches := (if mq_listening m then b else mq_matches m)\<rparr>"
| "media_step m MediaUnmount = m\<lparr>mq_listening := False\<rparr>"

interpretation media_run: machine_inv media_step "\<lambda>m e. True" "\<lambda>m. mq_listening m \<longrightarrow> mq_matches m = mq_real m"
proof
  fix m :: media and e
  assume "mq_listening m \<longrightarrow> mq_matches m = mq_real m"
  then show "mq_listening (media_step m e) \<longrightarrow> mq_matches (media_step m e) = mq_real (media_step m e)"
    by (cases e) auto
qed

lemma media_follows: "mq_listening (run media_step (media_mount b) es) \<Longrightarrow>
    mq_matches (run media_step (media_mount b) es) = mq_real (run media_step (media_mount b) es)"
  using media_run.run_inv [of "media_mount b" es] by (simp add: run_ok_trivial media_mount_def)

section \<open>Copying the attach command\<close>

text \<open>As in a pane's header, but every failure has the same message.\<close>

definition tree_copyAttach ::
  "string reply \<Rightarrow> (string \<Rightarrow> unit reply) \<Rightarrow> string option \<times> (string \<times> ToastKind)" where
  "tree_copyAttach r writeText =
     (case r of
        Err m \<Rightarrow> (None, (''toast.copyFailed'', Error))
      | Got command \<Rightarrow>
          (case writeText command of
             Err m \<Rightarrow> (None, (''toast.copyFailed'', Error))
           | Got u \<Rightarrow> (Some command, (''toast.copied'', Success))))"

lemma copyAttach_same:
  "fst (tree_copyAttach r wr) = fst (copyAttach r wr)
   \<and> snd (snd (tree_copyAttach r wr)) = snd (snd (copyAttach r wr))"
  by (simp add: tree_copyAttach_def copyAttach_def split: reply.split)

end
