(* ===== verification/Modal.thy ===== *)
theory Modal
  imports Prelude
begin

text \<open>
  \<^verbatim>\<open>components/ModalDialog.tsx\<close>: the keyboard focus of an open dialog. The page is its tab stops in
  document order: those of the application, those of the panel (the close button first) and those
  behind the dialog's portal. The panel itself has tab index -1, so the mouse and \<open>focus()\<close> can focus
  it but Tab skips it; it stands before its controls.
\<close>

section \<open>The page and the browser's own Tab\<close>

datatype 'e focus = Body | OnPanel | On 'e

record 'e page =
  before_stops :: "'e list"
  close_button :: 'e
  panel_stops :: "'e list"       \<comment> \<open>the focusable children\<close>
  after_stops :: "'e list"

text \<open>\<open>panel.querySelectorAll(FOCUSABLE)\<close>.\<close>

definition focusables :: "'e page \<Rightarrow> 'e list" where
  "focusables p = close_button p # panel_stops p"

definition tab_order :: "'e page \<Rightarrow> 'e list" where
  "tab_order p = before_stops p @ focusables p @ after_stops p"

definition page_wf :: "'e page \<Rightarrow> bool" where
  "page_wf p = distinct (tab_order p)"

fun stop_after :: "'e list \<Rightarrow> 'e \<Rightarrow> 'e focus" where
  "stop_after (x # y # zs) a = (if a = x then On y else stop_after (y # zs) a)"
| "stop_after _ a = Body"

definition head_stop :: "'e list \<Rightarrow> 'e focus" where
  "head_stop xs = (case xs of [] \<Rightarrow> Body | x # _ \<Rightarrow> On x)"

text \<open>What Tab (or Shift+Tab) does when no handler prevents it. \<open>Body\<close> also stands for the
  controls of the browser itself.\<close>

definition browser_tab :: "bool \<Rightarrow> 'e page \<Rightarrow> 'e focus \<Rightarrow> 'e focus" where
  "browser_tab shift p a =
     (case a of
        On x \<Rightarrow> (if shift then stop_after (rev (tab_order p)) x else stop_after (tab_order p) x)
      | OnPanel \<Rightarrow> (if shift then head_stop (rev (before_stops p)) else head_stop (focusables p @ after_stops p))
      | Body \<Rightarrow> (if shift then head_stop (rev (tab_order p)) else head_stop (tab_order p)))"

text \<open>An element can be focused while it is on the page.\<close>

definition on_page :: "'e page \<Rightarrow> 'e focus \<Rightarrow> bool" where
  "on_page p a = (case a of On x \<Rightarrow> x \<in> set (tab_order p) | _ \<Rightarrow> True)"

section \<open>The dialog\<close>

record 'e modal =
  mo_open :: bool
  mo_active :: "'e focus"             \<comment> \<open>\<open>document.activeElement\<close>\<close>
  mo_restore :: "'e focus option"     \<comment> \<open>\<open>restoreRef\<close>\<close>
  mo_locked :: bool                   \<comment> \<open>\<open>document.body.style.overflow\<close> is hidden\<close>
  mo_page :: "'e page"
  mo_closes :: nat                    \<comment> \<open>calls of \<open>onClose\<close>\<close>

definition panel_contains :: "'e page \<Rightarrow> 'e focus \<Rightarrow> bool" where
  "panel_contains p a = (case a of OnPanel \<Rightarrow> True | On x \<Rightarrow> x \<in> set (focusables p) | Body \<Rightarrow> False)"

definition first_focus :: "'e list \<Rightarrow> 'e focus" where
  "first_focus items = (if items \<noteq> [] then On (hd items) else OnPanel)"

definition open_effect :: "'e modal \<Rightarrow> 'e modal" where
  "open_effect m =
     m\<lparr>mo_open := True, mo_restore := Some (mo_active m), mo_locked := True,
       mo_active := first_focus (focusables (mo_page m))\<rparr>"

text \<open>\<open>focus()\<close> on an element that is gone, or on the body, does nothing.\<close>

definition focus_call :: "'e focus \<Rightarrow> 'e modal \<Rightarrow> 'e modal" where
  "focus_call a m = (if a \<noteq> Body \<and> on_page (mo_page m) a then m\<lparr>mo_active := a\<rparr> else m)"

text \<open>The cleanup runs when the panel has left the page: a focus inside it is lost to the body.\<close>

definition close_effect :: "'e modal \<Rightarrow> 'e modal" where
  "close_effect m =
     (let m1 = m\<lparr>mo_open := False, mo_locked := False,
                 mo_active := (if panel_contains (mo_page m) (mo_active m) then Body else mo_active m)\<rparr>
      in case mo_restore m of None \<Rightarrow> m1 | Some a \<Rightarrow> focus_call a m1)"

text \<open>What the key handler does with Tab: \<open>Some\<close> of the element it focuses, or \<open>None\<close> when it leaves
  the key to the browser.\<close>

definition trap :: "bool \<Rightarrow> 'e page \<Rightarrow> 'e list \<Rightarrow> 'e focus \<Rightarrow> 'e focus option" where
  "trap shift p items active =
     (if length items = 0 then Some OnPanel
      else if shift
           then if active = On (hd items) \<or> \<not> panel_contains p active then Some (On (last items)) else None
           else if active = On (last items) \<or> \<not> panel_contains p active then Some (On (hd items)) else None)"

datatype modal_key = Escape | Tab bool | OtherKey

fun modal_onKeyDown :: "modal_key \<Rightarrow> 'e modal \<Rightarrow> 'e modal" where
  "modal_onKeyDown Escape m = m\<lparr>mo_closes := Suc (mo_closes m)\<rparr>"
| "modal_onKeyDown (Tab shift) m =
     m\<lparr>mo_active := (case trap shift (mo_page m) (focusables (mo_page m)) (mo_active m) of
                       Some a \<Rightarrow> a | None \<Rightarrow> browser_tab shift (mo_page m) (mo_active m))\<rparr>"
| "modal_onKeyDown OtherKey m = m"

datatype 'e modal_event =
    SetOpen bool
  | Key modal_key
  | Rerender "'e page"           \<comment> \<open>the page changes, the dialog's content included\<close>
  | PressPanel "'e focus"        \<comment> \<open>the mouse focuses the panel or a control of it\<close>
  | PressOverlay | PressClose

fun modal_step :: "'e modal \<Rightarrow> 'e modal_event \<Rightarrow> 'e modal" where
  "modal_step m (SetOpen b) =
     (if b = mo_open m then m else if b then open_effect m else close_effect m)"
| "modal_step m (Key k) = (if mo_open m then modal_onKeyDown k m else m)"
| "modal_step m (Rerender p) =
     m\<lparr>mo_page := p, mo_active := (if on_page p (mo_active m) then mo_active m else Body)\<rparr>"
| "modal_step m (PressPanel a) =
     (if mo_open m \<and> panel_contains (mo_page m) a then m\<lparr>mo_active := a\<rparr> else m)"
| "modal_step m PressOverlay = (if mo_open m then m\<lparr>mo_closes := Suc (mo_closes m)\<rparr> else m)"
| "modal_step m PressClose = (if mo_open m then m\<lparr>mo_closes := Suc (mo_closes m)\<rparr> else m)"

definition modal_mount :: "'e page \<Rightarrow> 'e focus \<Rightarrow> 'e modal" where
  "modal_mount p a =
     \<lparr>mo_open = False, mo_active = a, mo_restore = None, mo_locked = False, mo_page = p, mo_closes = 0\<rparr>"

section \<open>Tab stays in the panel\<close>

lemma focusables_ne [simp]: "focusables p \<noteq> []"
  by (simp add: focusables_def)

lemma stop_after_mid:
  "x \<notin> set as \<Longrightarrow> stop_after (as @ x # y # bs) x = On y"
  by (induction as rule: induct_list012) auto

lemma stop_after_within:
  assumes "distinct (as @ xs @ bs)" and "x \<in> set xs" and "x \<noteq> last xs"
  shows "\<exists>y \<in> set xs. stop_after (as @ xs @ bs) x = On y"
proof -
  obtain us vs where xs: "xs = us @ x # vs" using split_list [OF assms(2)] by blast
  then obtain y ws where vs: "vs = y # ws" using assms(3) by (cases vs) auto
  have "stop_after ((as @ us) @ x # y # (ws @ bs)) x = On y"
    by (rule stop_after_mid) (use assms(1) xs in auto)
  then show ?thesis using xs vs by auto
qed

lemma tab_inner:
  assumes "page_wf p" and "x \<in> set (focusables p)" and "x \<noteq> (if shift then hd else last) (focusables p)"
  shows "panel_contains p (browser_tab shift p (On x))"
proof (cases shift)
  case True
  have "distinct (rev (after_stops p) @ rev (focusables p) @ rev (before_stops p))"
    using assms(1) by (auto simp: page_wf_def tab_order_def)
  moreover have "x \<in> set (rev (focusables p))" "x \<noteq> last (rev (focusables p))"
    using assms(2,3) True by (simp_all add: last_rev)
  ultimately obtain y where "y \<in> set (rev (focusables p))"
      "stop_after (rev (after_stops p) @ rev (focusables p) @ rev (before_stops p)) x = On y"
    by (metis stop_after_within)
  then show ?thesis using True by (simp add: browser_tab_def panel_contains_def tab_order_def)
next
  case False
  then obtain y where "y \<in> set (focusables p)" "stop_after (tab_order p) x = On y"
    using stop_after_within [of "before_stops p" "focusables p" "after_stops p" x] assms
    by (auto simp: page_wf_def tab_order_def)
  then show ?thesis using False by (simp add: browser_tab_def panel_contains_def)
qed

lemma panel_cases:
  obtains "a = OnPanel" | x where "a = On x" "x \<in> set (focusables p)" | "\<not> panel_contains p a"
  by (cases a) (auto simp: panel_contains_def)

lemma panel_focus [simp]:
  "panel_contains p OnPanel" "panel_contains p (On x) = (x \<in> set (focusables p))" "\<not> panel_contains p Body"
  by (simp_all add: panel_contains_def)

lemma shift_tab_leaves: "page_wf p \<Longrightarrow> \<not> panel_contains p (head_stop (rev (before_stops p)))"
  by (cases "rev (before_stops p)")
    (auto simp: head_stop_def page_wf_def tab_order_def focusables_def rev_eq_Cons_iff)

text \<open>
  The focus trap of a dialog holds, but for one gap: while the dialog is open, Tab and Shift+Tab
  put the focus on a control of the panel or on the panel, wherever the focus was before --
  a control of the page behind included -- except that Shift+Tab leaves the panel when the panel
  itself has the focus, which a click on its background gives it.
\<close>

theorem focus_trap:
  assumes "mo_open m" and "page_wf (mo_page m)"
  shows "panel_contains (mo_page m) (mo_active (modal_step m (Key (Tab shift))))
           = (\<not> (shift \<and> mo_active m = OnPanel))"
proof (cases rule: panel_cases [where a = "mo_active m" and p = "mo_page m"])
  case 1
  then show ?thesis using assms shift_tab_leaves [OF assms(2)]
    by (simp add: trap_def browser_tab_def head_stop_def focusables_def)
next
  case (2 x)
  then show ?thesis using assms tab_inner [OF assms(2) 2(2), of shift]
    by (cases shift) (auto simp: trap_def)
next
  case 3
  then have "mo_active m \<noteq> OnPanel" by auto
  with 3 show ?thesis using assms(1) by (simp add: trap_def)
qed

definition demo_page :: "nat page" where
  "demo_page = \<lparr>before_stops = [0, 1], close_button = 2, panel_stops = [3, 4], after_stops = [5]\<rparr>"

theorem focus_trap_witness:
  "let m = modal_step (modal_mount demo_page (On 1)) (SetOpen True) in
     panel_contains demo_page (mo_active (modal_step m (Key (Tab True))))
     \<and> mo_active (modal_step (modal_step m (PressPanel OnPanel)) (Key (Tab True))) = On 1"
proof -
  let ?m = "modal_step (modal_mount demo_page (On 1)) (SetOpen True)"
  note d = modal_mount_def demo_page_def open_effect_def first_focus_def focusables_def
  have "panel_contains (mo_page ?m) (mo_active (modal_step ?m (Key (Tab True)))) = (\<not> (True \<and> mo_active ?m = OnPanel))"
    by (rule focus_trap) (simp_all add: d page_wf_def tab_order_def)
  then show ?thesis
    by (simp add: Let_def d trap_def browser_tab_def head_stop_def)
qed

section \<open>The focus comes back\<close>

lemma modal_key_keeps:
  "mo_open (modal_onKeyDown k m) = mo_open m" "mo_locked (modal_onKeyDown k m) = mo_locked m"
  "mo_restore (modal_onKeyDown k m) = mo_restore m"
  by (cases k; simp)+

text \<open>While the dialog is open the page behind it is locked and the element to return to is kept.\<close>

definition open_inv :: "'e focus \<Rightarrow> 'e modal \<Rightarrow> bool" where
  "open_inv a m = (mo_open m \<and> mo_locked m \<and> mo_restore m = Some a)"

interpretation open_run: machine_inv modal_step "\<lambda>m e. e \<noteq> SetOpen False" "open_inv a"
proof
  fix m :: "'a modal" and e :: "'a modal_event"
  assume "open_inv a m" "e \<noteq> SetOpen False"
  then show "open_inv a (modal_step m e)"
    by (cases e rule: modal_event.exhaust; auto simp: open_inv_def modal_key_keeps)
qed

text \<open>
  Closing a dialog gives the page back: the scroll lock is released, and the focus is on the element
  that had it when the dialog opened if it is still on the page, whatever keys were pressed and
  however the page changed meanwhile.
\<close>

theorem dialog_restores_focus:
  assumes "\<not> mo_open m" and "mo_active m = On x"
    and "run_ok modal_step (\<lambda>m e. e \<noteq> SetOpen False) (modal_step m (SetOpen True)) es"
  shows "let m1 = run modal_step (modal_step m (SetOpen True)) es; m2 = modal_step m1 (SetOpen False) in
     mo_locked m1 \<and> mo_open m1 \<and> \<not> mo_locked m2 \<and> \<not> mo_open m2
     \<and> (if x \<in> set (tab_order (mo_page m1)) then mo_active m2 = On x else True)"
proof -
  have "open_inv (On x) (modal_step m (SetOpen True))"
    using assms(1,2) by (simp add: open_inv_def open_effect_def)
  then have "open_inv (On x) (run modal_step (modal_step m (SetOpen True)) es)"
    by (rule open_run.run_inv) (rule assms(3))
  then show ?thesis
    by (auto simp: Let_def open_inv_def close_effect_def focus_call_def on_page_def)
qed

theorem dialog_restores_focus_witness:
  "mo_active (modal_step (run modal_step (modal_step (modal_mount demo_page (On 1)) (SetOpen True))
     [Key (Tab False), Key Escape]) (SetOpen False)) = On 1"
  using dialog_restores_focus [of "modal_mount demo_page (On 1)" 1 "[Key (Tab False), Key Escape]"]
  by (simp add: Let_def modal_mount_def open_effect_def demo_page_def tab_order_def focusables_def)

end
