(* ===== verification/Login.thy ===== *)
theory Login
  imports Prelude
begin

text \<open>
  \<^verbatim>\<open>features/auth/LoginPage.tsx\<close>: the login form, and the choice of \<^verbatim>\<open>App.tsx\<close> between it and the
  application. The answer of \<open>login\<close> is an event; \<open>lg_sent\<close> and \<open>lg_entered\<close> log the requests and
  the calls of \<open>onLogin\<close>.
\<close>

record login_state =
  lg_password :: string
  lg_busy :: bool
  lg_failed :: bool
  lg_sent :: "string list"
  lg_waiting :: nat
  lg_entered :: nat

definition login_mount :: login_state where
  "login_mount = \<lparr>lg_password = '''', lg_busy = False, lg_failed = False, lg_sent = [], lg_waiting = 0, lg_entered = 0\<rparr>"

text \<open>\<open>submit\<close> up to its await, and after it.\<close>

definition submit :: "login_state \<Rightarrow> login_state" where
  "submit l =
     (if lg_busy l \<or> length (lg_password l) = 0 then l
      else l\<lparr>lg_busy := True, lg_failed := False, lg_sent := lg_sent l @ [lg_password l],
             lg_waiting := Suc (lg_waiting l)\<rparr>)"

definition login_answer :: "bool \<Rightarrow> login_state \<Rightarrow> login_state" where
  "login_answer ok l =
     (if lg_waiting l = 0 then l
      else let l1 = l\<lparr>lg_waiting := lg_waiting l - 1\<rparr>
           in if ok then l1\<lparr>lg_entered := Suc (lg_entered l)\<rparr>
              else l1\<lparr>lg_failed := True, lg_busy := False\<rparr>)"

datatype login_event = TypePassword string | Submit | LoginAnswer bool

fun login_step :: "login_state \<Rightarrow> login_event \<Rightarrow> login_state" where
  "login_step l (TypePassword s) = l\<lparr>lg_password := s\<rparr>"
| "login_step l Submit = submit l"
| "login_step l (LoginAnswer ok) = login_answer ok l"

text \<open>The submit button: enabled or not, and its label. The error line is \<open>lg_failed\<close>.\<close>

definition submit_button :: "login_state \<Rightarrow> bool \<times> string" where
  "submit_button l =
     (\<not> (lg_busy l \<or> length (lg_password l) = 0), if lg_busy l then ''login.submitting'' else ''login.submit'')"

definition login_inv :: "login_state \<Rightarrow> bool" where
  "login_inv l =
     (lg_waiting l + lg_entered l = (if lg_busy l then 1 else 0)
      \<and> (lg_failed l \<longrightarrow> \<not> lg_busy l)
      \<and> (lg_sent l \<noteq> []) = (lg_busy l \<or> lg_failed l)
      \<and> [] \<notin> set (lg_sent l))"

interpretation login_run: machine_inv login_step "\<lambda>l e. True" login_inv
proof
  fix l e
  assume "login_inv l"
  then show "login_inv (login_step l e)"
    by (cases e) (auto simp: login_inv_def submit_def login_answer_def Let_def split: if_splits)
qed

text \<open>
  However often the form is submitted, at most one login request is on its way and
  \<open>onLogin\<close> is called at most once, after which nothing more is sent; no empty password is
  sent; and once something was sent the form either waits, shows the error, or has logged in.
\<close>

theorem login_once:
  "let l = run login_step login_mount es in
     lg_waiting l + lg_entered l \<le> 1
     \<and> (if 0 < lg_entered l then lg_sent (login_step l e) = lg_sent l else True)
     \<and> [] \<notin> set (lg_sent l)
     \<and> lg_failed l = (lg_sent l \<noteq> [] \<and> lg_waiting l + lg_entered l = 0)"
proof -
  have "login_inv login_mount" by (simp add: login_inv_def login_mount_def)
  then have "login_inv (run login_step login_mount es)"
    by (rule login_run.run_inv) (simp add: run_ok_trivial)
  then show ?thesis
    by (cases e) (auto simp: login_inv_def submit_def login_answer_def Let_def split: if_splits)
qed

section \<open>The page that is shown\<close>

datatype shown_page = Blank | LoginPage | AppPage

definition app_page :: "bool option \<Rightarrow> shown_page" where
  "app_page authed = (case authed of None \<Rightarrow> Blank | Some False \<Rightarrow> LoginPage | Some True \<Rightarrow> AppPage)"

end
