(* ===== verification/Stats.thy ===== *)
theory Stats
  imports Format
begin

text \<open>
  \<^verbatim>\<open>features/system/SystemStatsModal.tsx\<close>: the dialog that polls the statistics while it is open. A
  run of its effect is a number; \<open>st_live\<close> is the run that is not cancelled, and \<open>st_busy\<close> the
  \<open>inFlight\<close> flags of the runs, kept by the closures of old runs too. \<open>st_seen\<close> logs the
  answers that passed the \<open>cancelled\<close> test.
\<close>

record SystemStats =
  cpuPercent :: rat
  memTotalBytes :: nat
  memUsedBytes :: nat
  memPercent :: rat
  numGoroutine :: nat
  goHeapAllocBytes :: nat
  uptimeSeconds :: rat
  stats_os :: string
  stats_arch :: string
  numCpu :: nat

definition REFRESH_MS :: nat where
  "REFRESH_MS = 2000"

type_synonym stats_reply = "SystemStats + string option"    \<comment> \<open>the message of the \<open>Error\<close>, if it is one\<close>

record stats_state =
  st_stats :: "SystemStats option"
  st_error :: string
  st_live :: "nat option"
  st_runs :: nat
  st_busy :: "nat set"
  st_flights :: "(nat \<times> nat) list"      \<comment> \<open>request and run\<close>
  st_asked :: nat
  st_seen :: "stats_reply list"

definition stats_mount :: stats_state where
  "stats_mount =
     \<lparr>st_stats = None, st_error = '''', st_live = None, st_runs = 0, st_busy = {}, st_flights = [],
      st_asked = 0, st_seen = []\<rparr>"

definition fetchStats :: "nat \<Rightarrow> stats_state \<Rightarrow> stats_state" where
  "fetchStats r s =
     (if r \<in> st_busy s then s
      else s\<lparr>st_busy := insert r (st_busy s), st_flights := st_flights s @ [(st_asked s, r)],
             st_asked := Suc (st_asked s)\<rparr>)"

text \<open>The cleanup of the last run, then the effect for the new \<open>open\<close> or the new language.\<close>

definition stats_effect :: "bool \<Rightarrow> stats_state \<Rightarrow> stats_state" where
  "stats_effect isOpen s =
     (if isOpen then fetchStats (st_runs s) (s\<lparr>st_live := Some (st_runs s), st_runs := Suc (st_runs s)\<rparr>)
      else s\<lparr>st_live := None\<rparr>)"

text \<open>The interval of the live run fires; the others are cleared.\<close>

definition stats_tick :: "stats_state \<Rightarrow> stats_state" where
  "stats_tick s = (case st_live s of None \<Rightarrow> s | Some r \<Rightarrow> fetchStats r s)"

definition show_reply :: "stats_reply \<Rightarrow> stats_state \<Rightarrow> stats_state" where
  "show_reply res s =
     (case res of
        Inl x \<Rightarrow> s\<lparr>st_stats := Some x, st_error := '''', st_seen := st_seen s @ [res]\<rparr>
      | Inr e \<Rightarrow> s\<lparr>st_error := or_else e ''stats.error'', st_seen := st_seen s @ [res]\<rparr>)"

definition stats_answer :: "nat \<Rightarrow> stats_reply \<Rightarrow> stats_state \<Rightarrow> stats_state" where
  "stats_answer k res s =
     (case map_of (st_flights s) k of
        None \<Rightarrow> s
      | Some r \<Rightarrow>
          (let s1 = (if st_live s = Some r then show_reply res s else s)
           in s1\<lparr>st_busy := st_busy s - {r}, st_flights := filter (\<lambda>f. fst f \<noteq> k) (st_flights s)\<rparr>))"

datatype stats_event = StatsOpen bool | StatsLanguage | StatsTick | StatsAnswer nat stats_reply

fun stats_step :: "stats_state \<Rightarrow> stats_event \<Rightarrow> stats_state" where
  "stats_step s (StatsOpen b) = (if b = (st_live s \<noteq> None) then s else stats_effect b s)"
| "stats_step s StatsLanguage = (if st_live s \<noteq> None then stats_effect True s else s)"
| "stats_step s StatsTick = stats_tick s"
| "stats_step s (StatsAnswer k res) = stats_answer k res s"

section \<open>What the dialog shows\<close>

definition stats_rows :: "SystemStats \<Rightarrow> (string \<times> string) list" where
  "stats_rows x =
     [(''stats.cpu'', toFixed 1 (cpuPercent x) @ ''%''),
      (''stats.mem'', formatBytes (memUsedBytes x) @ '' / '' @ formatBytes (memTotalBytes x)
         @ '' ('' @ toFixed 1 (memPercent x) @ ''%)''),
      (''stats.goroutines'', nat_str 10 (numGoroutine x)),
      (''stats.heap'', formatBytes (goHeapAllocBytes x)),
      (''stats.uptime'', formatUptime (uptimeSeconds x)),
      (''stats.platform'', stats_os x @ '' / '' @ stats_arch x),
      (''stats.cores'', nat_str 10 (numCpu x))]"

datatype stats_screen = StatsError string | StatsLoading | StatsGrid "(string \<times> string) list"

definition stats_view :: "stats_state \<Rightarrow> stats_screen" where
  "stats_view s =
     (if length (st_error s) > 0 then StatsError (st_error s)
      else case st_stats s of None \<Rightarrow> StatsLoading | Some x \<Rightarrow> StatsGrid (stats_rows x))"

text \<open>The view the log of answers calls for.\<close>

fun expected_view :: "stats_reply list \<Rightarrow> stats_screen" where
  "expected_view seen =
     (case rev seen of
        [] \<Rightarrow> StatsLoading
      | Inl x # _ \<Rightarrow> StatsGrid (stats_rows x)
      | Inr e # _ \<Rightarrow> StatsError (or_else e ''stats.error''))"

text \<open>The requests on their way are those of the runs whose flag is set, one each.\<close>

definition stats_inv :: "stats_state \<Rightarrow> bool" where
  "stats_inv s =
     (distinct (map snd (st_flights s)) \<and> distinct (map fst (st_flights s))
      \<and> st_busy s = snd ` set (st_flights s)
      \<and> (\<forall>k r. (k, r) \<in> set (st_flights s) \<longrightarrow> k < st_asked s \<and> r < st_runs s)
      \<and> (\<forall>r. st_live s = Some r \<longrightarrow> r < st_runs s))"

lemma fetch_inv: "stats_inv s \<Longrightarrow> r < st_runs s \<Longrightarrow> stats_inv (fetchStats r s)"
  by (force simp: stats_inv_def fetchStats_def)

lemma busy_without:
  assumes "distinct (map snd fs)" "map_of fs k = Some (r :: nat)" "distinct (map fst fs)"
  shows "snd ` set fs - {r} = snd ` {f \<in> set fs. fst f \<noteq> (k :: nat)}"
proof -
  have kr: "(k, r) \<in> set fs" using assms(2) by (rule map_of_SomeD)
  have "(snd f = r) = (fst f = k)" if "f \<in> set fs" for f
    using that kr assms(1,3) by (metis (no_types) distinct_map inj_on_eq_iff fst_conv snd_conv)
  then show ?thesis by blast
qed

lemma show_reply_fields [simp]:
  "st_live (show_reply res s) = st_live s" "st_runs (show_reply res s) = st_runs s"
  "st_asked (show_reply res s) = st_asked s" "st_seen (show_reply res s) = st_seen s @ [res]"
  by (simp_all add: show_reply_def split: sum.split)

lemma answer_inv: "stats_inv s \<Longrightarrow> stats_inv (stats_answer k res s)"
  by (auto simp: stats_inv_def stats_answer_def Let_def distinct_map_filter busy_without
      split: option.split)

lemma effect_inv:
  assumes "stats_inv s"
  shows "stats_inv (stats_effect b s)"
proof -
  let ?s = "s\<lparr>st_live := Some (st_runs s), st_runs := Suc (st_runs s)\<rparr>"
  have "stats_inv ?s" using assms unfolding stats_inv_def by (auto intro: less_SucI)
  then have "stats_inv (fetchStats (st_runs s) ?s)" by (rule fetch_inv) simp
  moreover have "stats_inv (s\<lparr>st_live := None\<rparr>)" using assms by (simp add: stats_inv_def)
  ultimately show ?thesis by (simp add: stats_effect_def)
qed

lemma tick_inv: "stats_inv s \<Longrightarrow> stats_inv (stats_tick s)"
  using fetch_inv [of s] by (cases "st_live s") (simp_all add: stats_tick_def stats_inv_def)

interpretation stats_run: machine_inv stats_step "\<lambda>s e. True" stats_inv
proof
  fix s e
  assume "stats_inv s"
  then show "stats_inv (stats_step s e)"
    by (cases e) (simp_all add: answer_inv effect_inv tick_inv)
qed

text \<open>What is shown follows from the answers that were let through.\<close>

fun seen_state :: "SystemStats option \<times> string \<Rightarrow> stats_reply \<Rightarrow> SystemStats option \<times> string" where
  "seen_state (x, e) (Inl y) = (Some y, '''')"
| "seen_state (x, e) (Inr m) = (x, or_else m ''stats.error'')"

definition shown_inv :: "stats_state \<Rightarrow> bool" where
  "shown_inv s = ((st_stats s, st_error s) = foldl seen_state (None, '''') (st_seen s))"

lemma shown_reply: "shown_inv s \<Longrightarrow> shown_inv (show_reply res s)"
  by (cases res; cases "foldl seen_state (None, '''') (st_seen s)") (auto simp: shown_inv_def show_reply_def)

lemma shown_fetch [simp]: "shown_inv (fetchStats r s) = shown_inv s"
  by (simp add: shown_inv_def fetchStats_def)

lemma shown_effect: "shown_inv (stats_effect b s) = shown_inv s" "shown_inv (stats_tick s) = shown_inv s"
  by (simp_all add: stats_effect_def stats_tick_def shown_inv_def fetchStats_def split: option.split)

lemma shown_answer: "shown_inv s \<Longrightarrow> shown_inv (stats_answer k res s)"
  using shown_reply [of s res] by (auto simp: stats_answer_def Let_def shown_inv_def split: option.split)

interpretation shown_run: machine_inv stats_step "\<lambda>s e. True" shown_inv
proof
  fix s e
  assume "shown_inv s"
  then show "shown_inv (stats_step s e)"
    by (cases e) (simp_all add: shown_effect shown_answer)
qed

lemma last_view:
  assumes "list_all (\<lambda>res. res \<noteq> Inr (Some '''')) seen"
    and "(x, e) = foldl seen_state (None, '''') seen"
  shows "(if length e > 0 then StatsError e else case x of None \<Rightarrow> StatsLoading | Some x \<Rightarrow> StatsGrid (stats_rows x))
    = expected_view seen"
proof (cases seen rule: rev_cases)
  case (snoc ys res)
  obtain x1 e1 where f: "foldl seen_state (None, '''') ys = (x1, e1)" by (cases "foldl seen_state (None, '''') ys")
  show ?thesis
  proof (cases res)
    case (Inr m)
    then have "or_else m ''stats.error'' \<noteq> ''''" using assms(1) snoc by (cases m) auto
    then show ?thesis using assms(2) snoc f Inr by simp
  qed (use assms(2) snoc f in simp)
qed (use assms(2) in simp)

text \<open>
  However the dialog is opened, closed and reopened, the language switched and the timer fires: a
  run of the effect has at most one request on its way, so a slow server is not asked again before it
  answered; a closed dialog sends nothing; and what is shown is what the last answer
  let through calls for -- its rows, or its error (whose message is not empty).
\<close>

theorem stats_polling:
  assumes "list_all (\<lambda>e. case e of StatsAnswer k res \<Rightarrow> res \<noteq> Inr (Some '''') | _ \<Rightarrow> True) es"
  shows "let s = run stats_step stats_mount es in
     distinct (map snd (st_flights s))
     \<and> (if st_live s = None then stats_step s StatsTick = s else True)
     \<and> (case st_live s of None \<Rightarrow> True | Some r \<Rightarrow>
          st_asked (stats_step s StatsTick) = (if r \<in> snd ` set (st_flights s) then st_asked s else Suc (st_asked s)))
     \<and> stats_view s = expected_view (st_seen s)"
proof -
  let ?s = "run stats_step stats_mount es"
  have i: "stats_inv ?s"
    by (rule stats_run.run_inv) (simp_all add: run_ok_trivial stats_inv_def stats_mount_def)
  have v: "shown_inv ?s"
    by (rule shown_run.run_inv) (simp_all add: run_ok_trivial shown_inv_def stats_mount_def)
  have seen: "list_all (\<lambda>res. res \<noteq> Inr (Some '''')) (st_seen s)
      \<Longrightarrow> list_all (\<lambda>e. case e of StatsAnswer k res \<Rightarrow> res \<noteq> Inr (Some '''') | _ \<Rightarrow> True) es
      \<Longrightarrow> list_all (\<lambda>res. res \<noteq> Inr (Some '''')) (st_seen (run stats_step s es))" for s es
  proof (induction es arbitrary: s)
    case (Cons e es)
    have "list_all (\<lambda>res. res \<noteq> Inr (Some '''')) (st_seen (stats_step s e))"
      using Cons.prems by (cases e) (auto simp: stats_effect_def stats_tick_def fetchStats_def stats_answer_def Let_def split: option.split)
    then show ?case using Cons by simp
  qed simp
  have "stats_view ?s = expected_view (st_seen ?s)"
    unfolding stats_view_def
    by (rule last_view) (use seen [OF _ assms, of stats_mount] v in \<open>simp_all add: shown_inv_def stats_mount_def\<close>)
  then show ?thesis
    using i by (auto simp: Let_def stats_inv_def stats_tick_def fetchStats_def split: option.split)
qed

definition demo_stats :: SystemStats where
  "demo_stats = \<lparr>cpuPercent = 5 / 2, memTotalBytes = 2048, memUsedBytes = 1024, memPercent = 50, numGoroutine = 9,
     goHeapAllocBytes = 100, uptimeSeconds = 61, stats_os = ''linux'', stats_arch = ''amd64'', numCpu = 4\<rparr>"

theorem stats_polling_witness:
  "stats_view (run stats_step stats_mount
     [StatsOpen True, StatsTick, StatsOpen False, StatsOpen True, StatsAnswer 0 (Inr None), StatsAnswer 1 (Inl demo_stats)])
   = StatsGrid (stats_rows demo_stats)"
  using stats_polling [of "[StatsOpen True, StatsTick, StatsOpen False, StatsOpen True, StatsAnswer 0 (Inr None), StatsAnswer 1 (Inl demo_stats)]"]
  by (simp add: Let_def stats_mount_def stats_effect_def fetchStats_def stats_tick_def stats_answer_def show_reply_def)

end
