(* ===== verification/Page.thy ===== *)
theory Page
  imports Panes
begin

text \<open>
  The page as a whole: the application (\<open>Hub\<close>) beside the family of its terminals (\<open>TerminalHook\<close>), one
  instance of \<^verbatim>\<open>useTerminal\<close> for every \<^verbatim>\<open>TerminalPane\<close> that was ever mounted. What is
  mounted is decided by the elements \<^verbatim>\<open>App.tsx\<close> and \<^verbatim>\<open>SplitView.tsx\<close> return; React is part of the
  environment: it removes and creates instances by events of their own, at any later time, in
  the order it documents (\<open>page_ok\<close>): cleanups of what has left the screen before the
  effects of what is new, one instance per element.
\<close>

section \<open>What is mounted\<close>

text \<open>React keeps an instance as long as an element of the same component is at the same place of the
  tree with the same key. The place of a pane is the path of \<^verbatim>\<open>SplitNodeView\<close> children that leads to
  it (\<open>False\<close>: \<^verbatim>\<open>first\<close>), because \<^verbatim>\<open>SplitView\<close> returns another component for a split than for a
  leaf; the narrow page has one place of its own. The key is the terminal's id. The effect of \<^verbatim>\<open>useTerminal\<close>
  depends on the workspace id too, so a change of it makes a new connection.\<close>

datatype mount_point = InSplit "bool list" | InMain

type_synonym term_mount = "mount_point \<times> string \<times> string"  \<comment> \<open>place, \<^verbatim>\<open>wsId\<close>, \<^verbatim>\<open>tmId\<close>\<close>

abbreviation mount_ws :: "term_mount \<Rightarrow> string" where "mount_ws m \<equiv> fst (snd m)"
abbreviation mount_tm :: "term_mount \<Rightarrow> string" where "mount_tm m \<equiv> snd (snd m)"

fun pane_mount :: "mount_point \<Rightarrow> pane_view \<Rightarrow> (term_mount \<times> bool) list" where
  "pane_mount q (TerminalView i r focused) = [((q, sr_wsId r, sr_tmId r), focused)]"
| "pane_mount q (PickerView i) = []"

fun view_mounts :: "bool list \<Rightarrow> view \<Rightarrow> (term_mount \<times> bool) list" where
  "view_mounts q (PaneBox p) = pane_mount (InSplit q) p"
| "view_mounts q (SplitBox i d r1 r2 a b) = view_mounts (q @ [False]) a @ view_mounts (q @ [True]) b"

fun main_mounts :: "main_region \<Rightarrow> (term_mount \<times> bool) list" where
  "main_mounts (SplitMain v) = view_mounts [] v"
| "main_mounts (SingleMain r) = [((InMain, sr_wsId r, sr_tmId r), True)]"
| "main_mounts EmptyMain = []"

text \<open>The elements of the page: nothing before the check of the session and on the login page.\<close>

definition page_mounts :: "bool \<Rightarrow> hub \<Rightarrow> (term_mount \<times> bool) list" where
  "page_mounts splitEnabled h = (if ls_authed (lay h) then main_mounts (main_view splitEnabled h) else [])"

section \<open>State and events\<close>

record term_inst =
  ti_mount :: term_mount
  ti_hook :: hook_state

record page =
  pg_hub :: hub
  pg_wide :: bool
  pg_terms :: "term_inst list"     \<comment> \<open>every instance since the page was opened\<close>

definition page_init :: "id_world \<Rightarrow> json option \<Rightarrow> bool \<Rightarrow> bool \<Rightarrow> page" where
  "page_init w srv mobile wide = \<lparr>pg_hub = hub_init w srv mobile, pg_wide = wide, pg_terms = []\<rparr>"

datatype page_event =
    PageHub hub_event
  | WidthChanged bool                       \<comment> \<open>the media query of the split view\<close>
  | CleanUp nat                             \<comment> \<open>React removes an instance\<close>
  | SetUp term_mount bool "jsnum \<times> jsnum" string jsnum fit_env  \<comment> \<open>React creates one\<close>
  | InPane nat hook_event

definition mount_cfg :: "bool \<Rightarrow> string \<Rightarrow> term_mount \<Rightarrow> ws_config" where
  "mount_cfg secure hst m = hook_cfg secure hst (mount_ws m) (mount_tm m)"

definition inst_step :: "bool \<Rightarrow> string \<Rightarrow> hook_event \<Rightarrow> term_inst \<Rightarrow> term_inst" where
  "inst_step secure hst e i = i\<lparr>ti_hook := hook_step (mount_cfg secure hst (ti_mount i)) (ti_hook i) e\<rparr>"

definition at_inst :: "nat \<Rightarrow> (term_inst \<Rightarrow> term_inst) \<Rightarrow> page \<Rightarrow> page" where
  "at_inst k f p = (if k < length (pg_terms p) then p\<lparr>pg_terms := (pg_terms p)[k := f (pg_terms p ! k)]\<rparr> else p)"

definition set_up ::
  "bool \<Rightarrow> string \<Rightarrow> term_mount \<Rightarrow> bool \<Rightarrow> jsnum \<times> jsnum \<Rightarrow> string \<Rightarrow> jsnum \<Rightarrow> fit_env \<Rightarrow> page \<Rightarrow> page" where
  "set_up secure hst m focused g0 stack fsize env p =
     (case hook_mount (mount_cfg secure hst m) g0 stack fsize focused env of
        None \<Rightarrow> p
      | Some h \<Rightarrow> p\<lparr>pg_terms := pg_terms p @ [\<lparr>ti_mount = m, ti_hook = h\<rparr>]\<rparr>)"

fun page_step :: "bool \<Rightarrow> string \<Rightarrow> page \<Rightarrow> page_event \<Rightarrow> page" where
  "page_step secure hst p (PageHub e) = p\<lparr>pg_hub := hub_step (pg_hub p) e\<rparr>"
| "page_step secure hst p (WidthChanged b) = p\<lparr>pg_wide := b\<rparr>"
| "page_step secure hst p (CleanUp k) = at_inst k (inst_step secure hst Unmounted) p"
| "page_step secure hst p (SetUp m focused g0 stack fsize env) = set_up secure hst m focused g0 stack fsize env p"
| "page_step secure hst p (InPane k e) = at_inst k (inst_step secure hst e) p"

section \<open>What React guarantees\<close>

definition page_view :: "page \<Rightarrow> (term_mount \<times> bool) list" where
  "page_view p = page_mounts (pg_wide p) (pg_hub p)"

definition wanted :: "page \<Rightarrow> term_mount list" where
  "wanted p = map fst (page_view p)"

definition alive :: "page \<Rightarrow> term_mount list" where
  "alive p = map ti_mount (filter (\<lambda>i. mounted (ti_hook i)) (pg_terms p))"

text \<open>All effects of the last render have run.\<close>

definition settled_page :: "page \<Rightarrow> bool" where
  "settled_page p = (set (alive p) = set (wanted p))"

fun page_ok :: "bool \<Rightarrow> string \<Rightarrow> page \<Rightarrow> page_event \<Rightarrow> bool" where
  "page_ok secure hst p (PageHub e) = hub_ok (pg_hub p) e"
| "page_ok secure hst p (WidthChanged b) = True"
| "page_ok secure hst p (CleanUp k) =
     (k < length (pg_terms p) \<and> mounted (ti_hook (pg_terms p ! k)) \<and> ti_mount (pg_terms p ! k) \<notin> set (wanted p))"
| "page_ok secure hst p (SetUp m focused g0 stack fsize env) =
     ((m, focused) \<in> set (page_view p) \<and> m \<notin> set (alive p) \<and> set (alive p) \<subseteq> set (wanted p)
      \<and> hook_mount (mount_cfg secure hst m) g0 stack fsize focused env \<noteq> None)"
| "page_ok secure hst p (InPane k e) =
     (k < length (pg_terms p) \<and> e \<noteq> Unmounted \<and> hook_ok (ti_hook (pg_terms p ! k)) e
      \<and> (case e of FocusChanged b \<Rightarrow> (ti_mount (pg_terms p ! k), b) \<in> set (page_view p) | _ \<Rightarrow> True))"

section \<open>Lemmas\<close>

lemma view_mounts_shown:
  "map (\<lambda>m. (mount_tm (fst m), snd m)) (view_mounts q v)
     = map (\<lambda>s. (sr_tmId (fst s), snd s)) (List.map_filter pane_terminal (view_panes v))"
proof (induction v arbitrary: q)
  case (PaneBox p)
  show ?case by (cases p) (simp_all add: map_filter_simps)
qed (simp add: List.map_filter_def)

lemma main_mounts_shown:
  "map (\<lambda>m. (mount_tm (fst m), snd m)) (main_mounts r) = map (\<lambda>s. (sr_tmId (fst s), snd s)) (shown_terminals r)"
  by (cases r) (simp_all add: view_mounts_shown)

lemma map_pair_fst: "map (\<lambda>x. (f x, g x)) xs = map (\<lambda>y. (f' y, g' y)) ys \<Longrightarrow> map f xs = map f' ys"
  by (drule arg_cong [where f = "map fst"]) (simp add: o_def)

lemma wanted_shown:
  "map mount_tm (wanted p) =
     (if ls_authed (lay (pg_hub p))
      then map (\<lambda>s. sr_tmId (fst s)) (shown_terminals (main_view (pg_wide p) (pg_hub p))) else [])"
  using map_pair_fst [OF main_mounts_shown [of "main_view (pg_wide p) (pg_hub p)"]]
  by (simp add: wanted_def page_view_def page_mounts_def o_def)

lemma narrow_shown: "length (shown_terminals (main_view False h)) \<le> 1"
  by (simp add: main_view_def split: option.split)

lemma wanted_once:
  assumes "layout_inv (lay (pg_hub p))"
  shows "distinct (map mount_tm (wanted p))"
proof (cases "pg_wide p")
  case True
  with screen_shown [OF assms] show ?thesis by (simp add: wanted_shown)
next
  case False
  have short: "length xs \<le> 1 \<Longrightarrow> distinct (map f xs)" for xs and f :: "SessionRef \<times> bool \<Rightarrow> string"
    by (cases xs) auto
  from False short [OF narrow_shown [of "pg_hub p"]] show ?thesis by (simp add: wanted_shown)
qed

text \<open>A connection is closed by the unmount and by nothing else, and stays so.\<close>

lemma open_ws_closed [simp]: "closed (open_ws cfg c) = closed c"
  by (simp add: open_ws_def Let_def ws_prims split: option.split)

lemma timer_fires_closed [simp]: "closed (timer_fires cfg cb c) = closed c"
  by (cases cb) (simp_all add: tick_def pong_timeout_def ws_prims)

lemma ws_step_closed:
  assumes "\<not> client_call e"
  shows "closed (ws_step (hook_cfg secure hst wsId tmId) c e) = closed c"
proof (cases e)
  case (TimerFires k)
  then show ?thesis by (auto simp: clearTimeout_def split: option.split)
qed (use assms in \<open>auto simp: client_call_def Let_def ws_onopen_def startHeartbeat_def setTimeout_def emit_def
      sock_map_def ws_onmessage_def clearTimeout_def ws_onerror_def onVisibility_def ws_onclose_def
      scheduleReconnect_def hook_cfg_def clearTimers_def split: option.split frame.split\<close>)

lemma doFit_frame [simp]:
  "mounted (snd (doFit env h)) = mounted h" "closed (h_conn (snd (doFit env h))) = closed (h_conn h)"
  by (auto simp: doFit_def deferIfComposing_def sendResize_def ws_send_def emit_def
      split: fit_result.split option.split)

lemma onOpen_frame [simp]:
  "mounted (hook_onOpen env h) = mounted h" "closed (h_conn (hook_onOpen env h)) = closed (h_conn h)"
  using doFit_frame [of env "h\<lparr>h_status := Open\<rparr>"]
  by (auto simp: hook_onOpen_def term_do_def simp del: doFit_frame split: prod.split)

lemma callback_frame [simp]:
  "mounted (hook_callback env x h) = mounted h" "closed (h_conn (hook_callback env x h)) = closed (h_conn h)"
  by (cases x; simp add: hook_onMessage_def hook_onClose_def term_do_def split: option.split)+

lemma callbacks_frame [simp]:
  "mounted (fold (hook_callback env) xs h) = mounted h"
  "closed (h_conn (fold (hook_callback env) xs h)) = closed (h_conn h)"
  by (induction xs arbitrary: h) simp_all

lemma settle_frame [simp]:
  "mounted (settleComposition env h) = mounted h"
  "closed (h_conn (settleComposition env h)) = closed (h_conn h)"
  by (simp_all add: settleComposition_def Let_def)

lemma font_frame [simp]:
  "mounted (apply_font s f env h) = mounted h" "closed (h_conn (apply_font s f env h)) = closed (h_conn h)"
  by (auto simp: apply_font_def deferIfComposing_def sendResize_def ws_send_def emit_def
      split: fit_result.split option.split)

lemma send_closed [simp]: "closed (snd (ws_send m c)) = closed c"
  by (simp add: ws_send_def emit_def split: option.split)

lemma hook_step_frame:
  assumes "browser_only e"
  shows "mounted (hook_step (hook_cfg secure hst wsId tmId) h e) = (mounted h \<and> e \<noteq> Unmounted)"
    and "closed (h_conn (hook_step (hook_cfg secure hst wsId tmId) h e))
       = (closed (h_conn h) \<or> mounted h \<and> e = Unmounted)"
  using assms
  by (cases e; simp add: hook_conn_step_def Let_def ws_step_closed onCompositionStart_def onBlur_def on_data_def
      on_key_def apply_focus_def term_do_def hook_unmount_def split: option.split)+

lemma focus_closed [simp]: "closed (h_conn (apply_focus b h)) = closed (h_conn h)"
  by (simp add: apply_focus_def term_do_def)

lemma mount_frame:
  assumes "hook_mount (hook_cfg secure hst wsId tmId) g0 stack fsize focused env = Some h"
  shows "mounted h" and "\<not> closed (h_conn h)"
  using assms
  by (auto simp: hook_mount_def connectWs_def ws_blank_def split: fit_result.splits)

text \<open>The instances of a page, and what an event does to the list of those that are mounted.\<close>

definition page_inv :: "page \<Rightarrow> bool" where
  "page_inv p =
     (layout_inv (lay (pg_hub p)) \<and> distinct (map mount_tm (alive p))
      \<and> (\<forall>i \<in> set (pg_terms p). hook_inv (ti_hook i) \<and> mounted (ti_hook i) = (\<not> closed (h_conn (ti_hook i)))))"

lemma inst_step_mount [simp]: "ti_mount (inst_step secure hst e i) = ti_mount i"
  by (simp add: inst_step_def)

lemma inst_step_frame:
  "browser_only e \<Longrightarrow> mounted (ti_hook (inst_step secure hst e i)) = (mounted (ti_hook i) \<and> e \<noteq> Unmounted)"
  "browser_only e \<Longrightarrow> closed (h_conn (ti_hook (inst_step secure hst e i)))
     = (closed (h_conn (ti_hook i)) \<or> mounted (ti_hook i) \<and> e = Unmounted)"
  by (simp_all add: inst_step_def mount_cfg_def hook_step_frame)

lemma inst_step_inv:
  "hook_inv (ti_hook i) \<Longrightarrow> hook_ok (ti_hook i) e \<Longrightarrow> hook_inv (ti_hook (inst_step secure hst e i))"
  by (simp add: inst_step_def mount_cfg_def hook_inv_step)

lemma filter_update:
  assumes "k < length xs"
  shows "filter P (xs[k := y]) = filter P (take k xs) @ (if P y then [y] else []) @ filter P (drop (Suc k) xs)"
    and "filter P xs = filter P (take k xs) @ (if P (xs ! k) then [xs ! k] else []) @ filter P (drop (Suc k) xs)"
proof -
  show "filter P (xs[k := y]) = filter P (take k xs) @ (if P y then [y] else []) @ filter P (drop (Suc k) xs)"
    using assms by (simp add: upd_conv_take_nth_drop)
  have "xs = take k xs @ xs ! k # drop (Suc k) xs" using assms by (rule id_take_nth_drop)
  then have "filter P xs = filter P (take k xs @ xs ! k # drop (Suc k) xs)" by (rule arg_cong)
  then show "filter P xs = filter P (take k xs) @ (if P (xs ! k) then [xs ! k] else []) @ filter P (drop (Suc k) xs)"
    by simp
qed

lemma alive_in_pane:
  assumes "k < length (pg_terms p)" and "browser_only e" and "e \<noteq> Unmounted"
  shows "alive (at_inst k (inst_step secure hst e) p) = alive p"
  using assms filter_update [OF assms(1), of "\<lambda>i. mounted (ti_hook i)"]
  by (simp add: alive_def at_inst_def inst_step_frame)

lemma alive_clean_up:
  assumes "k < length (pg_terms p)" and "mounted (ti_hook (pg_terms p ! k))"
  obtains ms ns where "alive p = ms @ ti_mount (pg_terms p ! k) # ns"
    and "alive (at_inst k (inst_step secure hst Unmounted) p) = ms @ ns"
  using that assms filter_update [OF assms(1), of "\<lambda>i. mounted (ti_hook i)"]
  by (simp add: alive_def at_inst_def inst_step_frame)

lemma alive_set_up:
  assumes "hook_mount (mount_cfg secure hst m) g0 stack fsize focused env = Some h"
  shows "alive (set_up secure hst m focused g0 stack fsize env p) = alive p @ [m]"
  using assms mount_frame [OF assms [unfolded mount_cfg_def]] by (simp add: alive_def set_up_def)

lemma page_inv_init: "ids_fresh w {} \<Longrightarrow> page_inv (page_init w srv mobile wide)"
  by (simp add: page_inv_def page_init_def hub_init_def layout_inv_init alive_def)

lemma insts_at:
  assumes "\<forall>i \<in> set (pg_terms p). Q i" and "k < length (pg_terms p)" and "Q (f (pg_terms p ! k))"
  shows "\<forall>i \<in> set (pg_terms (at_inst k f p)). Q i"
  using assms set_update_subset_insert [of "pg_terms p" k] by (auto simp: at_inst_def)

lemma at_inst_hub [simp]: "pg_hub (at_inst k f p) = pg_hub p" "pg_wide (at_inst k f p) = pg_wide p"
  by (simp_all add: at_inst_def)

lemma set_up_hub [simp]:
  "pg_hub (set_up secure hst m focused g0 stack fsize env p) = pg_hub p"
  "pg_wide (set_up secure hst m focused g0 stack fsize env p) = pg_wide p"
  by (simp_all add: set_up_def split: option.split)

lemma page_view_hub: "pg_hub q = pg_hub p \<Longrightarrow> pg_wide q = pg_wide p \<Longrightarrow> page_view q = page_view p"
  by (simp add: page_view_def)

definition inst_inv :: "term_inst \<Rightarrow> bool" where
  "inst_inv i = (hook_inv (ti_hook i) \<and> mounted (ti_hook i) = (\<not> closed (h_conn (ti_hook i))))"

lemma inst_inv_step:
  "inst_inv i \<Longrightarrow> hook_ok (ti_hook i) e \<Longrightarrow> inst_inv (inst_step secure hst e i)"
  using inst_step_frame [of e secure hst i] by (auto simp: inst_inv_def inst_step_inv hook_ok_def)

lemma page_inv_iff:
  "page_inv p = (layout_inv (lay (pg_hub p)) \<and> distinct (map mount_tm (alive p)) \<and> (\<forall>i \<in> set (pg_terms p). inst_inv i))"
  by (simp add: page_inv_def inst_inv_def)

lemma alive_hub [simp]: "alive (p\<lparr>pg_hub := h\<rparr>) = alive p" "alive (p\<lparr>pg_wide := b\<rparr>) = alive p"
  by (simp_all add: alive_def)

lemma page_inv_step:
  assumes inv: "page_inv p" and ok: "page_ok secure hst p e"
  shows "page_inv (page_step secure hst p e)"
proof (cases e)
  case (PageHub h)
  then show ?thesis using inv ok hub_run.step_inv [of "pg_hub p" h] by (simp add: page_inv_iff)
next
  case (WidthChanged b)
  then show ?thesis using inv by (simp add: page_inv_iff)
next
  case (CleanUp k)
  then have k: "k < length (pg_terms p)" "mounted (ti_hook (pg_terms p ! k))" using ok by simp_all
  then obtain ms ns where "alive p = ms @ ti_mount (pg_terms p ! k) # ns"
    and a: "alive (at_inst k (inst_step secure hst Unmounted) p) = ms @ ns" by (rule alive_clean_up)
  then have "distinct (map mount_tm (ms @ ns))" using inv by (simp add: page_inv_iff)
  moreover have "inst_inv (inst_step secure hst Unmounted (pg_terms p ! k))"
    using inv k by (intro inst_inv_step) (simp_all add: page_inv_iff hook_ok_def)
  ultimately show ?thesis
    using inv CleanUp k(1) insts_at [of p inst_inv k] by (simp add: page_inv_iff a)
next
  case (SetUp m focused g0 stack fsize env)
  then obtain h where h: "hook_mount (mount_cfg secure hst m) g0 stack fsize focused env = Some h"
    using ok by auto
  have sub: "set (alive p) \<subseteq> set (wanted p)" and m: "m \<in> set (wanted p)" "m \<notin> set (alive p)"
    using SetUp ok by (auto simp: wanted_def image_iff intro!: bexI)
  have "inj_on mount_tm (set (wanted p))"
    using wanted_once [of p] inv by (simp add: page_inv_iff distinct_map)
  then have "mount_tm m \<notin> mount_tm ` set (alive p)" using sub m by (auto simp: inj_on_def)
  moreover have "inst_inv \<lparr>ti_mount = m, ti_hook = h\<rparr>"
    using mount_inv [OF h [unfolded mount_cfg_def]] mount_frame [OF h [unfolded mount_cfg_def]]
    by (simp add: inst_inv_def)
  moreover have "pg_terms (set_up secure hst m focused g0 stack fsize env p) = pg_terms p @ [\<lparr>ti_mount = m, ti_hook = h\<rparr>]"
    using h by (simp add: set_up_def)
  ultimately show ?thesis using inv SetUp alive_set_up [OF h] by (simp add: page_inv_iff)
next
  case (InPane k b)
  have "inst_inv (inst_step secure hst b (pg_terms p ! k))"
    using inv ok InPane by (intro inst_inv_step) (simp_all add: page_inv_iff)
  then show ?thesis
    using inv ok InPane alive_in_pane [of k p b] insts_at [of p inst_inv k]
    by (simp add: page_inv_iff hook_ok_def)
qed

interpretation page_run: machine_inv "page_step secure hst" "page_ok secure hst" page_inv
  by unfold_locales (rule page_inv_step)

section \<open>One connection per terminal\<close>

text \<open>The terminals with a connection that has not been closed, and the sockets of a terminal that are
  connecting or open, over everything the page ever mounted.\<close>

definition connected :: "page \<Rightarrow> string list" where
  "connected p =
     map (\<lambda>i. mount_tm (ti_mount i)) (filter (\<lambda>i. \<not> closed (h_conn (ti_hook i))) (pg_terms p))"

definition page_sockets :: "string \<Rightarrow> page \<Rightarrow> ws_sock list" where
  "page_sockets t p =
     concat (map (\<lambda>i. filter (\<lambda>s. readyState s < CLOSING) (socks (h_conn (ti_hook i))))
       (filter (\<lambda>i. mount_tm (ti_mount i) = t) (pg_terms p)))"

lemma connected_alive:
  assumes "\<forall>i \<in> set (pg_terms p). inst_inv i"
  shows "connected p = map mount_tm (alive p)"
proof -
  have "filter (\<lambda>i. \<not> closed (h_conn (ti_hook i))) (pg_terms p) = filter (\<lambda>i. mounted (ti_hook i)) (pg_terms p)"
    using assms by (auto simp: inst_inv_def intro: filter_cong)
  then show ?thesis by (simp add: connected_def alive_def)
qed

lemma distinct_count: "distinct xs \<Longrightarrow> length (filter (\<lambda>x. x = t) xs) \<le> 1"
  by (induction xs) (auto simp: filter_empty_conv)

lemma sockets_le_connections:
  assumes "\<forall>i \<in> set is. inst_inv i"
  shows "length (concat (map (\<lambda>i. filter (\<lambda>s. readyState s < CLOSING) (socks (h_conn (ti_hook i))))
           (filter (\<lambda>i. mount_tm (ti_mount i) = t) is)))
       \<le> length (filter (\<lambda>x. x = t)
           (map (\<lambda>i. mount_tm (ti_mount i)) (filter (\<lambda>i. \<not> closed (h_conn (ti_hook i))) is)))"
  using assms
proof (induction "is")
  case (Cons i "is")
  then have "sock_inv (h_conn (ti_hook i))" by (simp add: inst_inv_def hook_inv_def ws_inv_def)
  from single_live(1) [OF this] Cons show ?case by (auto split: if_splits)
qed simp

lemma page_sockets_once:
  assumes "page_inv p"
  shows "length (page_sockets t p) \<le> 1"
proof -
  have i: "\<forall>i \<in> set (pg_terms p). inst_inv i" and d: "distinct (connected p)"
    using assms by (auto simp: page_inv_iff connected_alive)
  have "length (page_sockets t p) \<le> length (filter (\<lambda>x. x = t) (connected p))"
    unfolding page_sockets_def connected_def by (rule sockets_le_connections) (rule i)
  with distinct_count [OF d, of t] show ?thesis by simp
qed

text \<open>
  C1. Over the whole life of the page there is never more than one connection to a terminal, nor more
  than one socket that is connecting or open, whatever the user, the server and the network
  do and however late React runs its effects. Once React has run them, the terminals with a
  connection are exactly those on the screen: on a wide page the listed terminals that are
  placed in a pane, and after the logout none.
\<close>

theorem page_connections:
  assumes "ids_fresh w {}"
    and "run_ok (page_step secure hst) (page_ok secure hst) (page_init w srv mobile wide) es"
  shows "let p = run (page_step secure hst) (page_init w srv mobile wide) es; h = pg_hub p in
     distinct (connected p) \<and> length (page_sockets t p) \<le> 1
     \<and> (if settled_page p
        then set (connected p) =
          (if \<not> ls_authed (lay h) then {}
           else if pg_wide p then placed (lay h) \<inter> dom (sessions_of (workspaces h))
           else set_option (map_option sr_tmId (active_session h)))
        else True)"
proof -
  let ?p = "run (page_step secure hst) (page_init w srv mobile wide) es"
  have inv: "page_inv ?p" by (rule page_run.run_inv [OF page_inv_init [OF assms(1)] assms(2)])
  then have c: "connected ?p = map mount_tm (alive ?p)" by (simp add: page_inv_iff connected_alive)
  have d: "distinct (connected ?p)" using inv by (simp add: c page_inv_iff)
  have "set (connected ?p) = (if \<not> ls_authed (lay (pg_hub ?p)) then {}
           else if pg_wide ?p then placed (lay (pg_hub ?p)) \<inter> dom (sessions_of (workspaces (pg_hub ?p)))
           else set_option (map_option sr_tmId (active_session (pg_hub ?p))))"
    if "settled_page ?p"
  proof -
    have "set (connected ?p) = set (map mount_tm (wanted ?p))" using that by (simp add: c settled_page_def)
    also have "\<dots> = (if \<not> ls_authed (lay (pg_hub ?p)) then {}
           else if pg_wide ?p then placed (lay (pg_hub ?p)) \<inter> dom (sessions_of (workspaces (pg_hub ?p)))
           else set_option (map_option sr_tmId (active_session (pg_hub ?p))))"
      using screen_shown [of "pg_hub ?p"] inv
      by (auto simp: wanted_shown page_inv_iff image_image main_view_def split: option.split)
    finally show ?thesis .
  qed
  with d page_sockets_once [OF inv, of t] show ?thesis unfolding Let_def by presburger
qed

text \<open>A page with one terminal on it.\<close>

definition demo_hub_events :: "hub_event list" where
  "demo_hub_events = [Authenticated, Done 0 (GotWorkspaces [demo_ws]),
     OnLayout (AssignSession (world_id demo_world 0) ''t1'')]"

definition demo_setup :: page_event where
  "demo_setup = SetUp (InSplit [], ''w'', ''t1'') True (Num 80, Num 24) ''mono'' (Num 13) plain_fit"

definition demo_page_hub :: hub where
  "demo_page_hub = run hub_step (hub_init demo_world None False) demo_hub_events"

lemma run_page_hub:
  "run (page_step secure hst) p (map PageHub es) = p\<lparr>pg_hub := run hub_step (pg_hub p) es\<rparr>"
  by (induction es arbitrary: p) simp_all

lemma run_ok_page_hub:
  "run_ok (page_step secure hst) (page_ok secure hst) p (map PageHub es) = run_ok hub_step hub_ok (pg_hub p) es"
  by (induction es arbitrary: p) simp_all

lemma demo_page_hub_fields:
  "ls_root (lay demo_page_hub) = Leaf (world_id demo_world 0) (Some ''t1'')"
  "focusedPaneId (lay demo_page_hub) = world_id demo_world 0" "ls_authed (lay demo_page_hub)"
  "workspaces demo_page_hub = [demo_ws]" "placed (lay demo_page_hub) = {''t1''}"
  by (simp_all add: demo_page_hub_def demo_hub_events_def hub_init_def authenticated_def start_task_def finish_task_def
      assignSession_def useLayout_init_def leaf_eq set_authed_def Let_def world_id_0 setLeafSession_def
      placedSessionIds_eq)

lemma demo_page_mounts: "page_mounts True demo_page_hub = [((InSplit [], ''w'', ''t1''), True)]"
  by (simp add: page_mounts_def main_view_def demo_page_hub_fields leaf_view_def sessions_of_def set_session_def
      demo_ws_def)

lemma demo_hub_ok: "run_ok hub_step hub_ok (hub_init demo_world None False) demo_hub_events"
  by (simp add: demo_hub_events_def hub_ok_def)

lemma demo_set_up:
  "hook_mount (mount_cfg False ''h'' (InSplit [], ''w'', ''t1'')) (Num 80, Num 24) ''mono'' (Num 13) True plain_fit
     = Some (term_do TermFocus (demo_hook\<lparr>h_conn := connectWs (hook_cfg False ''h'' ''w'' ''t1'')\<rparr>))"
  by (simp add: hook_mount_def apply_focus_def apply_font_def demo_hook_def hook_eval mount_cfg_def)

lemma demo_page_run:
  "run_ok (page_step False ''h'') (page_ok False ''h'') (page_init demo_world None False True)
     (map PageHub demo_hub_events @ [demo_setup])"
  by (simp add: run_ok_page_hub run_page_hub demo_hub_ok page_init_def demo_setup_def page_view_def wanted_def
      alive_def demo_page_mounts demo_set_up flip: demo_page_hub_def)

lemma demo_page:
  "run (page_step False ''h'') (page_init demo_world None False True) (map PageHub demo_hub_events @ [demo_setup])
   = \<lparr>pg_hub = demo_page_hub, pg_wide = True,
      pg_terms = [\<lparr>ti_mount = (InSplit [], ''w'', ''t1''),
        ti_hook = term_do TermFocus (demo_hook\<lparr>h_conn := connectWs (hook_cfg False ''h'' ''w'' ''t1'')\<rparr>)\<rparr>]\<rparr>"
  by (simp add: run_page_hub page_init_def demo_setup_def set_up_def demo_set_up flip: demo_page_hub_def)

theorem page_connections_witness:
  "let p = run (page_step False ''h'') (page_init demo_world None False True)
        (map PageHub demo_hub_events @ [demo_setup]) in
     set (connected p) = {''t1''} \<and> length (page_sockets ''t1'' p) \<le> 1"
  using page_connections [OF demo_fresh_empty demo_page_run, of "''t1''"]
  unfolding demo_page Let_def
  by (simp add: settled_page_def alive_def wanted_def page_view_def demo_page_mounts term_do_def demo_hook_def
      demo_page_hub_fields dom_def sessions_of_def set_session_def demo_ws_def)

section \<open>React finishes its work\<close>

text \<open>The part of the events that is React's.\<close>

fun react_event :: "page_event \<Rightarrow> bool" where
  "react_event (CleanUp k) = True"
| "react_event (SetUp m focused g0 stack fsize env) = True"
| "react_event _ = False"

lemma react_step_frame:
  assumes "react_event e"
  shows "pg_hub (page_step secure hst p e) = pg_hub p" "pg_wide (page_step secure hst p e) = pg_wide p"
    "wanted (page_step secure hst p e) = wanted p" "page_view (page_step secure hst p e) = page_view p"
  using assms by (cases e; simp add: wanted_def page_view_def)+

lemma react_run_frame:
  assumes "list_all react_event rs"
  shows "pg_hub (run (page_step secure hst) p rs) = pg_hub p" "wanted (run (page_step secure hst) p rs) = wanted p"
  using assms by (induction rs arbitrary: p) (simp_all add: react_step_frame)

lemma alive_nth:
  "m \<in> set (alive p) \<longleftrightarrow> (\<exists>k < length (pg_terms p). mounted (ti_hook (pg_terms p ! k)) \<and> ti_mount (pg_terms p ! k) = m)"
  by (auto simp: alive_def in_set_conv_nth)

lemma react_cleans:
  "\<exists>rs. list_all react_event rs \<and> run_ok (page_step secure hst) (page_ok secure hst) p rs
      \<and> set (alive (run (page_step secure hst) p rs)) \<subseteq> set (wanted p)"
proof (induction "length (filter (\<lambda>m. m \<notin> set (wanted p)) (alive p))" arbitrary: p rule: less_induct)
  case less
  show ?case
  proof (cases "set (alive p) \<subseteq> set (wanted p)")
    case True
    then show ?thesis by (intro exI [of _ "[]"]) simp
  next
    case False
    then obtain m where "m \<in> set (alive p)" "m \<notin> set (wanted p)" by blast
    then obtain k where k: "k < length (pg_terms p)" "mounted (ti_hook (pg_terms p ! k))"
        "ti_mount (pg_terms p ! k) \<notin> set (wanted p)" unfolding alive_nth by blast
    obtain ms ns where a: "alive p = ms @ ti_mount (pg_terms p ! k) # ns"
      "alive (at_inst k (inst_step secure hst Unmounted) p) = ms @ ns" using k(1,2) by (rule alive_clean_up)
    let ?q = "page_step secure hst p (CleanUp k)"
    have w: "wanted ?q = wanted p" by (rule react_step_frame) simp
    have "length (filter (\<lambda>m. m \<notin> set (wanted ?q)) (alive ?q)) < length (filter (\<lambda>m. m \<notin> set (wanted p)) (alive p))"
      using a k(3) w by simp
    then obtain rs where "list_all react_event rs" "run_ok (page_step secure hst) (page_ok secure hst) ?q rs"
      "set (alive (run (page_step secure hst) ?q rs)) \<subseteq> set (wanted ?q)" using less by blast
    with k w show ?thesis by (intro exI [of _ "CleanUp k # rs"]) simp
  qed
qed

lemma mount_possible: "fitFullWidth env g0 \<noteq> FitThrows \<Longrightarrow> hook_mount cfg g0 stack fsize focused env \<noteq> None"
  by (simp add: hook_mount_def split: fit_result.split)

lemma react_creates:
  assumes "fitFullWidth env g0 \<noteq> FitThrows"
  shows "set (alive p) \<subseteq> set (wanted p) \<Longrightarrow>
     \<exists>rs. list_all react_event rs \<and> run_ok (page_step secure hst) (page_ok secure hst) p rs
      \<and> settled_page (run (page_step secure hst) p rs)"
proof (induction "length (filter (\<lambda>m. m \<notin> set (alive p)) (wanted p))" arbitrary: p rule: less_induct)
  case less
  show ?case
  proof (cases "set (wanted p) \<subseteq> set (alive p)")
    case True
    with less.prems show ?thesis by (intro exI [of _ "[]"]) (auto simp: settled_page_def)
  next
    case False
    then obtain m where m: "m \<in> set (wanted p)" "m \<notin> set (alive p)" by blast
    then obtain focused where f: "(m, focused) \<in> set (page_view p)" by (auto simp: wanted_def)
    let ?e = "SetUp m focused g0 ''mono'' (Num 13) env"
    let ?q = "page_step secure hst p ?e"
    obtain h where h: "hook_mount (mount_cfg secure hst m) g0 ''mono'' (Num 13) focused env = Some h"
      using mount_possible [OF assms] by blast
    have w: "wanted ?q = wanted p" by (rule react_step_frame) simp
    have a: "alive ?q = alive p @ [m]" using alive_set_up [OF h] by simp
    have "filter (\<lambda>x. x \<notin> set (alive ?q)) (wanted p)
        = filter (\<lambda>x. x \<noteq> m) (filter (\<lambda>x. x \<notin> set (alive p)) (wanted p))"
      unfolding a by (auto intro: filter_cong)
    moreover have "m \<in> set (filter (\<lambda>x. x \<notin> set (alive p)) (wanted p))" using m by simp
    ultimately have "length (filter (\<lambda>x. x \<notin> set (alive ?q)) (wanted ?q))
        < length (filter (\<lambda>x. x \<notin> set (alive p)) (wanted p))"
      unfolding w by (metis (mono_tags, lifting) length_filter_less)
    moreover have "set (alive ?q) \<subseteq> set (wanted ?q)" unfolding w a using less.prems m by simp
    ultimately obtain rs where "list_all react_event rs" "run_ok (page_step secure hst) (page_ok secure hst) ?q rs"
      "settled_page (run (page_step secure hst) ?q rs)" using less.hyps by blast
    with f m h less.prems show ?thesis by (intro exI [of _ "?e # rs"]) simp
  qed
qed

lemma react_settles:
  assumes "fitFullWidth env g0 \<noteq> FitThrows"
  shows "\<exists>rs. list_all react_event rs \<and> run_ok (page_step secure hst) (page_ok secure hst) p rs
      \<and> settled_page (run (page_step secure hst) p rs)"
proof -
  obtain rs where rs: "list_all react_event rs" "run_ok (page_step secure hst) (page_ok secure hst) p rs"
      "set (alive (run (page_step secure hst) p rs)) \<subseteq> set (wanted p)" using react_cleans by blast
  then have "set (alive (run (page_step secure hst) p rs)) \<subseteq> set (wanted (run (page_step secure hst) p rs))"
    by (simp add: react_run_frame)
  from react_creates [OF assms this] obtain rs' where "list_all react_event rs'"
      "run_ok (page_step secure hst) (page_ok secure hst) (run (page_step secure hst) p rs) rs'"
      "settled_page (run (page_step secure hst) (run (page_step secure hst) p rs) rs')" by blast
  with rs show ?thesis by (intro exI [of _ "rs @ rs'"]) simp
qed

section \<open>What a change of the layout does to the connections\<close>

text \<open>The panes with their places, from left to right.\<close>

fun leaf_places :: "bool list \<Rightarrow> PaneNode \<Rightarrow> (bool list \<times> string \<times> string option) list" where
  "leaf_places q (Leaf i sess) = [(q, i, sess)]"
| "leaf_places q (Split i d r f s) = leaf_places (q @ [False]) f @ leaf_places (q @ [True]) s"

lemma leaf_places_leaves: "map snd (leaf_places q t) = leaves t"
  by (induction t arbitrary: q) simp_all

lemma leaf_places_prefix: "(q', x) \<in> set (leaf_places q t) \<Longrightarrow> prefix q q'"
  by (induction t arbitrary: q) (auto dest: append_prefixD)

lemma leaf_places_distinct: "distinct (map fst (leaf_places q t))"
proof (induction t arbitrary: q)
  case (Split i d r f s)
  have "q' \<noteq> q''" if "(q', x) \<in> set (leaf_places (q @ [False]) f)" "(q'', y) \<in> set (leaf_places (q @ [True]) s)"
    for q' q'' x y
    using leaf_places_prefix [OF that(1)] leaf_places_prefix [OF that(2)]
    by (auto simp: prefix_def)
  with Split show ?case by fastforce
qed simp

lemma view_mounts_places:
  "view_mounts q (split_view ss foc t)
     = concat (map (\<lambda>(p, i, sess). pane_mount (InSplit p) (leaf_view ss foc i sess)) (leaf_places q t))"
  by (induction t arbitrary: q) simp_all

lemma places_replace:
  "i \<notin> set (split_ids t) \<Longrightarrow>
     leaf_places q (replaceNode t i nxt)
     = concat (map (\<lambda>(p, j, sess). if j = i then leaf_places p nxt else [(p, j, sess)]) (leaf_places q t))"
  by (induction t arbitrary: q) auto

lemma split_places:
  assumes "tree_wf t" and "(q, i, old) \<in> set (leaf_places [] t)"
  obtains nid where
    "leaf_places [] (fst (splitLeaf t i d w)) =
       concat (map (\<lambda>(p, j, s). if p = q then [(p @ [False], j, s), (p @ [True], nid, None)] else [(p, j, s)])
         (leaf_places [] t))"
proof -
  have in_leaves: "(i, old) \<in> set (leaves t)"
    using imageI [OF assms(2), of snd] by (simp flip: leaf_places_leaves [of "[]" t])
  then have i: "i \<in> set (leaf_ids t)" by force
  have ns: "i \<notin> set (split_ids t)" using i wf_disjoint [OF assms(1)] by blast
  have fl: "findLeaf t i = Some (Leaf i old)" using in_leaves wf_leaf_ids [OF assms(1)] by (simp add: findLeaf_eq [OF assms(1)])
  have one: "(p = q \<longleftrightarrow> j = i) \<and> (j = i \<longrightarrow> s = old)" if "(p, j, s) \<in> set (leaf_places [] t)" for p j s
  proof -
    have "inj_on fst (set (leaf_places [] t))" "inj_on (\<lambda>x. fst (snd x)) (set (leaf_places [] t))"
      using leaf_places_distinct [of "[]" t] wf_leaf_ids [OF assms(1)]
      by (simp_all add: distinct_map flip: leaf_places_leaves [of "[]"]) (auto simp: o_def distinct_map)
    with that assms(2) show ?thesis by (auto simp: inj_on_def) (metis fst_conv snd_conv)+
  qed
  have "leaf_places [] (fst (splitLeaf t i d w)) =
      concat (map (\<lambda>(p, j, s). if j = i then [(p @ [False], i, old), (p @ [True], fst (newPaneId (snd (newPaneId w))), None)]
         else [(p, j, s)]) (leaf_places [] t))"
    using fl by (cases "newPaneId w") (simp add: splitLeaf_def leaf_eq places_replace [OF ns] cong: if_cong)
  also have "\<dots> = concat (map (\<lambda>(p, j, s). if p = q then [(p @ [False], j, s), (p @ [True], fst (newPaneId (snd (newPaneId w))), None)]
         else [(p, j, s)]) (leaf_places [] t))"
    by (intro arg_cong [where f = concat] map_cong refl) (use one in \<open>auto cong: if_cong\<close>)
  finally show ?thesis using that by blast
qed

definition moved :: "bool list \<Rightarrow> term_mount \<times> bool \<Rightarrow> term_mount \<times> bool" where
  "moved q m = (if fst (fst m) = InSplit q then ((InSplit (q @ [False]), snd (fst m)), snd m) else m)"

lemma split_mounts:
  assumes "layout_inv (lay h)" and "(q, i, old) \<in> set (leaf_places [] (ls_root (lay h)))"
  shows "page_mounts True (hub_step h (OnLayout (SplitPane i d))) = map (moved q) (page_mounts True h)"
proof -
  let ?t = "ls_root (lay h)"
  let ?v = "\<lambda>(p, j, s). pane_mount (InSplit p) (leaf_view (sessions_of (workspaces h)) (focusedPaneId (lay h)) j s)"
  have inv: "rootRef (lay h) = ?t" "tree_wf ?t" using assms(1) by (auto simp: layout_inv_def)
  obtain nid where places: "leaf_places [] (fst (splitLeaf ?t i d (idw (lay h)))) =
       concat (map (\<lambda>(p, j, s). if p = q then [(p @ [False], j, s), (p @ [True], nid, None)] else [(p, j, s)])
         (leaf_places [] ?t))" using inv(2) assms(2) by (rule split_places)
  have pane: "concat (map ?v (if p = q then [(p @ [False], j, s), (p @ [True], nid, None)] else [(p, j, s)]))
      = map (moved q) (?v (p, j, s))" for p j s
    by (auto simp: moved_def leaf_view_def split: option.split)
  have "concat (map ?v (concat (map (\<lambda>(p, j, s). if p = q then [(p @ [False], j, s), (p @ [True], nid, None)]
         else [(p, j, s)]) xs))) = map (moved q) (concat (map ?v xs))" for xs
  proof (induction xs)
    case (Cons x xs)
    obtain p j s where "x = (p, j, s)" by (cases x)
    with Cons pane [of p j s] show ?case by (simp del: split_paired_All)
  qed simp
  then have "concat (map ?v (leaf_places [] (fst (splitLeaf ?t i d (idw (lay h))))))
      = map (moved q) (concat (map ?v (leaf_places [] ?t)))" unfolding places .
  moreover obtain t' w' where "splitLeaf ?t i d (idw (lay h)) = (t', w')" by fastforce
  ultimately show ?thesis
    using inv(1) by (simp add: page_mounts_def main_view_def view_mounts_places split_pane_def)
qed

text \<open>What React's work does to an instance.\<close>

lemma at_inst_nth: "k < length (pg_terms p) \<Longrightarrow> pg_terms (at_inst k f p) = (pg_terms p)[k := f (pg_terms p ! k)]"
  by (simp add: at_inst_def)

lemma react_step_inst:
  assumes "react_event e" and "page_ok secure hst p e" and "j < length (pg_terms p)"
  shows "j < length (pg_terms (page_step secure hst p e))
    \<and> ti_mount (pg_terms (page_step secure hst p e) ! j) = ti_mount (pg_terms p ! j)
    \<and> (mounted (ti_hook (pg_terms (page_step secure hst p e) ! j)) \<longrightarrow> mounted (ti_hook (pg_terms p ! j)))
    \<and> (ti_mount (pg_terms p ! j) \<in> set (wanted p) \<longrightarrow> pg_terms (page_step secure hst p e) ! j = pg_terms p ! j)"
proof (cases e)
  case (CleanUp k)
  with assms show ?thesis
    by (cases "j = k") (simp_all add: at_inst_nth inst_step_frame)
next
  case (SetUp m focused g0 stack fsize env)
  with assms show ?thesis by (auto simp: set_up_def nth_append)
qed (use assms in simp_all)

lemma react_run_inst:
  assumes "list_all react_event rs" and "run_ok (page_step secure hst) (page_ok secure hst) p rs"
    and "j < length (pg_terms p)" and "p' = run (page_step secure hst) p rs"
  shows "j < length (pg_terms p') \<and> ti_mount (pg_terms p' ! j) = ti_mount (pg_terms p ! j)
    \<and> (mounted (ti_hook (pg_terms p' ! j)) \<longrightarrow> mounted (ti_hook (pg_terms p ! j)))
    \<and> (ti_mount (pg_terms p ! j) \<in> set (wanted p) \<longrightarrow> pg_terms p' ! j = pg_terms p ! j)"
  using assms
proof (induction rs arbitrary: p)
  case (Cons e rs)
  let ?q = "page_step secure hst p e"
  have e: "react_event e" "page_ok secure hst p e" using Cons.prems by simp_all
  have q: "list_all react_event rs" "run_ok (page_step secure hst) (page_ok secure hst) ?q rs"
    "p' = run (page_step secure hst) ?q rs" using Cons.prems by simp_all
  note one = react_step_inst [OF e Cons.prems(3)]
  from Cons.IH [OF q(1,2) conjunct1 [OF one] q(3)] one react_step_frame(3) [OF e(1), of secure hst p]
  show ?case by auto
qed simp

lemma alive_nthI:
  "k < length (pg_terms p) \<Longrightarrow> mounted (ti_hook (pg_terms p ! k)) \<Longrightarrow> ti_mount (pg_terms p ! k) \<in> set (alive p)"
  unfolding alive_nth by blast

lemma alive_nthE:
  assumes "m \<in> set (alive p)"
  obtains k where "k < length (pg_terms p)" "mounted (ti_hook (pg_terms p ! k))" "ti_mount (pg_terms p ! k) = m"
  using assms unfolding alive_nth by blast

lemma distinct_filter_nth:
  assumes "distinct (map f (filter P xs))" and "j < length xs" and "k < length xs" and "j \<noteq> k"
    and "P (xs ! j)" and "P (xs ! k)"
  shows "f (xs ! j) \<noteq> f (xs ! k)"
  using assms
proof (induction xs arbitrary: j k)
  case (Cons x xs)
  have member: "P (xs ! n) \<Longrightarrow> n < length xs \<Longrightarrow> f (xs ! n) \<in> f ` set (filter P xs)" for n by simp
  have hd: "P x \<Longrightarrow> f x \<notin> f ` set (filter P xs)" and tl: "distinct (map f (filter P xs))"
    using Cons.prems(1) by (auto split: if_splits)
  show ?case
  proof (cases j)
    case 0
    with Cons.prems obtain n where "k = Suc n" by (cases k) auto
    with 0 Cons.prems hd member [of n] show ?thesis by (metis length_Cons nat_add_left_cancel_less nth_Cons_0 nth_Cons_Suc plus_1_eq_Suc)
  next
    case (Suc n)
    show ?thesis
    proof (cases k)
      case 0
      with Suc Cons.prems hd member [of n] show ?thesis by (metis length_Cons nat_add_left_cancel_less nth_Cons_0 nth_Cons_Suc plus_1_eq_Suc)
    next
      case (Suc n')
      with \<open>j = Suc n\<close> Cons.prems Cons.IH [OF tl, of n n'] show ?thesis by simp
    qed
  qed
qed simp

lemma wanted_place:
  assumes "(q, i, Some t) \<in> set (leaf_places [] (ls_root (lay (pg_hub p))))"
    and "pg_wide p" and "ls_authed (lay (pg_hub p))" and "m \<in> set (wanted p)" and "fst m = InSplit q"
  shows "mount_tm m = t"
proof -
  let ?ss = "sessions_of (workspaces (pg_hub p))" and ?foc = "focusedPaneId (lay (pg_hub p))"
  let ?F = "\<lambda>(p, i, sess). pane_mount (InSplit p) (leaf_view ?ss ?foc i sess)"
  have "m \<in> (\<Union>x \<in> set (leaf_places [] (ls_root (lay (pg_hub p)))). fst ` set (?F x))"
    using assms(2-4) by (simp add: wanted_def page_view_def page_mounts_def main_view_def view_mounts_places image_UN)
  then obtain x where x: "x \<in> set (leaf_places [] (ls_root (lay (pg_hub p))))" "m \<in> fst ` set (?F x)" by blast
  obtain p' j s where xp: "x = (p', j, s)" by (cases x)
  with x assms(5) have "p' = q" by (cases "leaf_view ?ss ?foc j s") auto
  then have "(j, s) = (i, Some t)"
    using eq_key_imp_eq_value [OF leaf_places_distinct] x(1) assms(1) unfolding xp by metis
  with x(2) xp session_of_id [of "workspaces (pg_hub p)" t] show ?thesis
    by (auto simp: leaf_view_def split: option.splits)
qed

text \<open>
  C22. Splitting a pane reconnects its terminal and no other: the pane gets another place in the
  tree of elements, so as soon as React has run its effects the old connection of its
  terminal has been closed for good and the same terminal has a new one, while every other
  terminal of the page keeps its connection and its screen untouched.
\<close>

theorem split_reconnects:
  assumes inv: "page_inv p" and set: "settled_page p" and wide: "pg_wide p" "ls_authed (lay (pg_hub p))"
    and pane: "(q, i, Some t) \<in> set (leaf_places [] (ls_root (lay (pg_hub p))))"
    and k: "k < length (pg_terms p)" "mounted (ti_hook (pg_terms p ! k))" "ti_mount (pg_terms p ! k) = (InSplit q, w, t)"
    and react: "list_all react_event rs"
      "run_ok (page_step secure hst) (page_ok secure hst)
         (page_step secure hst p (PageHub (OnLayout (SplitPane i d)))) rs"
    and p': "p' = run (page_step secure hst) (page_step secure hst p (PageHub (OnLayout (SplitPane i d)))) rs"
      "settled_page p'"
  shows "closed (h_conn (ti_hook (pg_terms p' ! k)))
    \<and> (\<exists>n < length (pg_terms p'). length (pg_terms p) \<le> n \<and> mounted (ti_hook (pg_terms p' ! n))
          \<and> ti_mount (pg_terms p' ! n) = (InSplit (q @ [False]), w, t))
    \<and> (\<forall>j. j < length (pg_terms p) \<longrightarrow> mounted (ti_hook (pg_terms p ! j)) \<longrightarrow> j \<noteq> k \<longrightarrow>
          pg_terms p' ! j = pg_terms p ! j)"
proof -
  let ?p1 = "page_step secure hst p (PageHub (OnLayout (SplitPane i d)))"
  have lay: "layout_inv (lay (pg_hub p))" and once: "distinct (map mount_tm (alive p))"
    using inv by (simp_all add: page_inv_iff)
  have "page_view ?p1 = map (moved q) (page_view p)"
    using split_mounts [OF lay pane, of d] wide by (simp add: page_view_def)
  then have w1: "wanted ?p1 = map (\<lambda>m. if fst m = InSplit q then (InSplit (q @ [False]), snd m) else m) (wanted p)"
    by (simp add: wanted_def moved_def o_def if_distrib cong: if_cong)
  have a': "set (alive p') = set (wanted ?p1)"
    using p' react_run_frame(2) [OF react(1), of secure hst ?p1] by (simp add: settled_page_def)
  have m: "(InSplit q, w, t) \<in> set (wanted p)" using alive_nthI [OF k(1,2)] set k(3) by (simp add: settled_page_def)
  have inj: "inj_on mount_tm (set (wanted p))" using wanted_once [OF lay] by (simp add: distinct_map)
  have inv': "page_inv p'"
    unfolding p'(1)
    by (rule page_run.run_inv [OF page_inv_step [OF inv] react(2)]) (simp add: hub_ok_def)
  have terms: "pg_terms ?p1 = pg_terms p" by simp
  note kept = react_run_inst [OF react, unfolded terms, OF _ p'(1)]
  have closed: "closed (h_conn (ti_hook (pg_terms p' ! k)))"
  proof (rule ccontr)
    assume "\<not> closed (h_conn (ti_hook (pg_terms p' ! k)))"
    then have "(InSplit q, w, t) \<in> set (alive p')"
      using kept [OF k(1)] k inv' alive_nthI [of k p'] by (simp add: page_inv_iff inst_inv_def)
    with a' w1 show False by (auto split: if_splits)
  qed
  have "(InSplit (q @ [False]), w, t) \<in> set (wanted ?p1)"
    unfolding w1 set_map by (rule rev_image_eqI [OF m]) simp
  then obtain n where n: "n < length (pg_terms p')" "mounted (ti_hook (pg_terms p' ! n))"
    "ti_mount (pg_terms p' ! n) = (InSplit (q @ [False]), w, t)" unfolding a' [symmetric] by (rule alive_nthE)
  moreover have "length (pg_terms p) \<le> n"
  proof (rule ccontr)
    assume "\<not> length (pg_terms p) \<le> n"
    then have "(InSplit (q @ [False]), w, t) \<in> set (alive p)"
      using kept [of n] n alive_nthI [of n p] by simp
    then have "(InSplit (q @ [False]), w, t) \<in> set (wanted p)" using set by (simp add: settled_page_def)
    from inj_onD [OF inj _ this m] show False by simp
  qed
  moreover have "pg_terms p' ! j = pg_terms p ! j"
    if j: "j < length (pg_terms p)" "mounted (ti_hook (pg_terms p ! j))" "j \<noteq> k" for j
  proof -
    have mj: "ti_mount (pg_terms p ! j) \<in> set (wanted p)" using alive_nthI [OF j(1,2)] set by (simp add: settled_page_def)
    have "mount_tm (ti_mount (pg_terms p ! j)) \<noteq> t"
      using distinct_filter_nth [of "\<lambda>i. mount_tm (ti_mount i)" "\<lambda>i. mounted (ti_hook i)" "pg_terms p" j k] once j k
      by (simp add: alive_def o_def)
    then have "fst (ti_mount (pg_terms p ! j)) \<noteq> InSplit q"
      using wanted_place [OF pane wide mj] by blast
    then have "ti_mount (pg_terms p ! j) \<in> set (wanted ?p1)"
      unfolding w1 set_map by (intro rev_image_eqI [OF mj]) simp
    with kept [OF j(1)] show ?thesis by blast
  qed
  ultimately show ?thesis using closed by blast
qed

definition demo_pages :: page where
  "demo_pages = run (page_step False ''h'') (page_init demo_world None False True) (map PageHub demo_hub_events @ [demo_setup])"

lemma demo_pages_inv: "page_inv demo_pages"
  unfolding demo_pages_def by (rule page_run.run_inv [OF page_inv_init [OF demo_fresh_empty] demo_page_run])

theorem split_reconnects_witness:
  "\<exists>rs. let p' = run (page_step False ''h'')
        (page_step False ''h'' demo_pages (PageHub (OnLayout (SplitPane (world_id demo_world 0) DirH)))) rs in
     settled_page p' \<and> closed (h_conn (ti_hook (pg_terms p' ! 0)))
     \<and> (\<exists>n < length (pg_terms p'). 1 \<le> n \<and> ti_mount (pg_terms p' ! n) = (InSplit [False], ''w'', ''t1''))"
proof -
  let ?p1 = "page_step False ''h'' demo_pages (PageHub (OnLayout (SplitPane (world_id demo_world 0) DirH)))"
  have fit: "fitFullWidth plain_fit (Num 80, Num 24) \<noteq> FitThrows" by simp
  obtain rs where rs: "list_all react_event rs" "run_ok (page_step False ''h'') (page_ok False ''h'') ?p1 rs"
    "settled_page (run (page_step False ''h'') ?p1 rs)" using react_settles [OF fit] by blast
  have settled: "settled_page demo_pages"
    unfolding demo_pages_def demo_page
    by (simp add: settled_page_def alive_def wanted_def page_view_def demo_page_mounts term_do_def demo_hook_def)
  have fields: "pg_wide demo_pages" "ls_authed (lay (pg_hub demo_pages))"
    "([], world_id demo_world 0, Some ''t1'') \<in> set (leaf_places [] (ls_root (lay (pg_hub demo_pages))))"
    "length (pg_terms demo_pages) = 1" "mounted (ti_hook (pg_terms demo_pages ! 0))"
    "ti_mount (pg_terms demo_pages ! 0) = (InSplit [], ''w'', ''t1'')"
    unfolding demo_pages_def demo_page by (simp_all add: demo_page_hub_fields term_do_def demo_hook_def)
  show ?thesis
    using split_reconnects [OF demo_pages_inv settled fields(1-3) _ fields(5,6) rs(1,2) refl rs(3)] rs(3) fields(4)
    by (intro exI [of _ rs]) (auto simp: Let_def simp del: page_step.simps)
qed

end
