(* ===== verification/GoBase.thy ===== *)
theory GoBase
  imports UrlApi "HOL-Library.Word" "HOL-Library.Sublist"
begin

text \<open>
  What the server's code (\<^verbatim>\<open>src/internal\<close>, Go) uses of its standard library: reading JSON into typed
  fields, UTF-8, and cleaning file paths. Bytes are characters.
\<close>

section \<open>JSON into typed fields\<close>

text \<open>\<^verbatim>\<open>json.Unmarshal\<close> into the fields: an absent field and \<open>null\<close> leave the zero value, a value of
  another type is an error, and so is a number that is not a whole number of 16 bits. (Object
  keys are taken as they are written; Go would accept other capitals too.)\<close>

fun go_string :: "json option \<Rightarrow> string option" where
  "go_string None = Some []"
| "go_string (Some JNull) = Some []"
| "go_string (Some (JStr s)) = Some s"
| "go_string (Some _) = None"

fun go_uint16 :: "json option \<Rightarrow> 16 word option" where
  "go_uint16 None = Some 0"
| "go_uint16 (Some JNull) = Some 0"
| "go_uint16 (Some (JNum (Num q))) =
     (if q = of_int \<lfloor>q\<rfloor> \<and> 0 \<le> q \<and> q < 65536 then Some (word_of_int \<lfloor>q\<rfloor>) else None)"
| "go_uint16 (Some _) = None"

section \<open>UTF-8\<close>

text \<open>\<^verbatim>\<open>utf8.Valid\<close>: the length of the character at the front of some bytes, 0 when there is none
  (RFC 3629: no overlong forms, no surrogates, at most \<^verbatim>\<open>U+10FFFF\<close>).\<close>

definition in_range :: "nat \<Rightarrow> nat \<Rightarrow> char \<Rightarrow> bool" where
  "in_range lo hi c = (lo \<le> of_char c \<and> of_char c \<le> (hi :: nat))"

definition lead_len :: "char \<Rightarrow> nat" where
  "lead_len c =
     (if in_range 0 0x7F c then 1 else if in_range 0xC2 0xDF c then 2
      else if in_range 0xE0 0xEF c then 3 else if in_range 0xF0 0xF4 c then 4 else 0)"

definition second_ok :: "char \<Rightarrow> char \<Rightarrow> bool" where
  "second_ok b c =
     (if b = CHR 0xE0 then in_range 0xA0 0xBF c else if b = CHR 0xED then in_range 0x80 0x9F c
      else if b = CHR 0xF0 then in_range 0x90 0xBF c else if b = CHR 0xF4 then in_range 0x80 0x8F c else True)"

definition utf8_front :: "char \<Rightarrow> string \<Rightarrow> nat" where
  "utf8_front b conts =
     (if lead_len b \<noteq> 0 \<and> length conts = lead_len b - 1 \<and> list_all (in_range 0x80 0xBF) conts
         \<and> (case conts of [] \<Rightarrow> True | c # _ \<Rightarrow> second_ok b c)
      then lead_len b else 0)"

definition utf8_len :: "string \<Rightarrow> nat" where
  "utf8_len s = (case s of [] \<Rightarrow> 0 | b # q \<Rightarrow> utf8_front b (take (lead_len b - 1) q))"

lemma utf8_len_simps [simp]:
  "utf8_len [] = 0" "utf8_len (b # q) = utf8_front b (take (lead_len b - 1) q)"
  by (simp_all add: utf8_len_def)

lemma utf8_front_nz: "utf8_front b conts \<noteq> 0 \<Longrightarrow> utf8_front b conts = lead_len b \<and> lead_len b \<noteq> 0 \<and> length conts = lead_len b - 1"
  by (simp add: utf8_front_def split: if_splits)

lemma utf8_len_le: "utf8_len s \<le> length s"
proof (cases s)
  case (Cons b q)
  show ?thesis
  proof (cases "utf8_len s = 0")
    case False
    with utf8_front_nz [of b "take (lead_len b - 1) q"] Cons show ?thesis by auto
  qed simp
qed simp

function utf8_valid :: "string \<Rightarrow> bool" where
  "utf8_valid s =
     (if s = [] then True else if utf8_len s = 0 then False else utf8_valid (drop (utf8_len s) s))"
  by pat_completeness auto
termination
  by (relation "measure length") auto

declare utf8_valid.simps [simp del]

lemma utf8_valid_Nil [simp]: "utf8_valid []"
  by (subst utf8_valid.simps) simp

lemma utf8_valid_step: "s \<noteq> [] \<Longrightarrow> utf8_valid s = (utf8_len s \<noteq> 0 \<and> utf8_valid (drop (utf8_len s) s))"
  by (subst utf8_valid.simps) simp

lemma utf8_len_append:
  assumes "utf8_len s \<noteq> 0"
  shows "utf8_len (s @ t) = utf8_len s" and "utf8_len (take (utf8_len s) s) = utf8_len s"
proof -
  obtain b q where s: "s = b # q" using assms by (cases s) auto
  have n: "utf8_len s = lead_len b" "lead_len b \<noteq> 0" "lead_len b - 1 \<le> length q"
    using utf8_front_nz [of b "take (lead_len b - 1) q"] assms by (auto simp: s)
  then show "utf8_len (s @ t) = utf8_len s" by (simp add: s)
  have "take (lead_len b) (b # q) = b # take (lead_len b - 1) q" using n(2) by (cases "lead_len b") auto
  then have "take (utf8_len s) s = b # take (lead_len b - 1) q" unfolding n(1) unfolding s .
  then show "utf8_len (take (utf8_len s) s) = utf8_len s" by (simp only: utf8_len_simps s take_take min.idem)
qed

lemma utf8_len_short:
  assumes "prefix r t" and "r \<noteq> []" and "length r < utf8_len t"
  shows "utf8_len r = 0"
proof (rule ccontr)
  assume "utf8_len r \<noteq> 0"
  from utf8_len_append(1) [OF this] assms(1) have "utf8_len t = utf8_len r" by (auto simp: prefix_def)
  with utf8_len_le [of r] assms(3) show False by simp
qed

lemma utf8_valid_append: "utf8_valid s \<Longrightarrow> utf8_valid (s @ t) = utf8_valid t"
proof (induction s rule: utf8_valid.induct)
  case (1 s)
  show ?case
  proof (cases "s = []")
    case False
    then have n: "utf8_len s \<noteq> 0" "utf8_valid (drop (utf8_len s) s)"
      using "1.prems" by (simp_all add: utf8_valid_step)
    have "utf8_valid (s @ t) = utf8_valid (drop (utf8_len s) (s @ t))"
      using False n(1) utf8_valid_step [of "s @ t"] by (simp add: utf8_len_append)
    also have "drop (utf8_len s) (s @ t) = drop (utf8_len s) s @ t" using utf8_len_le [of s] by simp
    also have "utf8_valid \<dots> = utf8_valid t" using "1.IH" False n by blast
    finally show ?thesis .
  qed simp
qed

lemma utf8_len_bound: "utf8_len s \<le> 4"
  by (cases s) (simp_all add: utf8_front_def lead_len_def)

text \<open>A prefix of valid text is valid text and the beginning of one more character.\<close>

lemma utf8_prefix:
  "utf8_valid t \<Longrightarrow> prefix p t \<Longrightarrow>
     \<exists>c r t'. p = c @ r \<and> t = c @ t' \<and> utf8_valid c \<and> utf8_valid t' \<and> prefix r t' \<and> (r = [] \<or> length r < utf8_len t')"
proof (induction t arbitrary: p rule: utf8_valid.induct)
  case (1 t)
  let ?n = "utf8_len t"
  show ?case
  proof (cases "t = [] \<or> length p < ?n")
    case True
    then have "p = [] \<or> length p < ?n" using "1.prems"(2) by auto
    with "1.prems" show ?thesis by (intro exI [of _ "[]"] exI [of _ p] exI [of _ t]) simp
  next
    case False
    then have t: "t \<noteq> []" "?n \<noteq> 0" "utf8_valid (drop ?n t)"
      using "1.prems"(1) by (simp_all add: utf8_valid_step)
    have p: "p = take ?n t @ drop ?n p" "prefix (drop ?n p) (drop ?n t)"
      using "1.prems"(2) False by (auto simp: prefix_def)
    obtain c r t' where crt: "drop ?n p = c @ r" "drop ?n t = c @ t'" "utf8_valid c" "utf8_valid t'" "prefix r t'"
        "r = [] \<or> length r < utf8_len t'"
      using "1.IH" t p(2) by blast
    have "utf8_len (take ?n t) = ?n" using t(2) by (rule utf8_len_append)
    then have "utf8_valid (take ?n t)" using t(1,2) utf8_valid_step [of "take ?n t"] by simp
    then have "utf8_valid (take ?n t @ c)" using crt(3) by (simp add: utf8_valid_append)
    moreover have "p = (take ?n t @ c) @ r" "t = (take ?n t @ c) @ t'"
      using p(1) crt(1) append_take_drop_id [of ?n t] unfolding crt(2) by simp_all
    ultimately show ?thesis using crt by blast
  qed
qed

text \<open>Encoding a string as JSON: \<^verbatim>\<open>json.Marshal\<close> writes U+FFFD for every byte that is not part of a character.
  What the reader gets is a function of the bytes.\<close>

function go_utf8 :: "string \<Rightarrow> string" where
  "go_utf8 s =
     (if s = [] then []
      else if utf8_len s = 0 then [CHR 0xEF, CHR 0xBF, CHR 0xBD] @ go_utf8 (tl s)
      else take (utf8_len s) s @ go_utf8 (drop (utf8_len s) s))"
  by pat_completeness auto
termination
  by (relation "measure length") auto

declare go_utf8.simps [simp del]

lemma go_utf8_Nil [simp]: "go_utf8 [] = []"
  by (subst go_utf8.simps) simp

lemma go_utf8_id: "utf8_valid s \<Longrightarrow> go_utf8 s = s"
proof (induction s rule: utf8_valid.induct)
  case (1 s)
  show ?case
  proof (cases "s = []")
    case False
    with "1.prems" utf8_valid_step [of s] have n: "utf8_len s \<noteq> 0" "utf8_valid (drop (utf8_len s) s)" by auto
    with "1.IH" False have "go_utf8 (drop (utf8_len s) s) = drop (utf8_len s) s" by blast
    with False n go_utf8.simps [of s] show ?thesis by simp
  qed simp
qed

lemma utf8_replacement: "utf8_valid [CHR 0xEF, CHR 0xBF, CHR 0xBD]"
proof -
  have "utf8_len [CHR 0xEF, CHR 0xBF, CHR 0xBD] = 3"
    by (simp add: utf8_front_def lead_len_def in_range_def second_ok_def)
  then show ?thesis using utf8_valid_step [of "[CHR 0xEF, CHR 0xBF, CHR 0xBD]"] by simp
qed

lemma utf8_valid_front:
  assumes "utf8_len s \<noteq> 0"
  shows "utf8_valid (take (utf8_len s) s)"
proof -
  have "take (utf8_len s) s \<noteq> []" using assms by (cases s) auto
  with utf8_valid_step [OF this] utf8_len_append(2) [OF assms] assms show ?thesis by simp
qed

lemma go_utf8_valid: "utf8_valid (go_utf8 s)"
proof (induction s rule: go_utf8.induct)
  case (1 s)
  show ?case
  proof (cases "s = []")
    case False
    show ?thesis
    proof (cases "utf8_len s = 0")
      case True
      with False 1 utf8_valid_append [OF utf8_replacement, of "go_utf8 (tl s)"] go_utf8.simps [of s] show ?thesis by simp
    next
      case len: False
      with False 1 utf8_valid_append [OF utf8_valid_front [OF len], of "go_utf8 (drop (utf8_len s) s)"]
        go_utf8.simps [of s] show ?thesis by simp
    qed
  qed simp
qed

lemma go_utf8_iff: "go_utf8 s = s \<longleftrightarrow> utf8_valid s"
  using go_utf8_id go_utf8_valid [of s] by auto

lemma utf8_ascii: "list_all (in_range 0 0x7F) s \<Longrightarrow> utf8_valid s"
proof (induction s)
  case (Cons c s)
  then have "utf8_len (c # s) = 1" by (simp add: utf8_front_def lead_len_def second_ok_def split: list.split)
  with Cons utf8_valid_step [of "c # s"] show ?case by simp
qed simp

section \<open>File paths\<close>

text \<open>\<^verbatim>\<open>path/filepath\<close> on Unix.\<close>

definition path_parts :: "string \<Rightarrow> string list" where
  "path_parts p = filter (\<lambda>x. x \<noteq> []) (js_split CHR ''/'' p)"

definition is_abs :: "string \<Rightarrow> bool" where
  "is_abs p = (case p of [] \<Rightarrow> False | c # _ \<Rightarrow> c = CHR ''/'')"

fun join_parts :: "string list \<Rightarrow> string" where
  "join_parts [] = []"
| "join_parts [x] = x"
| "join_parts (x # xs) = x @ CHR ''/'' # join_parts xs"

text \<open>The accumulator holds the parts kept so far, the last one first.\<close>

fun clean_parts :: "bool \<Rightarrow> string list \<Rightarrow> string list \<Rightarrow> string list" where
  "clean_parts rooted kept [] = rev kept"
| "clean_parts rooted kept (x # xs) =
     (if x = ''.'' then clean_parts rooted kept xs
      else if x = ''..'' then
        (case kept of
           k # ks \<Rightarrow> if k \<noteq> ''..'' then clean_parts rooted ks xs else clean_parts rooted (''..'' # kept) xs
         | [] \<Rightarrow> if rooted then clean_parts rooted [] xs else clean_parts rooted [''..''] xs)
      else clean_parts rooted (x # kept) xs)"

definition go_clean :: "string \<Rightarrow> string" where
  "go_clean p =
     (let ps = clean_parts (is_abs p) [] (path_parts p)
      in if is_abs p then CHR ''/'' # join_parts ps else if ps = [] then ''.'' else join_parts ps)"

definition go_join :: "string \<Rightarrow> string \<Rightarrow> string" where
  "go_join a b = go_clean (if a = [] then b else a @ CHR ''/'' # b)"

definition go_base :: "string \<Rightarrow> string" where
  "go_base p =
     (if p = [] then ''.'' else case rev (path_parts p) of [] \<Rightarrow> ''/'' | x # _ \<Rightarrow> x)"

lemma js_split_append: "js_split c (a @ c # b) = js_split c a @ js_split c b"
proof (induction a rule: measure_induct_rule [of length])
  case (less a)
  show ?case
  proof (cases "c \<in> set a")
    case False
    then show ?thesis by (simp add: js_split_cons js_split_none)
  next
    case True
    then obtain u v where a: "a = u @ c # v" "c \<notin> set u" by (meson split_list_first)
    with less [of v] show ?thesis by (simp add: js_split_cons)
  qed
qed

lemma js_split_sep: "x \<in> set (js_split c s) \<Longrightarrow> c \<notin> set x"
proof (induction s rule: measure_induct_rule [of length])
  case (less s)
  show ?case
  proof (cases "c \<in> set s")
    case False
    with less.prems show ?thesis by (simp add: js_split_none)
  next
    case True
    then obtain u v where s: "s = u @ c # v" "c \<notin> set u" by (meson split_list_first)
    with less.prems less.IH [of v] show ?thesis by (auto simp: js_split_cons)
  qed
qed

lemma path_parts_append: "path_parts (a @ CHR ''/'' # b) = path_parts a @ path_parts b"
  by (simp add: path_parts_def js_split_append)

lemma path_parts_Nil [simp]: "path_parts [] = []"
  by (simp add: path_parts_def js_split_none)

lemma path_parts_slash [simp]: "path_parts (CHR ''/'' # p) = path_parts p"
  using path_parts_append [of "[]" p] by simp

lemma path_part: "x \<noteq> [] \<Longrightarrow> CHR ''/'' \<notin> set x \<Longrightarrow> path_parts x = [x]"
  by (simp add: path_parts_def js_split_none)

lemma path_parts_ok: "x \<in> set (path_parts p) \<Longrightarrow> x \<noteq> [] \<and> CHR ''/'' \<notin> set x"
  using js_split_sep [of x "CHR ''/''" p] by (auto simp: path_parts_def)

lemma path_parts_join:
  "(\<And>x. x \<in> set ps \<Longrightarrow> x \<noteq> [] \<and> CHR ''/'' \<notin> set x) \<Longrightarrow> path_parts (join_parts ps) = ps"
  by (induction ps rule: join_parts.induct) (simp_all add: path_part path_parts_append)

lemma clean_parts_keeps:
  "x \<in> set (clean_parts rooted kept xs) \<Longrightarrow> x \<in> set kept \<or> x \<in> set xs"
  by (induction rooted kept xs rule: clean_parts.induct) (auto split: if_splits list.splits)

lemma clean_parts_no_dots:
  "x \<in> set (clean_parts rooted kept xs) \<Longrightarrow> ''.'' \<notin> set kept \<Longrightarrow> x \<noteq> ''.''"
  by (induction rooted kept xs rule: clean_parts.induct) (auto split: if_splits list.splits)

lemma clean_parts_rooted:
  "x \<in> set (clean_parts True kept xs) \<Longrightarrow> ''..'' \<notin> set kept \<Longrightarrow> x \<noteq> ''..''"
  by (induction "True" kept xs rule: clean_parts.induct) (auto split: if_splits list.splits)

text \<open>A clean absolute path has no empty, \<^verbatim>\<open>.\<close> or \<^verbatim>\<open>..\<close> part.\<close>

lemma clean_parts_of:
  assumes "is_abs p"
  shows "path_parts (go_clean p) = clean_parts True [] (path_parts p)"
    and "is_abs (go_clean p)"
proof -
  have "path_parts (join_parts (clean_parts True [] (path_parts p))) = clean_parts True [] (path_parts p)"
    by (rule path_parts_join) (use clean_parts_keeps path_parts_ok in fastforce)
  with assms show "path_parts (go_clean p) = clean_parts True [] (path_parts p)"
    by (simp add: go_clean_def Let_def)
  show "is_abs (go_clean p)" using assms by (simp add: go_clean_def Let_def) (simp add: is_abs_def)
qed

lemma clean_abs:
  assumes "is_abs p" and "x \<in> set (path_parts (go_clean p))"
  shows "x \<noteq> ''..'' \<and> x \<noteq> ''.'' \<and> x \<noteq> []"
  using assms clean_parts_rooted [of x "[]" "path_parts p"] clean_parts_no_dots [of x True "[]" "path_parts p"]
    path_parts_ok [of x "go_clean p"] clean_parts_of [OF assms(1)] by auto

end
