(* ===== verification/PtyBridge.thy ===== *)
theory PtyBridge
  imports TerminalHook GoBase
begin

text \<open>
  The other end of a terminal's connection, \<^verbatim>\<open>src/internal/api/ws.go\<close>: how the server reads the frames of
  \<^verbatim>\<open>useTerminal.ts\<close> and what it does to the PTY with them, and how it cuts the output of the PTY into
  frames. The PTY and \<^verbatim>\<open>tmux\<close> behind it are outside: what is written to them is recorded, what they
  print is an argument. Bytes are characters.
\<close>

section \<open>Reading a frame\<close>

record wsIncoming =
  wi_type :: string
  wi_data :: string
  wi_cols :: "16 word"
  wi_rows :: "16 word"

definition unmarshal :: "json \<Rightarrow> wsIncoming option" where
  "unmarshal m =
     (case m of
        JNull \<Rightarrow> Some \<lparr>wi_type = [], wi_data = [], wi_cols = 0, wi_rows = 0\<rparr>
      | JObj ps \<Rightarrow>
          (case (go_string (get_prop m ''type''), go_string (get_prop m ''data''),
                 go_uint16 (get_prop m ''cols''), go_uint16 (get_prop m ''rows'')) of
             (Some t, Some d, Some c, Some r) \<Rightarrow> Some \<lparr>wi_type = t, wi_data = d, wi_cols = c, wi_rows = r\<rparr>
           | _ \<Rightarrow> None)
      | _ \<Rightarrow> None)"

section \<open>Routing a frame\<close>

text \<open>The PTY of a socket: what was written to it, its size, and the pongs sent back. \<open>pc_open\<close>: \<^verbatim>\<open>OnOpen\<close> has
  stored the PTY in the session of the socket.\<close>

record pty_conn =
  pc_open :: bool
  pc_in :: string
  pc_size :: "16 word \<times> 16 word"     \<comment> \<open>columns, rows\<close>
  pc_pongs :: nat

definition pty_opened :: pty_conn where
  "pty_opened = \<lparr>pc_open = True, pc_in = [], pc_size = (80, 24), pc_pongs = 0\<rparr>"

text \<open>The argument is the parsed text of the frame; \<open>None\<close>: it is not JSON.\<close>

definition OnMessage :: "json option \<Rightarrow> pty_conn \<Rightarrow> pty_conn" where
  "OnMessage frm p =
     (case Option.bind frm unmarshal of
        None \<Rightarrow> p
      | Some msg \<Rightarrow>
          if wi_type msg = ''ping'' then p\<lparr>pc_pongs := Suc (pc_pongs p)\<rparr>
          else if \<not> pc_open p then p
          else if wi_type msg = ''input'' then p\<lparr>pc_in := pc_in p @ wi_data msg\<rparr>
          else if wi_type msg = ''resize'' then
            (if wi_cols msg > 0 \<and> wi_rows msg > 0 then p\<lparr>pc_size := (wi_cols msg, wi_rows msg)\<rparr> else p)
          else p)"

section \<open>Client frames are well typed\<close>

text \<open>The frames of the protocol and their typing: a size is a whole number of 16 bits, not zero.\<close>

definition wire_num :: "jsnum \<Rightarrow> bool" where
  "wire_num x = (case x of Num q \<Rightarrow> q = of_int \<lfloor>q\<rfloor> \<and> 1 \<le> q \<and> q < 65536 | _ \<Rightarrow> False)"

definition wire_grid :: "jsnum \<times> jsnum \<Rightarrow> bool" where
  "wire_grid g = (wire_num (fst g) \<and> wire_num (snd g))"

inductive client_frame :: "json \<Rightarrow> bool" where
  frame_ping: "client_frame (JObj [(''type'', JStr ''ping'')])"
| frame_input: "client_frame (JObj [(''type'', JStr ''input''), (''data'', JStr d)])"
| frame_resize: "wire_num c \<Longrightarrow> wire_num r \<Longrightarrow>
    client_frame (JObj [(''type'', JStr ''resize''), (''cols'', JNum c), (''rows'', JNum r)])"

code_pred client_frame .

inductive_simps client_frame_resize [simp]: "client_frame (resize_msg c r)"

lemma wire_num_E:
  assumes "wire_num x"
  obtains n :: int where "x = Num (of_int n)" "1 \<le> n" "n < 65536"
proof -
  obtain q where q: "x = Num q" "q = of_int \<lfloor>q\<rfloor>" "1 \<le> q" "q < 65536"
    using assms by (cases x) (simp_all add: wire_num_def)
  have "1 \<le> \<lfloor>q\<rfloor>" "\<lfloor>q\<rfloor> < 65536" using q(3,4) by (simp_all add: le_floor_iff floor_less_iff)
  with q(1,2) that [of "\<lfloor>q\<rfloor>"] show ?thesis by simp
qed

lemma go_uint16_wire:
  assumes "x = Num (of_int n)" and "1 \<le> n" and "n < 65536"
  shows "go_uint16 (Some (JNum x)) = Some (word_of_int n)" and "word_of_int n > (0 :: 16 word)"
    and "uint (word_of_int n :: 16 word) = n"
proof -
  show u: "uint (word_of_int n :: 16 word) = n" using assms by (simp add: uint_word_of_int)
  show "word_of_int n > (0 :: 16 word)" using assms u by (simp add: word_less_def)
  have "(of_int n :: rat) < of_int 65536" using assms(3) by (simp only: of_int_less_iff)
  then show "go_uint16 (Some (JNum x)) = Some (word_of_int n)" using assms by simp
qed

interpretation typed: wire_law client_frame wire_grid
proof
  show "client_frame ping_msg" unfolding ping_msg_def by (rule frame_ping)
  show "client_frame (input_msg d)" for d unfolding input_msg_def by (rule frame_input)
  show "client_frame (resize_msg c r)" if "wire_grid (c, r)" for c r
  proof -
    have "json_num c = JNum c" "json_num r = JNum r" using that by (auto simp: wire_grid_def elim!: wire_num_E)
    then show ?thesis using that unfolding resize_msg_def by (auto simp: wire_grid_def intro: frame_resize)
  qed
qed

lemma json_num_iff [simp]: "json_num x = JNum (Num q) \<longleftrightarrow> x = Num q"
  by (cases x) auto

lemma resize_msg_eq:
  "resize_msg c r = resize_msg (Num a) (Num b) \<longleftrightarrow> c = Num a \<and> r = Num b"
  by (simp add: resize_msg_def)

lemma client_frame_cases [consumes 1, case_names ping input size]:
  assumes "client_frame m"
  obtains "m = ping_msg"
  | d where "m = input_msg d"
  | c r :: int where "m = resize_msg (Num (of_int c)) (Num (of_int r))" "1 \<le> c" "c < 65536" "1 \<le> r" "r < 65536"
  using assms
proof cases
  case (frame_resize c r)
  obtain c' r' :: int where "c = Num (of_int c')" "1 \<le> c'" "c' < 65536" "r = Num (of_int r')" "1 \<le> r'" "r' < 65536"
    using frame_resize by (metis wire_num_E)
  with frame_resize(1) that(3) [of c' r'] show ?thesis by (simp add: resize_msg_def)
qed (use that(1,2) in \<open>auto simp: ping_msg_def input_msg_def\<close>)

lemma unmarshal_frames [simp]:
  "unmarshal ping_msg = Some \<lparr>wi_type = ''ping'', wi_data = [], wi_cols = 0, wi_rows = 0\<rparr>"
  "unmarshal (input_msg d) = Some \<lparr>wi_type = ''input'', wi_data = d, wi_cols = 0, wi_rows = 0\<rparr>"
  by (simp_all add: unmarshal_def ping_msg_def input_msg_def)

lemma unmarshal_size:
  "1 \<le> c \<Longrightarrow> c < 65536 \<Longrightarrow> 1 \<le> r \<Longrightarrow> r < 65536 \<Longrightarrow>
     unmarshal (resize_msg (Num (of_int c)) (Num (of_int r)))
       = Some \<lparr>wi_type = ''resize'', wi_data = [], wi_cols = word_of_int c, wi_rows = word_of_int r\<rparr>"
  by (simp add: unmarshal_def resize_msg_def go_uint16_wire del: go_uint16.simps(3))

section \<open>The PTY follows the terminal\<close>

text \<open>The frames sent on one socket, in order, and what the server makes of them. A WebSocket delivers
  frames in order.\<close>

definition sent_on :: "nat \<Rightarrow> ws_out list \<Rightarrow> json list" where
  "sent_on i xs = List.map_filter (\<lambda>x. case x of SockSend j m \<Rightarrow> if j = i then Some m else None | _ \<Rightarrow> None) xs"

definition pty_serve :: "json list \<Rightarrow> pty_conn \<Rightarrow> pty_conn" where
  "pty_serve ms p = fold (\<lambda>m. OnMessage (Some m)) ms p"

definition pty_of :: "nat \<Rightarrow> hook_state \<Rightarrow> pty_conn" where
  "pty_of i h = pty_serve (sent_on i (out (h_conn h))) pty_opened"

lemma sent_on_append [simp]: "sent_on i (xs @ ys) = sent_on i xs @ sent_on i ys"
  by (simp add: sent_on_def List.map_filter_def)

lemma sent_on_single [simp]:
  "sent_on i [] = []" "sent_on i [SockSend j m] = (if j = i then [m] else [])"
  "\<not> (\<exists>m. x = SockSend i m) \<Longrightarrow> sent_on i [x] = []"
  by (auto simp: sent_on_def map_filter_simps split: ws_out.splits)

lemma pty_serve_append [simp]: "pty_serve (xs @ ys) p = pty_serve ys (pty_serve xs p)" "pty_serve [] p = p"
  "pty_serve [m] p = OnMessage (Some m) p"
  by (simp_all add: pty_serve_def)

text \<open>What a well-typed frame does to the PTY.\<close>

lemma OnMessage_typed:
  "OnMessage (Some ping_msg) p = p\<lparr>pc_pongs := Suc (pc_pongs p)\<rparr>"
  "pc_open p \<Longrightarrow> OnMessage (Some (input_msg d)) p = p\<lparr>pc_in := pc_in p @ d\<rparr>"
  "pc_open p \<Longrightarrow> 1 \<le> c \<Longrightarrow> c < 65536 \<Longrightarrow> 1 \<le> r \<Longrightarrow> r < 65536 \<Longrightarrow>
     OnMessage (Some (resize_msg (Num (of_int c)) (Num (of_int r)))) p
       = p\<lparr>pc_size := (word_of_int c, word_of_int r)\<rparr>"
  by (simp_all add: OnMessage_def unmarshal_size go_uint16_wire)

lemma pty_size_served:
  assumes "\<forall>x \<in> set xs. \<forall>m. x = SockSend i m \<longrightarrow> client_frame m"
  shows "pc_open (pty_serve (sent_on i xs) pty_opened)
    \<and> (\<forall>m. pty_size i xs = Some m \<longrightarrow> (\<exists>c r :: int. m = resize_msg (Num (of_int c)) (Num (of_int r))
          \<and> 1 \<le> c \<and> c < 65536 \<and> 1 \<le> r \<and> r < 65536
          \<and> pc_size (pty_serve (sent_on i xs) pty_opened) = (word_of_int c, word_of_int r)))"
  using assms
proof (induction xs rule: rev_induct)
  case Nil
  then show ?case by (simp add: pty_opened_def pty_size_def)
next
  case (snoc x xs)
  let ?p = "pty_serve (sent_on i xs) pty_opened"
  have ih: "pc_open ?p" "\<And>m. pty_size i xs = Some m \<Longrightarrow> \<exists>c r :: int. m = resize_msg (Num (of_int c)) (Num (of_int r))
      \<and> 1 \<le> c \<and> c < 65536 \<and> 1 \<le> r \<and> r < 65536 \<and> pc_size ?p = (word_of_int c, word_of_int r)"
    using snoc by auto
  show ?case
  proof (cases "\<exists>m. x = SockSend i m")
    case False
    then have "sent_on i [x] = []" by simp
    moreover from False have "size_step i x (pty_size i xs) = pty_size i xs"
      by (cases x) (auto simp: size_step_def)
    ultimately show ?thesis using ih by simp
  next
    case True
    then obtain m where m: "x = SockSend i m" by blast
    then have "client_frame m" using snoc.prems by simp
    then show ?thesis
    proof (cases rule: client_frame_cases)
      case (size c r)
      then show ?thesis using m ih(1) by (auto simp: OnMessage_typed size_step_def)
    qed (use m ih in \<open>simp_all add: OnMessage_typed size_step_def\<close>)
  qed
qed


lemma plain_fit_wire [simp]: "fits_to wire_grid plain_fit g"
  by (simp add: fits_to_def wire_grid_def wire_num_def)


definition input_data :: "json \<Rightarrow> string option" where
  "input_data m = (case unmarshal m of None \<Rightarrow> None | Some msg \<Rightarrow> if wi_type msg = ''input'' then Some (wi_data msg) else None)"

lemma pty_input_served:
  assumes "\<forall>x \<in> set xs. \<forall>m. x = SockSend i m \<longrightarrow> client_frame m"
  shows "pc_in (pty_serve (sent_on i xs) pty_opened) = concat (List.map_filter input_data (sent_on i xs))"
  using assms
proof (induction xs rule: rev_induct)
  case Nil
  then show ?case by (simp add: pty_opened_def map_filter_simps)
next
  case (snoc x xs)
  show ?case
  proof (cases "\<exists>m. x = SockSend i m")
    case False
    with snoc show ?thesis by (simp add: List.map_filter_def)
  next
    case True
    then obtain m where m: "x = SockSend i m" by blast
    then have "client_frame m" using snoc.prems by simp
    moreover have "pc_open (pty_serve (sent_on i xs) pty_opened)" using pty_size_served [of xs i] snoc.prems by simp
    ultimately show ?thesis
      using m snoc
      by (cases rule: client_frame_cases) (auto simp: OnMessage_typed List.map_filter_def input_data_def unmarshal_size)
  qed
qed

text \<open>
  C3. The PTY of the live socket is a faithful copy of the terminal: it has the terminal's size
  exactly (a fit is only held back by a composition), and it has been written exactly the input
  sent on that socket, in order. What is typed next while the socket is open is appended,
  except for a malformed mouse report.
\<close>

theorem pty_follows_terminal:
  assumes "hook_mount (hook_cfg secure hst wsId tmId) g0 stack fsize focused env = Some h0"
    and "fits_to wire_grid env g0" and "\<And>g. wire_grid g \<Longrightarrow> fits_to wire_grid env g"
    and "run_ok (hook_step (hook_cfg secure hst wsId tmId)) (wire_ok wire_grid) h0 es"
    and "h = run (hook_step (hook_cfg secure hst wsId tmId)) h0 es"
    and "mounted h" and "live_sock (h_conn h) = Some i"
  shows "(if pendingFit h then composing h
      else grid h = (Num (of_int (uint (fst (pc_size (pty_of i h))))), Num (of_int (uint (snd (pc_size (pty_of i h)))))))
    \<and> pc_in (pty_of i h) = concat (List.map_filter input_data (sent_on i (out (h_conn h))))
    \<and> pc_in (pty_of i (hook_step (hook_cfg secure hst wsId tmId) h (TermData d)))
        = pc_in (pty_of i h) @ (if malformed_mouse d then [] else d)"
proof -
  have frames: "\<forall>x \<in> set (out (h_conn h)). \<forall>m. x = SockSend i m \<longrightarrow> client_frame m"
    and inv: "hook_inv h"
    using typed.wired_run [OF assms(1-4)] assms(5) by (auto simp: sent_all_def)
  have told: "\<not> pendingFit h \<Longrightarrow> pty_size i (out (h_conn h)) = Some (resize_msg (fst (grid h)) (snd (grid h)))"
    using inv assms(6,7) by (simp add: hook_inv_def size_known_def)
  have size: "pendingFit h \<or> grid h = (Num (of_int (uint (fst (pc_size (pty_of i h))))), Num (of_int (uint (snd (pc_size (pty_of i h))))))"
  proof (cases "pendingFit h")
    case False
    then obtain c r :: int where "resize_msg (fst (grid h)) (snd (grid h)) = resize_msg (Num (of_int c)) (Num (of_int r))"
      and b: "1 \<le> c" "c < 65536" "1 \<le> r" "r < 65536" and sz: "pc_size (pty_of i h) = (word_of_int c, word_of_int r)"
      using pty_size_served [OF frames] told [OF False] unfolding pty_of_def by blast
    then have "grid h = (Num (of_int c), Num (of_int r))" by (cases "grid h") (simp add: resize_msg_eq)
    moreover have "uint (word_of_int c :: 16 word) = c" "uint (word_of_int r :: 16 word) = r"
      using b by (simp_all add: uint_word_of_int)
    ultimately show ?thesis unfolding sz by (simp only: fst_conv snd_conv simp_thms)
  qed simp
  have "pc_open (pty_of i h)" using pty_size_served [OF frames] by (simp add: pty_of_def)
  moreover have "sent_on i (out (h_conn (hook_step (hook_cfg secure hst wsId tmId) h (TermData d))))
      = sent_on i (out (h_conn h)) @ (if malformed_mouse d then [] else [input_msg d])"
    using assms(6,7) by (simp add: on_data_def)
  ultimately have "pc_in (pty_of i (hook_step (hook_cfg secure hst wsId tmId) h (TermData d)))
        = pc_in (pty_of i h) @ (if malformed_mouse d then [] else d)"
    by (simp add: pty_of_def OnMessage_typed del: hook_step.simps)
  moreover have "pendingFit h \<Longrightarrow> composing h" using inv by (simp add: hook_inv_def)
  ultimately show ?thesis
    using size pty_input_served [OF frames] by (auto simp: pty_of_def simp del: hook_step.simps of_int_uint)
qed

theorem pty_follows_terminal_witness:
  "pc_in (pty_of 0 (run (hook_step (hook_cfg False ''h'' ''w'' ''t'')) demo_hook
     ([Browser (SockOpened 0) plain_fit] @ [TermData ''ls'']))) = ''ls''"
proof -
  let ?h = "run (hook_step (hook_cfg False ''h'' ''w'' ''t'')) demo_hook [Browser (SockOpened 0) plain_fit]"
  have ok: "run_ok (hook_step (hook_cfg False ''h'' ''w'' ''t'')) (wire_ok wire_grid) demo_hook [Browser (SockOpened 0) plain_fit]"
    by (simp add: wire_ok_def hook_ok_def client_call_def)
  have st: "mounted ?h" "live_sock (h_conn ?h) = Some 0" "sent_on 0 (out (h_conn ?h)) = [resize_msg (Num 80) (Num 24)]"
    by (simp_all add: hook_eval demo_hook_def term_do_def sent_on_def map_filter_simps)
  have "input_data (resize_msg (Num 80) (Num 24)) = None"
    using unmarshal_size [of 80 24] by (simp add: input_data_def)
  with pty_follows_terminal [OF demo_mount _ _ ok refl st(1,2), of "''ls''"] st(3)
  show ?thesis by (simp add: malformed_at_def starts_with_def map_filter_simps del: hook_step.simps)
qed

section \<open>The output of the PTY\<close>

text \<open>The loop tries the last three positions from the right.\<close>

definition validUTF8Prefix :: "string \<Rightarrow> nat" where
  "validUTF8Prefix b =
     (if utf8_valid b then length b
      else or_else (find (\<lambda>i. utf8_valid (take i b)) (rev [length b - 3 ..< length b])) 0)"

definition ptyReadSize :: nat where "ptyReadSize = 32 * 1024"

record pipe_state =
  pi_pending :: string
  pi_frames :: "string list"       \<comment> \<open>the data of the frames written to the socket\<close>

text \<open>One read of the loop of \<^verbatim>\<open>pipePTYToSocket\<close>.\<close>

definition pipe_read :: "string \<Rightarrow> pipe_state \<Rightarrow> pipe_state" where
  "pipe_read buf p =
     (if buf = [] then p
      else let p1 = pi_pending p @ buf;
               p2 = (if length p1 > ptyReadSize * 2 then drop (length p1 - 3) p1 else p1);
               valid = validUTF8Prefix p2
           in if valid > 0 then \<lparr>pi_pending = drop valid p2, pi_frames = pi_frames p @ [take valid p2]\<rparr>
              else p\<lparr>pi_pending := p2\<rparr>)"

definition pipe_start :: pipe_state where "pipe_start = \<lparr>pi_pending = [], pi_frames = []\<rparr>"

lemma validUTF8Prefix_eq:
  assumes "utf8_valid t'" and "prefix r t'" and "r = [] \<or> length r < utf8_len t'" and "utf8_valid c"
  shows "validUTF8Prefix (c @ r) = length c" and "length r \<le> 3"
proof -
  show len: "length r \<le> 3" using assms(3) utf8_len_bound [of t'] by auto
  show "validUTF8Prefix (c @ r) = length c"
  proof (cases "r = []")
    case True
    with assms(4) show ?thesis by (simp add: validUTF8Prefix_def)
  next
    case False
    have bad: "\<not> utf8_valid (take i (c @ r))" if "length c < i" "i \<le> length (c @ r)" for i
    proof -
      let ?q = "take (i - length c) r"
      have "?q \<noteq> []" "length ?q < utf8_len t'" using that False assms(3) by auto
      moreover have "prefix ?q t'" by (rule prefix_order.trans [OF take_is_prefix assms(2)])
      ultimately have "?q \<noteq> []" "utf8_len ?q = 0" using utf8_len_short [of ?q t'] by blast+
      then have "\<not> utf8_valid ?q" using utf8_valid_step [of ?q] by blast
      moreover have "take i (c @ r) = c @ ?q" using that by simp
      ultimately show ?thesis using utf8_valid_append [OF assms(4), of ?q] by simp
    qed
    have "rev [length (c @ r) - 3 ..< length (c @ r)] =
        rev [Suc (length c) ..< length (c @ r)] @ length c # rev [length (c @ r) - 3 ..< length c]"
    proof -
      have "[length (c @ r) - 3 ..< length (c @ r)] =
          [length (c @ r) - 3 ..< length c] @ [length c ..< length (c @ r)]"
        using len upt_add_eq_append [of "length (c @ r) - 3" "length c" "length r"] by simp
      also have "[length c ..< length (c @ r)] = length c # [Suc (length c) ..< length (c @ r)]"
        using False by (simp add: upt_conv_Cons)
      finally show ?thesis by simp
    qed
    moreover have "find P (xs @ y # ys) = Some y" if "P y" "\<forall>x \<in> set xs. \<not> P x" for P and xs ys and y :: nat
      using that by (induction xs) auto
    ultimately have "find (\<lambda>i. utf8_valid (take i (c @ r))) (rev [length (c @ r) - 3 ..< length (c @ r)]) = Some (length c)"
      using bad assms(4) by simp
    then show ?thesis using bad [of "length (c @ r)"] False by (simp add: validUTF8Prefix_def)
  qed
qed

definition pipe_inv :: "string \<Rightarrow> string \<Rightarrow> pipe_state \<Rightarrow> bool" where
  "pipe_inv stream got p =
     (concat (pi_frames p) @ pi_pending p = got \<and> list_all utf8_valid (pi_frames p) \<and> [] \<notin> set (pi_frames p)
      \<and> length (pi_pending p) \<le> 3
      \<and> (\<exists>t. stream = concat (pi_frames p) @ t \<and> utf8_valid t \<and> prefix (pi_pending p) t))"

lemma pipe_inv_read:
  assumes inv: "pipe_inv stream got p" and pre: "prefix (got @ buf) stream" and len: "length buf \<le> ptyReadSize"
  shows "pipe_inv stream (got @ buf) (pipe_read buf p)"
proof (cases "buf = []")
  case True
  with inv show ?thesis by (simp add: pipe_read_def)
next
  case False
  obtain t where t: "stream = concat (pi_frames p) @ t" "utf8_valid t" "prefix (pi_pending p) t"
    and got: "concat (pi_frames p) @ pi_pending p = got" and fr: "list_all utf8_valid (pi_frames p)" "[] \<notin> set (pi_frames p)"
    and short: "length (pi_pending p) \<le> 3"
    using inv by (auto simp: pipe_inv_def)
  let ?q = "pi_pending p @ buf"
  have "prefix ?q t" using pre t(1) by (simp flip: got)
  from utf8_prefix [OF t(2) this] obtain c r t' where crt: "?q = c @ r" "t = c @ t'" "utf8_valid c" "utf8_valid t'"
    "prefix r t'" "r = [] \<or> length r < utf8_len t'" by blast
  note vp = validUTF8Prefix_eq [OF crt(4-6,3)]
  have "\<not> length ?q > ptyReadSize * 2" using short len by (simp add: ptyReadSize_def)
  then have read: "pipe_read buf p =
      (if c \<noteq> [] then \<lparr>pi_pending = r, pi_frames = pi_frames p @ [c]\<rparr> else p\<lparr>pi_pending := r\<rparr>)"
    using False vp(1) by (simp add: pipe_read_def Let_def crt(1))
  show ?thesis
    unfolding read pipe_inv_def using fr vp(2) crt t(1) by (cases "c = []") (auto simp flip: got)
qed

lemma pipe_inv_run:
  assumes "pipe_inv stream got p" and "prefix (got @ concat bufs) stream" and "\<forall>b \<in> set bufs. length b \<le> ptyReadSize"
  shows "pipe_inv stream (got @ concat bufs) (fold pipe_read bufs p)"
  using assms
proof (induction bufs arbitrary: got p)
  case (Cons b bufs)
  have "prefix (got @ b) stream" using Cons.prems(2) by (auto simp: prefix_def)
  with Cons pipe_inv_read [of stream got p b] have "pipe_inv stream (got @ b) (pipe_read b p)" by simp
  with Cons.IH [OF this] Cons.prems show ?case by simp
qed simp

text \<open>The frame the server sends, and what the pane does with it.\<close>

definition wsOutput_msg :: "string \<Rightarrow> json" where
  "wsOutput_msg d = JObj [(''type'', JStr ''output''), (''data'', JStr d)]"

definition deliver :: "nat \<Rightarrow> fit_env \<Rightarrow> string \<Rightarrow> hook_event" where
  "deliver i env d = Browser (SockMessage i (TextFrame (Some (wsOutput_msg d)))) env"

lemma deliver_step:
  assumes "hook_inv h" and "live_sock (h_conn h) = Some i"
  shows "hook_step cfg h (deliver i env d)
     = term_do (TermWrite d) (h\<lparr>h_conn := emit (CbMessage (wsOutput_msg d)) (h_conn h)\<rparr>)"
proof -
  have s: "socket (h_conn h) = Some i" "sock_ready i (h_conn h) = OPEN" using live_current [OF assms(2)] by auto
  then have "i < length (socks (h_conn h))" by (auto simp: sock_ready_def split: if_splits)
  moreover have "sock_inv (h_conn h)" using assms(1) by (simp add: hook_inv_def ws_inv_def)
  ultimately have "onmessage (socks (h_conn h) ! i)" using s by (auto simp: sock_inv_def)
  with \<open>i < length (socks (h_conn h))\<close> s show ?thesis
    by (simp add: deliver_def hook_conn_step_def Let_def ws_onmessage_def isPong_def wsOutput_msg_def emit_def
        hook_onMessage_def output_data_def)
qed

lemma live_emit: "live_sock (emit x c) = live_sock c"
  by (cases "socket c") (simp_all add: live_sock_def emit_def sock_ready_def)

lemma deliver_inv:
  assumes "hook_inv h" and "live_sock (h_conn h) = Some i" and "fitFullWidth env (grid h) \<noteq> FitThrows"
  shows "hook_inv (hook_step (hook_cfg secure hst wsId tmId) h (deliver i env d))"
    and "live_sock (h_conn (hook_step (hook_cfg secure hst wsId tmId) h (deliver i env d))) = Some i"
    and "grid (hook_step (hook_cfg secure hst wsId tmId) h (deliver i env d)) = grid h"
    and "screen (hook_step (hook_cfg secure hst wsId tmId) h (deliver i env d)) = screen h @ [TermWrite d]"
proof -
  have "hook_ok h (deliver i env d)" using assms(3) by (simp add: deliver_def hook_ok_def client_call_def)
  with assms(1) show "hook_inv (hook_step (hook_cfg secure hst wsId tmId) h (deliver i env d))" by (rule hook_inv_step)
  show "live_sock (h_conn (hook_step (hook_cfg secure hst wsId tmId) h (deliver i env d))) = Some i"
    "grid (hook_step (hook_cfg secure hst wsId tmId) h (deliver i env d)) = grid h"
    "screen (hook_step (hook_cfg secure hst wsId tmId) h (deliver i env d)) = screen h @ [TermWrite d]"
    using assms(2) unfolding deliver_step [OF assms(1,2)] by (simp_all add: term_do_def live_emit)
qed

lemma delivered:
  assumes "hook_inv h" and "live_sock (h_conn h) = Some i" and "fitFullWidth env (grid h) \<noteq> FitThrows"
  shows "screen (run (hook_step (hook_cfg secure hst wsId tmId)) h (map (deliver i env) ds)) = screen h @ map TermWrite ds"
  using assms
proof (induction ds arbitrary: h)
  case (Cons d ds)
  note one = deliver_inv [OF Cons.prems, of secure hst wsId tmId d]
  have "fitFullWidth env (grid (hook_step (hook_cfg secure hst wsId tmId) h (deliver i env d))) \<noteq> FitThrows"
    using Cons.prems(3) one(3) by simp
  from Cons.IH [OF one(1,2) this] one(4) show ?case by simp
qed simp

text \<open>
  C7. Nothing the shell prints is lost, reordered or torn: however the reads of the PTY cut the
  stream, even inside a character, every frame the server sends is valid UTF-8, at most three
  bytes wait for the rest of their character, and the terminal is given exactly the
  printed bytes, in order. (For output that is UTF-8; see \<open>pipe_stalls\<close>.)
\<close>

theorem pty_output_lossless:
  assumes "utf8_valid stream" and "prefix (concat bufs) stream" and "\<forall>b \<in> set bufs. length b \<le> ptyReadSize"
    and "p = fold pipe_read bufs pipe_start"
    and "hook_inv h" and "live_sock (h_conn h) = Some i" and "fitFullWidth env (grid h) \<noteq> FitThrows"
  shows "screen (run (hook_step (hook_cfg secure hst wsId tmId)) h (map (deliver i env) (pi_frames p)))
          = screen h @ map TermWrite (pi_frames p)
    \<and> concat (pi_frames p) @ pi_pending p = concat bufs
    \<and> list_all utf8_valid (pi_frames p) \<and> [] \<notin> set (pi_frames p) \<and> length (pi_pending p) \<le> 3"
proof -
  have "pipe_inv stream ([] @ concat bufs) p"
    unfolding assms(4) using assms(1-3) by (intro pipe_inv_run) (simp_all add: pipe_inv_def pipe_start_def)
  with delivered [OF assms(5-7)] show ?thesis by (simp add: pipe_inv_def)
qed

theorem pty_output_lossless_witness:
  "pi_frames (fold pipe_read [[CHR 0x24, CHR 0xC3], [CHR 0xA9]] pipe_start) = [[CHR 0x24], [CHR 0xC3, CHR 0xA9]]
   \<and> screen (run (hook_step (hook_cfg False ''h'' ''w'' ''t'')) (run (hook_step (hook_cfg False ''h'' ''w'' ''t'')) demo_hook [Browser (SockOpened 0) plain_fit])
       (map (deliver 0 plain_fit) [[CHR 0x24], [CHR 0xC3, CHR 0xA9]])) = [TermFocus, TermWrite [CHR 0x24], TermWrite [CHR 0xC3, CHR 0xA9]]"
proof -
  let ?h = "run (hook_step (hook_cfg False ''h'' ''w'' ''t'')) demo_hook [Browser (SockOpened 0) plain_fit]"
  let ?s = "[CHR 0x24, CHR 0xC3, CHR 0xA9]"
  have h: "hook_inv ?h" by (rule hook_run.run_inv [OF mount_inv [OF demo_mount]]) (simp add: hook_ok_def client_call_def)
  have st: "live_sock (h_conn ?h) = Some 0" "screen ?h = [TermFocus]"
    by (simp_all add: hook_eval demo_hook_def term_do_def)
  have chars: "utf8_valid [CHR 0xC3, CHR 0xA9]" "\<not> utf8_valid [CHR 0xC3]" "\<not> utf8_valid [CHR 0x24, CHR 0xC3]"
      "utf8_valid [CHR 0x24]" "utf8_valid ?s"
    by (simp_all add: utf8_valid.simps utf8_front_def lead_len_def second_ok_def in_range_def)
  let ?p = "fold pipe_read [[CHR 0x24, CHR 0xC3], [CHR 0xA9]] pipe_start"
  have fr: "pi_frames ?p = [[CHR 0x24], [CHR 0xC3, CHR 0xA9]]"
    using chars by (simp add: pipe_read_def pipe_start_def ptyReadSize_def validUTF8Prefix_def Let_def upt_rec)
  with pty_output_lossless [of ?s "[[CHR 0x24, CHR 0xC3], [CHR 0xA9]]" ?p ?h 0 plain_fit False "''h''" "''w''" "''t''"]
    chars h st show ?thesis by (simp add: ptyReadSize_def del: hook_step.simps run.simps fold.simps)
qed

text \<open>
  A byte that is not UTF-8 stops the output: \<open>validUTF8Prefix\<close> only looks at the last three positions, so
  once three more bytes follow it finds no valid prefix, and nothing is sent until 64 KB have
  been printed, which are then thrown away.
\<close>

theorem pipe_stalls:
  assumes "3 \<le> length s" and "length s + length (concat bufs) < 65536"
  shows "pi_frames (fold pipe_read ((CHR 0xFF # s) # bufs) pipe_start) = []"
proof -
  have bad: "\<not> utf8_valid (CHR 0xFF # x)" for x
    using utf8_valid_step [of "CHR 0xFF # x"] by (simp add: utf8_front_def lead_len_def in_range_def)
  have none: "validUTF8Prefix (CHR 0xFF # x) = 0" if "3 \<le> length x" for x
  proof -
    have "\<not> utf8_valid (take i (CHR 0xFF # x))" if "i \<in> set (rev [length (CHR 0xFF # x) - 3 ..< length (CHR 0xFF # x)])" for i
    proof -
      have "i \<noteq> 0" using that \<open>3 \<le> length x\<close> by auto
      then obtain j where "i = Suc j" by (cases i) auto
      with bad show ?thesis by simp
    qed
    then have "find (\<lambda>i. utf8_valid (take i (CHR 0xFF # x))) (rev [length (CHR 0xFF # x) - 3 ..< length (CHR 0xFF # x)]) = None"
      unfolding find_None_iff by blast
    with bad show ?thesis by (simp add: validUTF8Prefix_def)
  qed
  have stuck: "pi_frames (fold pipe_read bufs \<lparr>pi_pending = CHR 0xFF # x, pi_frames = []\<rparr>) = []"
    if "3 \<le> length x" "length x + length (concat bufs) < 65536" for x
    using that(1,2)
  proof (induction bufs arbitrary: x)
    case (Cons b bufs)
    have "pipe_read b \<lparr>pi_pending = CHR 0xFF # x, pi_frames = []\<rparr> = \<lparr>pi_pending = CHR 0xFF # (x @ b), pi_frames = []\<rparr>"
      using none [of "x @ b"] Cons.prems by (simp add: pipe_read_def Let_def ptyReadSize_def)
    with Cons show ?case by simp
  qed simp
  have "pipe_read (CHR 0xFF # s) pipe_start = \<lparr>pi_pending = CHR 0xFF # s, pi_frames = []\<rparr>"
    using none [OF assms(1)] assms(2) by (simp add: pipe_read_def pipe_start_def Let_def ptyReadSize_def)
  with stuck [OF assms] show ?thesis by simp
qed

end
