(* ===== verification/AppShell.thy ===== *)
theory AppShell
  imports Tree PaneParts Login Page
begin

text \<open>
  The whole application of \<^verbatim>\<open>App.tsx\<close> as the user meets it: the login page (\<open>Login\<close>) and the application
  (\<open>Hub\<close>) behind one \<open>authed\<close>, and every control that is on the page -- those of \<^verbatim>\<open>Sidebar.tsx\<close>, of the rows
  of \<^verbatim>\<open>SessionTree.tsx\<close>, of the panes' headers and of the empty main region -- with what a click on it
  does. The controls there are is a function of the state, as the markup is.
\<close>

section \<open>State\<close>

record shell =
  sl_authed :: "bool option"
  sl_login :: login_state
  sl_hub :: hub
  sl_rename :: "rename_target option"
  sl_wizard :: bool                    \<comment> \<open>\<open>wizardOpen\<close>\<close>
  sl_menu :: menu_state
  sl_mobile :: bool
  sl_wide :: bool

definition shell_init :: "id_world \<Rightarrow> json option \<Rightarrow> bool \<Rightarrow> bool \<Rightarrow> shell" where
  "shell_init w srv mobile broad =
     \<lparr>sl_authed = None, sl_login = login_mount, sl_hub = hub_init w srv mobile, sl_rename = None,
      sl_wizard = False, sl_menu = menu_mount, sl_mobile = mobile, sl_wide = broad\<rparr>"

section \<open>Controls\<close>

datatype control =
    Backdrop | NavAdd | NavClose | BodyAdd | ToggleSidebar | LogoutButton
  | MenuButtonControl | MenuStatsControl
  | WsToggle Workspace | WsRename Workspace | WsAdd Workspace | WsDelete Workspace
  | TmSelect Workspace Terminal | TmCopy Workspace Terminal | TmRename Workspace Terminal
  | TmDelete Workspace Terminal
  | PaneControl string header_action | ClosePicker string
  | EmptyMenu | EmptyCta

definition tm_controls :: "Workspace \<Rightarrow> Terminal \<Rightarrow> control list" where
  "tm_controls w tm = [TmSelect w tm, TmCopy w tm, TmRename w tm, TmDelete w tm]"

definition ws_controls :: "Workspace \<Rightarrow> control list" where
  "ws_controls w = [WsToggle w, WsRename w, WsAdd w, WsDelete w] @ concat (map (tm_controls w) (terminals w))"

definition tree_controls :: "Workspace list \<Rightarrow> control list" where
  "tree_controls wss = concat (map ws_controls wss)"

definition sidebar_controls :: "shell \<Rightarrow> control list" where
  "sidebar_controls s =
     [NavAdd] @ (if sl_mobile s then [NavClose] else []) @ [BodyAdd]
       @ (if length (workspaces (sl_hub s)) = 0 then [] else tree_controls (workspaces (sl_hub s)))
       @ [MenuButtonControl] @ (if settingsOpen (sl_menu s) then [MenuStatsControl] else [])
       @ [LogoutButton, ToggleSidebar]"

fun pane_controls :: "bool \<Rightarrow> pane_view \<Rightarrow> control list" where
  "pane_controls splitEnabled (TerminalView i r foc) = map (PaneControl i) (header_actions splitEnabled)"
| "pane_controls splitEnabled (PickerView i) = (if splitEnabled then [ClosePicker i] else [])"

fun region_controls :: "string \<Rightarrow> main_region \<Rightarrow> control list" where
  "region_controls foc (SplitMain v) = concat (map (pane_controls True) (view_panes v))"
| "region_controls foc (SingleMain r) = pane_controls False (TerminalView foc r True)"
| "region_controls foc EmptyMain = [EmptyMenu, EmptyCta]"

text \<open>On a phone the closed drawer is inert.\<close>

definition page_controls :: "shell \<Rightarrow> control list" where
  "page_controls s =
     (if app_page (sl_authed s) \<noteq> AppPage then []
      else (if sl_mobile s \<and> \<not> sidebarCollapsed (sl_hub s) then [Backdrop] else [])
        @ (if sl_mobile s \<and> sidebarCollapsed (sl_hub s) then [] else sidebar_controls s)
        @ region_controls (focusedPaneId (lay (sl_hub s))) (main_view (sl_wide s) (sl_hub s)))"

definition on_hub :: "(hub \<Rightarrow> hub) \<Rightarrow> shell \<Rightarrow> shell" where
  "on_hub f s = s\<lparr>sl_hub := f (sl_hub s)\<rparr>"

definition toggle_sidebar :: "hub \<Rightarrow> hub" where
  "toggle_sidebar h = h\<lparr>sidebarCollapsed := \<not> sidebarCollapsed h\<rparr>"

fun press :: "control \<Rightarrow> shell \<Rightarrow> shell" where
  "press Backdrop s = on_hub toggle_sidebar s"
| "press NavAdd s = s\<lparr>sl_wizard := True\<rparr>"
| "press NavClose s = on_hub toggle_sidebar s"
| "press BodyAdd s = s\<lparr>sl_wizard := True\<rparr>"
| "press ToggleSidebar s = on_hub toggle_sidebar s"
| "press LogoutButton s = on_hub (start_task LogoutTask) s"
| "press MenuButtonControl s = s\<lparr>sl_menu := toggle_menu (sl_menu s)\<rparr>"
| "press MenuStatsControl s = s\<lparr>sl_menu := open_stats (sl_menu s)\<rparr>"
| "press (WsToggle w) s = on_hub (toggleExpanded (ws_id w)) s"
| "press (WsRename w) s = s\<lparr>sl_rename := Some (RenameWorkspace (ws_id w))\<rparr>"
| "press (WsAdd w) s = on_hub (handleAddTerminal w) s"
| "press (WsDelete w) s = on_hub (ask_user (DeleteWs w)) s"
| "press (TmSelect w tm) s = on_hub (selectTerminal (sl_mobile s) w tm) s"
| "press (TmCopy w tm) s = s"
| "press (TmRename w tm) s = s\<lparr>sl_rename := Some (RenameTerminal (ws_id w) (tm_id tm))\<rparr>"
| "press (TmDelete w tm) s = on_hub (ask_user (DeleteTm w tm)) s"
| "press (PaneControl i a) s = on_hub (\<lambda>h. snd (header_do i a (\<lparr>showFiles = False, paneKeys = False\<rparr>, h))) s"
| "press (ClosePicker i) s = on_hub (\<lambda>h. h\<lparr>lay := closePane i (lay h)\<rparr>) s"
| "press EmptyMenu s = on_hub (\<lambda>h. h\<lparr>sidebarCollapsed := False\<rparr>) s"
| "press EmptyCta s = s\<lparr>sl_wizard := True\<rparr>"

section \<open>Logging in and out\<close>

text \<open>A page that appears starts anew: the sidebar with its menu and rename field, the login form.\<close>

definition enter :: "shell \<Rightarrow> shell" where
  "enter s = s\<lparr>sl_authed := Some True, sl_hub := authenticated (sl_hub s), sl_menu := menu_mount, sl_rename := None\<rparr>"

definition leave :: "shell \<Rightarrow> shell" where
  "leave s = (if sl_authed s = Some False then s else s\<lparr>sl_authed := Some False, sl_login := login_mount\<rparr>)"

definition auth_checked :: "bool \<Rightarrow> shell \<Rightarrow> shell" where
  "auth_checked ok s = (if ok then enter s else leave s)"

definition login_event_at :: "login_event \<Rightarrow> shell \<Rightarrow> shell" where
  "login_event_at e s =
     (if app_page (sl_authed s) \<noteq> LoginPage then s
      else let l = login_step (sl_login s) e; s1 = s\<lparr>sl_login := l\<rparr>
           in if lg_entered (sl_login s) < lg_entered l then enter s1 else s1)"

text \<open>An answer to the logout request ends in \<open>setAuthed(false)\<close> whatever it was.\<close>

definition hub_event_at :: "hub_event \<Rightarrow> shell \<Rightarrow> shell" where
  "hub_event_at e s =
     (let s1 = on_hub (\<lambda>h. hub_step h e) s
      in case e of
           Done k res \<Rightarrow> if map_of (tasks (sl_hub s)) k = Some LogoutTask then leave s1 else s1
         | CommitRename tg v \<Rightarrow> s1\<lparr>sl_rename := None\<rparr>
         | WizardCreated w \<Rightarrow> s1\<lparr>sl_wizard := False\<rparr>
         | _ \<Rightarrow> s1)"

section \<open>Events\<close>

datatype shell_event =
    AuthChecked bool              \<comment> \<open>the answer to \<open>checkAuth\<close>, once\<close>
  | LoginPageEvent login_event
  | Press control
  | AppEvent hub_event            \<comment> \<open>answers, dialogs, layout, rename field, wizard\<close>
  | MenuEvent menu_event
  | MobileChanged bool
  | WideChanged bool
  | WizardClosed

fun shell_step :: "shell \<Rightarrow> shell_event \<Rightarrow> shell" where
  "shell_step s (AuthChecked ok) = auth_checked ok s"
| "shell_step s (LoginPageEvent e) = login_event_at e s"
| "shell_step s (Press c) = (if c \<in> set (page_controls s) then press c s else s)"
| "shell_step s (AppEvent e) = hub_event_at e s"
| "shell_step s (MenuEvent e) = s\<lparr>sl_menu := menu_step (sl_menu s) e\<rparr>"
| "shell_step s (MobileChanged b) = s\<lparr>sl_mobile := b\<rparr>"
| "shell_step s (WideChanged b) = s\<lparr>sl_wide := b\<rparr>"
| "shell_step s WizardClosed = s\<lparr>sl_wizard := False\<rparr>"

text \<open>What the environment can deliver: the check is answered once, the two ways in and out are the
  shell's own, and a query that says narrow phone excludes the one that says wide.\<close>

definition hub_own :: "hub_event \<Rightarrow> bool" where
  "hub_own e = (case e of Authenticated \<Rightarrow> True | Logout \<Rightarrow> True | OnLayout (SetAuthed b) \<Rightarrow> True | _ \<Rightarrow> False)"

definition shell_ok :: "shell \<Rightarrow> shell_event \<Rightarrow> bool" where
  "shell_ok s e =
     (case e of
        AuthChecked ok \<Rightarrow> sl_authed s = None
      | AppEvent he \<Rightarrow> hub_ok (sl_hub s) he \<and> \<not> hub_own he
      | MenuEvent m \<Rightarrow> m \<noteq> MenuButton \<and> m \<noteq> MenuStats
      | MobileChanged b \<Rightarrow> \<not> (b \<and> sl_wide s)
      | WideChanged b \<Rightarrow> \<not> (b \<and> sl_mobile s)
      | _ \<Rightarrow> True)"

section \<open>The gate\<close>

lemma layout_authed:
  "(\<And>b. e \<noteq> SetAuthed b) \<Longrightarrow> ls_authed (layout_step l e) = ls_authed l"
  by (cases e) (auto simp: layout_fetched_def focusPane_def assignSession_def split_pane_def closePane_def changeRatio_def
      unplaceSession_def focusSession_def save_timer_fires_def Let_def split: option.split prod.split)

lemma set_authed_flag [simp]: "ls_authed (set_authed b l) = b"
  by (simp add: set_authed_def)

lemma op_authed [simp]:
  "ls_authed (assignSession i t l) = ls_authed l" "ls_authed (unplaceSession t l) = ls_authed l"
  "ls_authed (closePane i l) = ls_authed l" "ls_authed (split_pane i d l) = ls_authed l"
  "ls_authed (snd (focusSession t l)) = ls_authed l"
  using layout_authed [of "AssignSession i t" l] layout_authed [of "UnplaceSession t" l] layout_authed [of "ClosePane i" l]
    layout_authed [of "SplitPane i d" l] layout_authed [of "FocusSession t" l] by simp_all

lemma unplace_all_authed [simp]: "ls_authed (unplace_all tms l) = ls_authed l"
  unfolding unplace_all_def by (induction tms arbitrary: l) simp_all

lemma finish_authed:
  "ls_authed (lay (finish task res h)) = (ls_authed (lay h) \<and> task \<noteq> LogoutTask)"
  by (cases task) (auto simp: Let_def split: outcome.split)

lemma select_authed [simp]: "ls_authed (lay (selectTerminal mobile w tm h)) = ls_authed (lay h)"
proof -
  obtain found l where fs: "focusSession (tm_id tm) (lay h) = (found, l)" by fastforce
  with op_authed(5) [of "tm_id tm" "lay h"] have "ls_authed l = ls_authed (lay h)" by simp
  with fs show ?thesis by (cases mobile; cases found) (simp_all add: selectTerminal_def Let_def)
qed

lemma ask_lay [simp]: "lay (ask_user q h) = lay h" "lay (answer_user ok h) = lay h"
  by (simp_all add: ask_user_def answer_user_def Let_def split: prod.split)

lemma hub_authed:
  assumes "\<not> hub_own e"
  shows "ls_authed (lay (hub_step h e))
     = (ls_authed (lay h) \<and> \<not> (\<exists>k res. e = Done k res \<and> map_of (tasks h) k = Some LogoutTask))"
proof (cases e)
  case (Done k res)
  then show ?thesis by (auto simp: finish_task_def finish_authed split: option.split)
next
  case (OnLayout le)
  with assms have "ls_authed (layout_step (lay h) le) = ls_authed (lay h)"
    by (intro layout_authed) (auto simp: hub_own_def)
  with OnLayout show ?thesis by simp
next
  case (CommitRename target val)
  then show ?thesis by (auto simp: commitRename_def Let_def split: option.split rename_target.split)
qed (use assms in \<open>auto simp: hub_own_def toggleExpanded_def handleAddTerminal_def createTerminalInPane_def
    wizard_created_def\<close>)

definition shell_inv :: "shell \<Rightarrow> bool" where
  "shell_inv s =
     (layout_inv (lay (sl_hub s)) \<and> ls_authed (lay (sl_hub s)) = (sl_authed s = Some True)
      \<and> \<not> (sl_mobile s \<and> sl_wide s)
      \<and> login_inv (sl_login s) \<and> (sl_authed s = Some False \<longrightarrow> lg_entered (sl_login s) = 0))"

lemma login_mount_inv [simp]: "login_inv login_mount" "lg_entered login_mount = 0"
  by (simp_all add: login_inv_def login_mount_def)

lemma inv_on_hub:
  assumes "shell_inv s" and "layout_inv (lay (f (sl_hub s)))" and "ls_authed (lay (f (sl_hub s))) = ls_authed (lay (sl_hub s))"
  shows "shell_inv (on_hub f s)"
  using assms by (simp add: shell_inv_def on_hub_def)

lemma inv_enter: "shell_inv s \<Longrightarrow> shell_inv (enter s)"
  by (simp add: shell_inv_def enter_def authenticated_def layout_step_inv)

lemma inv_leave:
  assumes "layout_inv (lay (sl_hub s))" and "\<not> ls_authed (lay (sl_hub s))" and "\<not> (sl_mobile s \<and> sl_wide s)"
    and "login_inv (sl_login s)" and "sl_authed s = Some False \<longrightarrow> lg_entered (sl_login s) = 0"
  shows "shell_inv (leave s)"
proof (cases "sl_authed s = Some False")
  case True
  with assms show ?thesis by (simp add: shell_inv_def leave_def)
next
  case False
  with assms(1-3) show ?thesis by (simp add: shell_inv_def leave_def)
qed

lemma inv_press:
  assumes "shell_inv s"
  shows "shell_inv (press c s)"
proof -
  have inv: "layout_inv (lay (sl_hub s))" using assms by (simp add: shell_inv_def)
  note step = hub_layout_inv [OF inv]
  show ?thesis
  proof (cases c)
    case (TmSelect w tm)
    then show ?thesis
      using assms step [of "SelectTerminal (sl_mobile s) w tm"] by (simp add: inv_on_hub hub_ok_def)
  next
    case (PaneControl i a)
    have "ls_authed (lay (snd (header_do i a (u, h)))) = ls_authed (lay h)" for u h by (cases a) simp_all
    with PaneControl assms header_keeps_layout [OF inv] show ?thesis by (simp add: inv_on_hub)
  next
    case (ClosePicker i)
    then show ?thesis using assms layout_inv_step [OF inv, of "ClosePane i"] by (simp add: inv_on_hub)
  qed (use assms inv in \<open>simp_all add: inv_on_hub toggle_sidebar_def toggleExpanded_def handleAddTerminal_def,
      simp_all add: shell_inv_def\<close>)
qed

lemma inv_hub_event:
  assumes "shell_inv s" and "hub_ok (sl_hub s) e" and "\<not> hub_own e"
  shows "shell_inv (hub_event_at e s)"
proof -
  have lay: "layout_inv (lay (hub_step (sl_hub s) e))" using assms by (intro hub_layout_inv) (simp_all add: shell_inv_def)
  show ?thesis
  proof (cases "\<exists>k res. e = Done k res \<and> map_of (tasks (sl_hub s)) k = Some LogoutTask")
    case True
    have "shell_inv (leave (on_hub (\<lambda>h. hub_step h e) s))"
      by (rule inv_leave)
        (use assms(1) lay hub_authed [OF assms(3), of "sl_hub s"] True in
          \<open>auto simp: on_hub_def shell_inv_def simp del: hub_step.simps\<close>)
    with True show ?thesis by (auto simp: hub_event_at_def Let_def)
  next
    case False
    have base: "shell_inv (on_hub (\<lambda>h. hub_step h e) s)"
      using assms(1) lay hub_authed [OF assms(3), of "sl_hub s"] False by (intro inv_on_hub) auto
    moreover have "shell_inv (t\<lparr>sl_rename := r\<rparr>) = shell_inv t" "shell_inv (t\<lparr>sl_wizard := b\<rparr>) = shell_inv t" for t r b
      by (simp_all add: shell_inv_def)
    ultimately show ?thesis using False by (cases e) (auto simp: hub_event_at_def Let_def)
  qed
qed

lemma inv_login_event: "shell_inv s \<Longrightarrow> shell_inv (login_event_at e s)"
proof -
  assume s: "shell_inv s"
  show ?thesis
  proof (cases "app_page (sl_authed s) = LoginPage")
    case True
    then have out: "sl_authed s = Some False" by (auto simp: app_page_def split: option.splits bool.splits)
    let ?l = "login_step (sl_login s) e"
    have l: "login_inv ?l" "lg_entered (sl_login s) = 0"
      using s out login_run.step_inv [of "sl_login s" e] by (simp_all add: shell_inv_def)
    have "shell_inv (enter (s\<lparr>sl_login := ?l\<rparr>))"
      using s l(1) by (simp add: shell_inv_def enter_def authenticated_def layout_step_inv)
    moreover have "shell_inv (s\<lparr>sl_login := ?l\<rparr>)" if "lg_entered ?l = 0"
      using s l(1) that by (simp add: shell_inv_def)
    ultimately show ?thesis using True l(2) by (simp add: login_event_at_def Let_def)
  next
    case False
    with s show ?thesis by (simp add: login_event_at_def)
  qed
qed

lemma shell_inv_step:
  assumes "shell_inv s" and "shell_ok s e"
  shows "shell_inv (shell_step s e)"
proof (cases e)
  case (AuthChecked ok)
  have "shell_inv (leave s)" if "sl_authed s = None"
    using assms(1) that by (simp add: shell_inv_def leave_def)
  with AuthChecked assms inv_enter show ?thesis by (auto simp: auth_checked_def shell_ok_def)
next
  case (Press c)
  with assms show ?thesis by (simp add: inv_press)
next
  case (AppEvent he)
  with assms show ?thesis by (simp add: shell_ok_def inv_hub_event)
next
  case (LoginPageEvent le)
  with assms show ?thesis by (simp add: inv_login_event)
qed (use assms in \<open>auto simp: shell_inv_def shell_ok_def\<close>)

interpretation shell_run: machine_inv shell_step shell_ok shell_inv
  by unfold_locales (rule shell_inv_step)

lemma shell_inv_init: "ids_fresh w {} \<Longrightarrow> \<not> (mobile \<and> broad) \<Longrightarrow> shell_inv (shell_init w srv mobile broad)"
  by (simp add: shell_inv_def shell_init_def hub_init_def layout_inv_init) (simp add: useLayout_init_def split: prod.split)

lemma controls_in_app: "c \<in> set (page_controls s) \<Longrightarrow> sl_authed s = Some True"
  by (auto simp: page_controls_def app_page_def split: if_splits option.splits bool.splits)

text \<open>
  Nothing of the application is on the page before the session has been checked, on the login page and
  after a logout: there is no control to press and no terminal is mounted, on any screen; and while
  the login page is shown at most one password is on its way. The login page and the application
  exclude each other in every run.
\<close>

theorem login_gate:
  assumes "ids_fresh w {}" and "\<not> (mobile \<and> broad)"
    and "run_ok shell_step shell_ok (shell_init w srv mobile broad) es"
  shows "let s = run shell_step (shell_init w srv mobile broad) es in
     (if app_page (sl_authed s) = AppPage then True
      else page_controls s = [] \<and> page_mounts b (sl_hub s) = [] \<and> shell_step s (Press c) = s)
     \<and> (if app_page (sl_authed s) = LoginPage then lg_waiting (sl_login s) \<le> 1 \<and> lg_entered (sl_login s) = 0 else True)"
proof -
  let ?s = "run shell_step (shell_init w srv mobile broad) es"
  have inv: "shell_inv ?s" by (rule shell_run.run_inv [OF shell_inv_init [OF assms(1,2)] assms(3)])
  have "page_controls ?s = [] \<and> page_mounts b (sl_hub ?s) = []" if "app_page (sl_authed ?s) \<noteq> AppPage"
  proof -
    have "sl_authed ?s \<noteq> Some True" using that by (auto simp: app_page_def)
    with inv that show ?thesis by (simp add: page_controls_def page_mounts_def shell_inv_def)
  qed
  moreover have "lg_waiting (sl_login ?s) \<le> 1 \<and> lg_entered (sl_login ?s) = 0" if "app_page (sl_authed ?s) = LoginPage"
  proof -
    have "sl_authed ?s = Some False" using that by (auto simp: app_page_def split: option.splits bool.splits)
    with inv show ?thesis by (auto simp: shell_inv_def login_inv_def split: if_splits)
  qed
  ultimately show ?thesis by (simp add: Let_def)
qed

section \<open>Choosing a terminal\<close>

text \<open>Selecting focuses the pane that shows the terminal, or shows it in the focused pane.\<close>

lemma select_cases:
  assumes "layout_inv (lay h)" and "h' = selectTerminal mobile w tm h"
  obtains (moved) "lay h' = assignSession (focusedPaneId (lay h)) (tm_id tm) (lay h)"
  | (found) i where "lay h' = (lay h)\<lparr>focusedPaneId := i\<rparr>" and "(i, Some (tm_id tm)) \<in> set (leaves (ls_root (lay h)))"
proof (cases "focus_walk (tm_id tm) (ls_root (lay h)) [] = []")
  case True
  with assms moved show ?thesis by (auto simp: layout_inv_def selectTerminal_def focusSession_def Let_def)
next
  case False
  with assms found focus_walk_cases [of "tm_id tm" "ls_root (lay h)" "[]"] show ?thesis
    by (auto simp: layout_inv_def selectTerminal_def focusSession_def Let_def)
qed

lemma select_places:
  assumes "layout_inv (lay h)" and "h' = selectTerminal mobile w tm h"
  shows "(focusedPaneId (lay h'), Some (tm_id tm)) \<in> set (leaves (ls_root (lay h')))"
    and "leaf_ids (ls_root (lay h')) = leaf_ids (ls_root (lay h))"
    and "u \<noteq> tm_id tm \<Longrightarrow> j \<noteq> focusedPaneId (lay h) \<Longrightarrow>
      (j, Some u) \<in> set (leaves (ls_root (lay h'))) \<longleftrightarrow> (j, Some u) \<in> set (leaves (ls_root (lay h)))"
  using assms
proof (atomize (full), cases rule: select_cases)
  case moved
  have "hasPane (focusedPaneId (lay h)) (lay h)" using assms(1) by (auto simp: layout_inv_def hasPane_def findLeaf_None)
  note eff = assign_effect [OF assms(1) this moved]
  have "(focusedPaneId (lay h), Some (tm_id tm)) \<in> set (filter (\<lambda>p. snd p = Some (tm_id tm)) (leaves (ls_root (lay h'))))"
    unfolding eff(1) by simp
  then have "(focusedPaneId (lay h), Some (tm_id tm)) \<in> set (leaves (ls_root (lay h')))" by simp
  with eff(2-4) show "(focusedPaneId (lay h'), Some (tm_id tm)) \<in> set (leaves (ls_root (lay h')))
      \<and> leaf_ids (ls_root (lay h')) = leaf_ids (ls_root (lay h))
      \<and> (u \<noteq> tm_id tm \<longrightarrow> j \<noteq> focusedPaneId (lay h) \<longrightarrow>
          ((j, Some u) \<in> set (leaves (ls_root (lay h')))) = ((j, Some u) \<in> set (leaves (ls_root (lay h)))))"
    by simp
qed simp

lemma select_fields:
  "workspaces (selectTerminal mobile w tm h) = workspaces h"
  "expanded (selectTerminal mobile w tm h) = insert (ws_id w) (expanded h)"
  "sidebarCollapsed (selectTerminal mobile w tm h) = (mobile \<or> sidebarCollapsed h)"
  by (simp_all add: selectTerminal_def Let_def split: prod.split)

lemma focused_one:
  assumes "distinct (map fst ps)" and "(foc, Some t) \<in> set ps" and "ss t = Some r"
  shows "filter snd (pane_refs ss foc ps) = [(r, True)]"
  using assms(1,2)
proof (induction ps)
  case (Cons p ps)
  obtain i sess where p: "p = (i, sess)" by (cases p)
  show ?case
  proof (cases "i = foc")
    case True
    then have "sess = Some t" using Cons.prems p by force
    with True p Cons.prems(1) assms(3) unfocused_refs [of foc ps ss] show ?thesis by simp
  next
    case False
    with Cons p show ?thesis by (auto split: option.split)
  qed
qed simp

lemma tm_control:
  assumes "TmSelect w tm \<in> set (page_controls s)"
  shows "w \<in> set (workspaces (sl_hub s)) \<and> tm \<in> set (terminals w)"
proof -
  have tree: "TmSelect w tm \<in> set (tree_controls wss) \<longleftrightarrow> w \<in> set wss \<and> tm \<in> set (terminals w)" for wss
    by (auto simp: tree_controls_def ws_controls_def tm_controls_def)
  have "TmSelect w tm \<notin> set (pane_controls b p)" for b p by (cases p) auto
  then have "TmSelect w tm \<notin> set (region_controls foc r)" for foc r by (cases r) auto
  with assms tree show ?thesis by (auto simp: page_controls_def sidebar_controls_def split: if_splits)
qed

text \<open>
  C6. Pressing a terminal's row shows that terminal: afterwards it is on the screen and it alone has the focus,
  on a wide page and on a narrow one, its workspace is open in the tree, and the drawer of a phone
  is closed. No pane is opened or closed and every other pane keeps its terminal.
\<close>

theorem select_shows_terminal:
  assumes "ids_fresh idw0 {}" and "\<not> (mobile \<and> broad)"
    and "run_ok shell_step shell_ok (shell_init idw0 srv mobile broad) es"
    and "s = run shell_step (shell_init idw0 srv mobile broad) es"
    and "TmSelect w tm \<in> set (page_controls s)"
  shows "let h = sl_hub s; h' = sl_hub (shell_step s (Press (TmSelect w tm))) in
     (\<exists>r. sr_tmId r = tm_id tm \<and> sessions_of (workspaces h') (tm_id tm) = Some r
          \<and> filter snd (shown_terminals (main_view True h')) = [(r, True)]
          \<and> filter snd (shown_terminals (main_view False h')) = [(r, True)])
     \<and> ws_id w \<in> expanded h' \<and> sidebarCollapsed h' = (sl_mobile s \<or> sidebarCollapsed h)
     \<and> leaf_ids (ls_root (lay h')) = leaf_ids (ls_root (lay h))
     \<and> (\<forall>j u. j \<noteq> focusedPaneId (lay h) \<longrightarrow> u \<noteq> tm_id tm \<longrightarrow>
          ((j, Some u) \<in> set (leaves (ls_root (lay h'))) \<longleftrightarrow> (j, Some u) \<in> set (leaves (ls_root (lay h)))))"
proof -
  let ?h = "sl_hub s" and ?h' = "selectTerminal (sl_mobile s) w tm (sl_hub s)"
  have step: "sl_hub (shell_step s (Press (TmSelect w tm))) = ?h'" using assms(5) by (simp add: on_hub_def)
  have inv: "layout_inv (lay ?h)"
    using shell_run.run_inv [OF shell_inv_init [OF assms(1,2)] assms(3)] assms(4) by (simp add: shell_inv_def)
  then have inv': "layout_inv (lay ?h')"
    using hub_layout_inv [of ?h "SelectTerminal (sl_mobile s) w tm"] by (simp add: hub_ok_def)
  note sel = select_places [OF inv refl, where mobile = "sl_mobile s" and w = w and tm = tm]
  have "w \<in> set (workspaces ?h)" "tm \<in> set (terminals w)" using tm_control [OF assms(5)] by simp_all
  then have "tm_id tm \<in> dom (sessions_of (workspaces ?h))" by (auto simp: listed)
  then obtain r where r: "sessions_of (workspaces ?h') (tm_id tm) = Some r" by (auto simp: select_fields)
  have "filter snd (shown_terminals (main_view True ?h')) = [(r, True)]"
    using focused_one [OF _ sel(1), of "sessions_of (workspaces ?h')" r] r inv' wf_leaf_ids [of "ls_root (lay ?h')"]
    by (simp add: main_view_def view_panes_split pane_refs_def [symmetric] layout_inv_def)
  moreover have "filter snd (shown_terminals (main_view False ?h')) = [(r, True)]"
  proof -
    have "focused_session ?h' = Some (tm_id tm)" using focused_session_leaf [of ?h'] inv' sel(1) by (simp add: layout_inv_def)
    then show ?thesis using r by (simp add: main_view_def active_focused)
  qed
  ultimately show ?thesis
    unfolding step Let_def using r session_of_id [OF r] sel(2,3) by (auto simp: select_fields)
qed

section \<open>Reaching the sidebar\<close>

text \<open>
  C26. The user is never cut off from the sidebar: whenever the application is shown and the sidebar is
  closed -- on a phone it is inert then -- some control on the page opens it, whatever is in the
  main region, and whenever it is open some control closes it.
\<close>

theorem sidebar_reachable:
  assumes "ids_fresh w {}" and "\<not> (mobile \<and> broad)"
    and "run_ok shell_step shell_ok (shell_init w srv mobile broad) es"
    and "s = run shell_step (shell_init w srv mobile broad) es" and "app_page (sl_authed s) = AppPage"
  shows "\<exists>c. c \<in> set (page_controls s)
     \<and> sidebarCollapsed (sl_hub (shell_step s (Press c))) = (\<not> sidebarCollapsed (sl_hub s))"
proof -
  have inv: "shell_inv s" using shell_run.run_inv [OF shell_inv_init [OF assms(1,2)] assms(3)] assms(4) by simp
  show ?thesis
  proof (cases "sl_mobile s \<and> sidebarCollapsed (sl_hub s)")
    case True
    then have narrow: "\<not> sl_wide s" using inv by (simp add: shell_inv_def)
    show ?thesis
    proof (cases "active_session (sl_hub s)")
      case None
      with True narrow assms(5) have "EmptyMenu \<in> set (page_controls s)" by (simp add: page_controls_def main_view_def)
      with True show ?thesis by (intro exI [of _ EmptyMenu]) (simp add: on_hub_def)
    next
      case (Some r)
      let ?c = "PaneControl (focusedPaneId (lay (sl_hub s))) MenuAction"
      have "?c \<in> set (page_controls s)"
        using True narrow assms(5) Some by (simp add: page_controls_def main_view_def header_actions_def)
      with True show ?thesis by (intro exI [of _ ?c]) (simp add: on_hub_def)
    qed
  next
    case False
    with assms(5) have "ToggleSidebar \<in> set (page_controls s)" by (auto simp: page_controls_def sidebar_controls_def)
    then show ?thesis by (intro exI [of _ ToggleSidebar]) (simp add: on_hub_def toggle_sidebar_def)
  qed
qed

text \<open>A page on a phone, with one workspace loaded.\<close>

definition demo_shell_events :: "shell_event list" where
  "demo_shell_events = [AuthChecked True, AppEvent (Done 0 (GotWorkspaces [demo_ws])), Press EmptyMenu]"

lemmas shell_eval = shell_init_def hub_init_def auth_checked_def enter_def authenticated_def start_task_def hub_event_at_def
  on_hub_def finish_task_def shell_ok_def hub_ok_def hub_own_def page_controls_def app_page_def
  sidebar_controls_def tree_controls_def main_view_def active_session_def useLayout_init_def leaf_eq set_authed_def Let_def

lemma demo_shell:
  "run_ok shell_step shell_ok (shell_init demo_world None True False) demo_shell_events"
  "sl_authed (run shell_step (shell_init demo_world None True False) demo_shell_events) = Some True"
  "sl_mobile (run shell_step (shell_init demo_world None True False) demo_shell_events)"
  "sidebarCollapsed (sl_hub (run shell_step (shell_init demo_world None True False) demo_shell_events)) = False"
  "workspaces (sl_hub (run shell_step (shell_init demo_world None True False) demo_shell_events)) = [demo_ws]"
  by (simp_all add: demo_shell_events_def shell_eval)

theorem sidebar_reachable_witness:
  "\<exists>c. c \<in> set (page_controls (run shell_step (shell_init demo_world None True False) demo_shell_events))
     \<and> sidebarCollapsed (sl_hub (shell_step (run shell_step (shell_init demo_world None True False) demo_shell_events) (Press c)))"
  using sidebar_reachable [OF demo_fresh_empty _ demo_shell(1) refl] demo_shell(2,4)
  by (simp add: app_page_def del: shell_step.simps)

theorem select_shows_terminal_witness:
  "let s = run shell_step (shell_init demo_world None True False) demo_shell_events;
       h' = sl_hub (shell_step s (Press (TmSelect demo_ws (hd (terminals demo_ws))))) in
     (\<exists>r. sr_tmId r = ''t1'' \<and> filter snd (shown_terminals (main_view False h')) = [(r, True)])
     \<and> ''w'' \<in> expanded h' \<and> sidebarCollapsed h'"
proof -
  let ?s = "run shell_step (shell_init demo_world None True False) demo_shell_events"
  have c: "TmSelect demo_ws (hd (terminals demo_ws)) \<in> set (page_controls ?s)"
    using demo_shell(2-5) by (simp add: page_controls_def sidebar_controls_def app_page_def tree_controls_def ws_controls_def
        tm_controls_def) (simp add: demo_ws_def)
  have ids: "ws_id demo_ws = ''w''" "tm_id (hd (terminals demo_ws)) = ''t1''" by (simp_all add: demo_ws_def)
  show ?thesis
    using select_shows_terminal [OF demo_fresh_empty _ demo_shell(1) refl c] demo_shell(3) unfolding Let_def ids
    by (auto simp del: shell_step.simps)
qed

theorem login_gate_witness:
  "page_controls (run shell_step (shell_init demo_world None True False) [AuthChecked False]) = []"
  using login_gate [OF demo_fresh_empty, where mobile = True and broad = False and srv = None and es = "[AuthChecked False]" and b = True and c = NavAdd]
  by (simp add: shell_init_def auth_checked_def leave_def shell_ok_def app_page_def Let_def)

text \<open>
  A second press on logout ends the next session: each press sends a request, and the answer to
  the second one, if it comes after the user has logged in again, shows the login page again.
\<close>

theorem second_logout_ends_session:
  "let s = run shell_step (shell_init demo_world None False True)
       [AuthChecked True, Press LogoutButton, Press LogoutButton, AppEvent (Done 1 GotNothing),
        LoginPageEvent (TypePassword ''p''), LoginPageEvent Submit, LoginPageEvent (LoginAnswer True)] in
     sl_authed s = Some True \<and> sl_authed (shell_step s (AppEvent (Done 2 GotNothing))) = Some False"
  by (simp add: shell_eval leave_def login_event_at_def login_mount_def submit_def login_answer_def)

end
