(* ===== verification/Store.thy ===== *)
theory Store
  imports Hub GoBase
begin

text \<open>
  The server's store, \<^verbatim>\<open>src/internal/store/store.go\<close> and \<^verbatim>\<open>terminal.go\<close>, with the session names of
  \<^verbatim>\<open>src/internal/tmux/tmux.go\<close>: the workspaces in memory, the file they are flushed to, and the restart that
  reads it. The records are those of the front end: both sides name the same JSON fields. A
  mutex makes every operation atomic. What \<^verbatim>\<open>tmux\<close> answers and whether the file could be written
  are arguments.
\<close>

section \<open>State\<close>

datatype store_error = ErrNotFound | ErrDuplicate | ErrInvalidLayout | ErrOther

record store =
  st_workspaces :: "Workspace list"
  st_layout :: "json option"
  st_file :: "(Workspace list \<times> json option) option"   \<comment> \<open>\<^verbatim>\<open>state.json\<close>\<close>

text \<open>The JSON of a value, as its reader sees it.\<close>

definition tm_written :: "Terminal \<Rightarrow> Terminal" where
  "tm_written tm = \<lparr>tm_id = go_utf8 (tm_id tm), tm_name = go_utf8 (tm_name tm), tmuxSession = go_utf8 (tmuxSession tm)\<rparr>"

definition ws_written :: "Workspace \<Rightarrow> Workspace" where
  "ws_written w = \<lparr>ws_id = go_utf8 (ws_id w), ws_name = go_utf8 (ws_name w), ws_path = go_utf8 (ws_path w),
     terminals = map tm_written (terminals w)\<rparr>"

text \<open>The file is replaced by a rename: after a failure it is what it was. The flag: no error.\<close>

definition flushLocked :: "bool \<Rightarrow> store \<Rightarrow> store \<times> bool" where
  "flushLocked fl s =
     (if fl then (s\<lparr>st_file := Some (map ws_written (st_workspaces s), st_layout s)\<rparr>, True) else (s, False))"

text \<open>\<^verbatim>\<open>newID\<close>: four random bytes in hexadecimal; the bytes are an argument.\<close>

definition newID :: "string \<Rightarrow> char list \<Rightarrow> string" where
  "newID pre raw = pre @ concat (map (\<lambda>c. [digit_char (of_char c div 16), digit_char (of_char c mod 16)]) raw)"

section \<open>Operations\<close>

text \<open>Pointers into the slices: the first entry with the id.\<close>

fun change_first :: "('a \<Rightarrow> bool) \<Rightarrow> ('a \<Rightarrow> 'a) \<Rightarrow> 'a list \<Rightarrow> 'a list" where
  "change_first P f [] = []"
| "change_first P f (x # xs) = (if P x then f x # xs else x # change_first P f xs)"

fun drop_first :: "('a \<Rightarrow> bool) \<Rightarrow> 'a list \<Rightarrow> 'a list" where
  "drop_first P [] = []"
| "drop_first P (x # xs) = (if P x then xs else x # drop_first P xs)"

definition findWorkspaceLocked :: "string \<Rightarrow> store \<Rightarrow> Workspace option" where
  "findWorkspaceLocked i s = find (\<lambda>w. ws_id w = i) (st_workspaces s)"

definition findTerminalLocked :: "Workspace \<Rightarrow> string \<Rightarrow> Terminal option" where
  "findTerminalLocked w t = find (\<lambda>tm. tm_id tm = t) (terminals w)"

definition change_ws :: "string \<Rightarrow> (Workspace \<Rightarrow> Workspace) \<Rightarrow> store \<Rightarrow> store" where
  "change_ws i f s = s\<lparr>st_workspaces := change_first (\<lambda>w. ws_id w = i) f (st_workspaces s)\<rparr>"

text \<open>The result of an operation that flushes last.\<close>

definition flushed :: "bool \<Rightarrow> 'a \<Rightarrow> store \<Rightarrow> store \<times> (store_error + 'a)" where
  "flushed fl v s = (case flushLocked fl s of (s', ok) \<Rightarrow> (s', if ok then Inr v else Inl ErrOther))"

definition ListWorkspaces :: "store \<Rightarrow> Workspace list" where
  "ListWorkspaces s = st_workspaces s"

definition GetWorkspace :: "string \<Rightarrow> store \<Rightarrow> store_error + Workspace" where
  "GetWorkspace i s = (case findWorkspaceLocked i s of None \<Rightarrow> Inl ErrNotFound | Some w \<Rightarrow> Inr w)"

definition CreateWorkspace ::
  "bool \<Rightarrow> char list option \<Rightarrow> string \<Rightarrow> string \<Rightarrow> store \<Rightarrow> store \<times> (store_error + Workspace)" where
  "CreateWorkspace fl raw name path s =
     (case raw of
        None \<Rightarrow> (s, Inl ErrOther)
      | Some r \<Rightarrow>
          let w = \<lparr>ws_id = newID ''ws-'' r, ws_name = name, ws_path = path, terminals = []\<rparr>
          in flushed fl w (s\<lparr>st_workspaces := st_workspaces s @ [w]\<rparr>))"

definition DeleteWorkspace :: "bool \<Rightarrow> string \<Rightarrow> store \<Rightarrow> store \<times> (store_error + Workspace)" where
  "DeleteWorkspace fl i s =
     (case findWorkspaceLocked i s of
        None \<Rightarrow> (s, Inl ErrNotFound)
      | Some w \<Rightarrow> flushed fl w (s\<lparr>st_workspaces := drop_first (\<lambda>w. ws_id w = i) (st_workspaces s)\<rparr>))"

definition RenameWorkspaceS :: "bool \<Rightarrow> string \<Rightarrow> string \<Rightarrow> store \<Rightarrow> store \<times> (store_error + Workspace)" where
  "RenameWorkspaceS fl i name s =
     (case findWorkspaceLocked i s of
        None \<Rightarrow> (s, Inl ErrNotFound)
      | Some w \<Rightarrow> flushed fl (w\<lparr>ws_name := name\<rparr>) (change_ws i (\<lambda>w. w\<lparr>ws_name := name\<rparr>) s))"

definition GetTerminal :: "string \<Rightarrow> string \<Rightarrow> store \<Rightarrow> store_error + Terminal" where
  "GetTerminal i t s =
     (case findWorkspaceLocked i s of
        None \<Rightarrow> Inl ErrNotFound
      | Some w \<Rightarrow> (case findTerminalLocked w t of None \<Rightarrow> Inl ErrNotFound | Some tm \<Rightarrow> Inr tm))"

definition AddTerminalS :: "bool \<Rightarrow> string \<Rightarrow> Terminal \<Rightarrow> store \<Rightarrow> store \<times> (store_error + unit)" where
  "AddTerminalS fl i tm s =
     (case findWorkspaceLocked i s of
        None \<Rightarrow> (s, Inl ErrNotFound)
      | Some w \<Rightarrow> flushed fl () (change_ws i (\<lambda>w. w\<lparr>terminals := terminals w @ [tm]\<rparr>) s))"

definition RemoveTerminal :: "bool \<Rightarrow> string \<Rightarrow> string \<Rightarrow> store \<Rightarrow> store \<times> (store_error + Terminal)" where
  "RemoveTerminal fl i t s =
     (case GetTerminal i t s of
        Inl e \<Rightarrow> (s, Inl e)
      | Inr tm \<Rightarrow> flushed fl tm
          (change_ws i (\<lambda>w. w\<lparr>terminals := drop_first (\<lambda>x. tm_id x = t) (terminals w)\<rparr>) s))"

definition RenameTerminalS ::
  "bool \<Rightarrow> string \<Rightarrow> string \<Rightarrow> string \<Rightarrow> string \<Rightarrow> store \<Rightarrow> store \<times> (store_error + Terminal)" where
  "RenameTerminalS fl i t name sess s =
     (case GetTerminal i t s of
        Inl e \<Rightarrow> (s, Inl e)
      | Inr tm \<Rightarrow> flushed fl (tm\<lparr>tm_name := name, tmuxSession := sess\<rparr>)
          (change_ws i (\<lambda>w. w\<lparr>terminals :=
             change_first (\<lambda>x. tm_id x = t) (\<lambda>x. x\<lparr>tm_name := name, tmuxSession := sess\<rparr>) (terminals w)\<rparr>) s))"

text \<open>A layout is a text; \<open>None\<close>: it is not JSON.\<close>

definition SetLayout :: "bool \<Rightarrow> json option \<Rightarrow> store \<Rightarrow> store \<times> (store_error + unit)" where
  "SetLayout fl raw s =
     (case raw of None \<Rightarrow> (s, Inl ErrInvalidLayout) | Some v \<Rightarrow> flushed fl () (s\<lparr>st_layout := Some v\<rparr>))"

section \<open>Names of sessions\<close>

definition maxSessionLength :: nat where "maxSessionLength = 64"

definition SanitizeSessionName :: "string \<Rightarrow> string" where
  "SanitizeSessionName name =
     take maxSessionLength (map (\<lambda>c. if c \<in> set ''.: '' then CHR ''-'' else c) (js_trim name))"

definition maxTerminalNameAttempts :: nat where "maxTerminalNameAttempts = 1000"

fun name_loop :: "(string \<Rightarrow> bool option) \<Rightarrow> string set \<Rightarrow> string list \<Rightarrow> store_error + string" where
  "name_loop has taken [] = Inl ErrOther"
| "name_loop has taken (c # cs) =
     (if c \<in> taken then name_loop has taken cs
      else case has c of
          None \<Rightarrow> Inl ErrOther
        | Some ex \<Rightarrow> if \<not> ex then Inr c else name_loop has taken cs)"

definition candidate :: "string \<Rightarrow> nat \<Rightarrow> string" where
  "candidate path n =
     (let base = go_base (go_clean path);
          folder = (if base = [] \<or> base = ''.'' \<or> base = ''/'' then ''terminal'' else base)
      in SanitizeSessionName (folder @ ''-'' @ nat_str 10 n))"

definition taken_sessions :: "store \<Rightarrow> string set" where
  "taken_sessions s = set (concat (map (\<lambda>w. map tmuxSession (terminals w)) (st_workspaces s)))"

definition DefaultTerminalName :: "(string \<Rightarrow> bool option) \<Rightarrow> Workspace \<Rightarrow> store \<Rightarrow> store_error + string" where
  "DefaultTerminalName has w s =
     name_loop has (taken_sessions s) (map (candidate (ws_path w)) [1 ..< maxTerminalNameAttempts + 1])"

section \<open>Restart\<close>

text \<open>\<^verbatim>\<open>pruneDead\<close> keeps a terminal unless \<^verbatim>\<open>tmux\<close> says that its session does not exist.\<close>

definition session_kept :: "(string \<Rightarrow> bool option) \<Rightarrow> Terminal \<Rightarrow> bool" where
  "session_kept has tm = (has (tmuxSession tm) \<noteq> Some False)"

definition pruneDead :: "(string \<Rightarrow> bool option) \<Rightarrow> bool \<Rightarrow> store \<Rightarrow> store" where
  "pruneDead has fl s =
     (let s1 = s\<lparr>st_workspaces := map (\<lambda>w. w\<lparr>terminals := filter (session_kept has) (terminals w)\<rparr>) (st_workspaces s)\<rparr>
      in if list_all (\<lambda>w. list_all (session_kept has) (terminals w)) (st_workspaces s) then s1
         else fst (flushLocked fl s1))"

definition Load :: "(string \<Rightarrow> bool option) \<Rightarrow> bool \<Rightarrow> (Workspace list \<times> json option) option \<Rightarrow> store" where
  "Load has fl file =
     (case file of
        None \<Rightarrow> \<lparr>st_workspaces = [], st_layout = None, st_file = None\<rparr>
      | Some (wss, l) \<Rightarrow> pruneDead has fl \<lparr>st_workspaces = wss, st_layout = l, st_file = file\<rparr>)"

section \<open>Names\<close>

text \<open>The default name is the first candidate that is neither a session of another terminal nor known
  to \<^verbatim>\<open>tmux\<close>.\<close>

lemma name_loop_first:
  "name_loop has taken cs = Inr c \<Longrightarrow>
     \<exists>xs ys. cs = xs @ c # ys \<and> c \<notin> taken \<and> has c = Some False \<and> (\<forall>x \<in> set xs. x \<in> taken \<or> has x = Some True)"
proof (induction cs)
  case (Cons d cs)
  show ?case
  proof (cases "d \<in> taken \<or> has d = Some True")
    case True
    with Cons.prems have "name_loop has taken cs = Inr c" by (auto split: if_splits)
    then obtain xs ys where "cs = xs @ c # ys" "c \<notin> taken" "has c = Some False" "\<forall>x \<in> set xs. x \<in> taken \<or> has x = Some True"
      using Cons.IH by blast
    with True show ?thesis by (intro exI [of _ "d # xs"] exI [of _ ys]) simp
  next
    case False
    with Cons.prems have "d = c" "has c = Some False" by (auto split: option.splits if_splits)
    with False show ?thesis by (intro exI [of _ "[]"] exI [of _ cs]) simp
  qed
qed simp

lemma default_name_free:
  assumes "DefaultTerminalName has w s = Inr c"
  shows "c \<notin> taken_sessions s \<and> has c = Some False \<and> length c \<le> maxSessionLength"
proof -
  obtain xs ys where "map (candidate (ws_path w)) [1 ..< maxTerminalNameAttempts + 1] = xs @ c # ys"
    and free: "c \<notin> taken_sessions s \<and> has c = Some False"
    using name_loop_first [OF assms [unfolded DefaultTerminalName_def]] by blast
  then have "c \<in> set (map (candidate (ws_path w)) [1 ..< maxTerminalNameAttempts + 1])"
    by (metis in_set_conv_decomp)
  moreover from this obtain n where "c = candidate (ws_path w) n" by auto
  moreover have "length (candidate p n) \<le> maxSessionLength" for p n
    by (simp add: candidate_def SanitizeSessionName_def Let_def)
  ultimately show ?thesis using free by blast
qed

text \<open>
  In a folder whose name has 64 bytes or more the number is cut off: all candidates are the same name, and
  once it is in use no terminal can be created there without a name, however few there are.
\<close>

lemma candidate_cut:
  assumes "js_trim (go_base (go_clean p) @ ''-'' @ nat_str 10 n) = go_base (go_clean p) @ ''-'' @ nat_str 10 n"
    and "64 \<le> length (go_base (go_clean p))"
  shows "candidate p n = take 64 (map (\<lambda>c. if c \<in> set ''.: '' then CHR ''-'' else c) (go_base (go_clean p)))"
proof -
  have "go_base (go_clean p) \<noteq> ''.''" "go_base (go_clean p) \<noteq> ''/''" "go_base (go_clean p) \<noteq> []"
    using assms(2) by auto
  with assms show ?thesis
    by (simp add: candidate_def SanitizeSessionName_def maxSessionLength_def Let_def take_map)
qed

lemma nat_str_visible: "\<exists>d \<in> set ''0123456789''. \<exists>r. rev (nat_str 10 n) = d # r"
proof -
  have "n mod 10 < 10" by simp
  then have "digit_char (n mod 10) \<in> set ''0123456789''"
    by (drule_tac less_10_cases) (elim disjE; simp add: digit_char_def)
  moreover have "rev (nat_str 10 n) = digit_char (n mod 10) # (if n < 10 then [] else rev (nat_str 10 (n div 10)))"
    by (subst nat_str.simps) simp
  ultimately show ?thesis by blast
qed

lemma trim_tagged:
  assumes "f \<noteq> []" and "\<not> is_ws (hd f)"
  shows "js_trim (f @ ''-'' @ nat_str 10 n) = f @ ''-'' @ nat_str 10 n"
proof -
  obtain d r where r: "d \<in> set ''0123456789''" "rev (nat_str 10 n) = d # r" using nat_str_visible by blast
  have "dropWhile is_ws (f @ ''-'' @ nat_str 10 n) = f @ ''-'' @ nat_str 10 n" using assms by (cases f) auto
  moreover have "dropWhile is_ws (rev (f @ ''-'' @ nat_str 10 n)) = rev (f @ ''-'' @ nat_str 10 n)"
    using r by (auto simp: is_ws_def)
  ultimately show ?thesis by (simp add: js_trim_def del: rev_append append.simps)
qed

theorem long_folder_one_terminal:
  assumes "64 \<le> length (go_base (go_clean (ws_path w)))" and "\<not> is_ws (hd (go_base (go_clean (ws_path w))))"
    and "has (candidate (ws_path w) 1) = Some True"
  shows "DefaultTerminalName has w s = Inl ErrOther"
proof -
  have "go_base (go_clean (ws_path w)) \<noteq> []" using assms(1) by auto
  note cut = candidate_cut [OF trim_tagged [OF this assms(2)] assms(1)]
  have same: "candidate (ws_path w) n = candidate (ws_path w) 1" for n by (simp add: cut)
  have "name_loop has taken cs = Inl ErrOther" if "\<forall>c \<in> set cs. c = candidate (ws_path w) 1" for taken cs
    using that assms(3) by (induction cs) auto
  with same show ?thesis by (auto simp: DefaultTerminalName_def)
qed

text \<open>
  A name is cut after 64 bytes, which may be in the middle of a character: 22 Korean syllables have 66. The
  terminal then has a session name that the state file cannot hold: after a restart its session is
  looked for under another name, and the terminal is dropped although it runs.
\<close>

definition syllable :: string where "syllable = [CHR 0xEA, CHR 0xB0, CHR 0x80]"

theorem long_name_lost_at_restart:
  "let name = concat (replicate 22 syllable); sess = SanitizeSessionName name;
       w = \<lparr>ws_id = ''w'', ws_name = ''n'', ws_path = ''/p'', terminals = [\<lparr>tm_id = ''t'', tm_name = sess, tmuxSession = sess\<rparr>]\<rparr>;
       has = (\<lambda>x. Some (x = sess)) in
     utf8_valid name \<and> \<not> utf8_valid sess
     \<and> map terminals (st_workspaces (Load has True (Some ([ws_written w], None)))) = [[]]"
proof -
  have len: "utf8_len (syllable @ r) = 3" for r
    by (simp add: syllable_def utf8_front_def lead_len_def in_range_def second_ok_def)
  have step: "utf8_valid (syllable @ r) = utf8_valid r" for r
  proof -
    have "syllable @ r \<noteq> []" by (simp add: syllable_def)
    from utf8_valid_step [OF this] len [of r] show ?thesis by (simp add: syllable_def)
  qed
  have many: "utf8_valid (concat (replicate n syllable) @ r) = utf8_valid r" for n r
    by (induction n) (simp_all add: step)
  have trim: "js_trim (concat (replicate 22 syllable)) = concat (replicate 22 syllable)"
    by (simp add: numeral_eq_Suc js_trim_def syllable_def is_ws_def)
  have sess: "SanitizeSessionName (concat (replicate 22 syllable)) = concat (replicate 21 syllable) @ [CHR 0xEA]"
    unfolding SanitizeSessionName_def trim by (simp add: numeral_eq_Suc syllable_def maxSessionLength_def)
  have "\<not> utf8_valid [CHR 0xEA]" using utf8_valid_step [of "[CHR 0xEA]"]
    by (simp add: utf8_front_def lead_len_def in_range_def)
  then have bad: "\<not> utf8_valid (concat (replicate 21 syllable) @ [CHR 0xEA])" by (simp add: many)
  then have "go_utf8 (concat (replicate 21 syllable) @ [CHR 0xEA]) \<noteq> concat (replicate 21 syllable) @ [CHR 0xEA]"
    using go_utf8_iff by blast
  then show ?thesis
    unfolding Let_def sess using bad many [of 22 "[]"]
    by (simp add: Load_def pruneDead_def Let_def session_kept_def ws_written_def tm_written_def flushLocked_def)
qed

text \<open>
  When the state file cannot be written, the operation reports an error but has changed the list: the
  workspace that could not be created is there, and trying again creates a second one.
\<close>

theorem failed_flush_keeps_workspace:
  "let (s1, r1) = CreateWorkspace False (Some [CHR 0x01]) ''n'' ''/p'' s;
       (s2, r2) = CreateWorkspace True (Some [CHR 0x02]) ''n'' ''/p'' s1 in
     r1 = Inl ErrOther \<and> length (st_workspaces s1) = Suc (length (st_workspaces s))
     \<and> length (st_workspaces s2) = Suc (Suc (length (st_workspaces s)))"
  by (simp add: CreateWorkspace_def flushed_def flushLocked_def Let_def)

end
