(* ===== verification/Api.thy ===== *)
theory Api
  imports Store
begin

text \<open>
  The server's HTTP interface, \<^verbatim>\<open>src/internal/api\<close>: the routes of \<^verbatim>\<open>router.go\<close> behind the middleware of
  \<^verbatim>\<open>internal/auth\<close>, and the handlers of \<^verbatim>\<open>workspace.go\<close>, \<^verbatim>\<open>terminal.go\<close> and \<^verbatim>\<open>layout.go\<close> over the store. A request
  is what \<open>UrlApi\<close> hands to \<open>fetch\<close>; \<open>serve\<close> is the whole server as a function from a request and a
  store to an answer, the new store and the \<^verbatim>\<open>tmux\<close> commands it ran.
\<close>

section \<open>Routes\<close>

datatype seg = Lit string | Hole

datatype route =
    RLogin | RLogout | RAuthCheck
  | RListWs | RCreateWs | RDeleteWs | RRenameWs
  | RListTm | RCreateTm | RDeleteTm | RRenameTm | RAttachCmd | RUpload | RWs
  | RBrowse | RListDir | RDownload | RReadFile | RWriteFile
  | RGetLayout | RSetLayout | RStats

definition routes :: "(string \<times> seg list \<times> route) list" where
  "routes =
     (let api = (\<lambda>ps. Lit ''api'' # ps); ws = Lit ''workspaces''; tm = [ws, Hole, Lit ''terminals'', Hole] in
      [(''POST'', api [Lit ''login''], RLogin),
       (''POST'', api [Lit ''logout''], RLogout),
       (''GET'', api [Lit ''auth'', Lit ''check''], RAuthCheck),
       (''GET'', api [ws], RListWs),
       (''POST'', api [ws], RCreateWs),
       (''DELETE'', api [ws, Hole], RDeleteWs),
       (''PATCH'', api [ws, Hole], RRenameWs),
       (''GET'', api [ws, Hole, Lit ''terminals''], RListTm),
       (''POST'', api [ws, Hole, Lit ''terminals''], RCreateTm),
       (''DELETE'', api tm, RDeleteTm),
       (''PATCH'', api tm, RRenameTm),
       (''GET'', api (tm @ [Lit ''attach-cmd'']), RAttachCmd),
       (''POST'', api (tm @ [Lit ''upload'']), RUpload),
       (''GET'', api (tm @ [Lit ''ws'']), RWs),
       (''GET'', api [Lit ''fs'', Lit ''browse''], RBrowse),
       (''GET'', api [Lit ''fs'', Lit ''list''], RListDir),
       (''GET'', api [Lit ''fs'', Lit ''download''], RDownload),
       (''GET'', api [Lit ''fs'', Lit ''read''], RReadFile),
       (''POST'', api [Lit ''fs'', Lit ''write''], RWriteFile),
       (''GET'', api [Lit ''layout''], RGetLayout),
       (''PUT'', api [Lit ''layout''], RSetLayout),
       (''GET'', api [Lit ''system'', Lit ''stats''], RStats)])"

text \<open>\<^verbatim>\<open>http.ServeMux\<close>: the path up to the question mark is split at slashes, each segment is decoded, and
  a wildcard takes one segment. A path with an empty, \<^verbatim>\<open>.\<close> or \<^verbatim>\<open>..\<close> segment is redirected by the
  library and has no route here.\<close>

fun match_segs :: "seg list \<Rightarrow> string list \<Rightarrow> string list option" where
  "match_segs [] [] = Some []"
| "match_segs (Lit l # ps) (x # xs) = (if x = l then match_segs ps xs else None)"
| "match_segs (Hole # ps) (x # xs) = map_option ((#) x) (match_segs ps xs)"
| "match_segs _ _ = None"

fun find_route :: "(string \<times> seg list \<times> route) list \<Rightarrow> string \<Rightarrow> string list \<Rightarrow> (route \<times> string list) option" where
  "find_route [] m xs = None"
| "find_route ((m', ps, r) # rs) m xs =
     (case if m' = m then match_segs ps xs else None of
        Some args \<Rightarrow> Some (r, args)
      | None \<Rightarrow> find_route rs m xs)"

definition url_path :: "string \<Rightarrow> string" where
  "url_path url = takeWhile (\<lambda>c. c \<noteq> CHR ''?'') url"

definition url_query :: "string \<Rightarrow> string" where
  "url_query url = dropWhile (\<lambda>c. c \<noteq> CHR ''?'') url"

definition route_of :: "string \<Rightarrow> string \<Rightarrow> (route \<times> string list) option" where
  "route_of m url =
     (case js_split CHR ''/'' (url_path url) of
        [] # segs \<Rightarrow>
          if list_all (\<lambda>x. x \<noteq> [] \<and> x \<noteq> ''.'' \<and> x \<noteq> ''..'') segs
          then find_route routes m (map (pct_decode False) segs) else None
      | _ \<Rightarrow> None)"

text \<open>\<^verbatim>\<open>r.URL.Query().Get\<close>: the first value of the key, or the empty string.\<close>

definition query_get :: "string \<Rightarrow> string \<Rightarrow> string" where
  "query_get url k = or_else (map_of (parse_query (url_query url)) k) []"

section \<open>Answers\<close>

definition http_text :: "nat \<Rightarrow> string" where
  "http_text n =
     (if n = 200 then ''OK'' else if n = 201 then ''Created'' else if n = 204 then ''No Content''
      else if n = 400 then ''Bad Request'' else if n = 401 then ''Unauthorized'' else if n = 404 then ''Not Found''
      else if n = 403 then ''Forbidden'' else if n = 415 then ''Unsupported Media Type'' else if n = 429 then ''Too Many Requests''
      else if n = 405 then ''Method Not Allowed'' else if n = 409 then ''Conflict'' else if n = 413 then ''Request Entity Too Large''
      else ''Internal Server Error'')"

definition writeJSON :: "nat \<Rightarrow> json \<Rightarrow> response" where
  "writeJSON n v = \<lparr>res_status = n, res_statusText = http_text n, res_body = AsJson v\<rparr>"

definition writeError :: "nat \<Rightarrow> string \<Rightarrow> response" where
  "writeError n msg = writeJSON n (JObj [(''error'', JStr (go_utf8 msg))])"

definition noContent :: response where
  "noContent = \<lparr>res_status = 204, res_statusText = http_text 204, res_body = NotJson []\<rparr>"

definition methodNotAllowed :: response where
  "methodNotAllowed = \<lparr>res_status = 405, res_statusText = http_text 405, res_body = NotJson ''Method Not Allowed''\<rparr>"

definition notFound :: response where
  "notFound = \<lparr>res_status = 404, res_statusText = http_text 404, res_body = NotJson ''404 page not found''\<rparr>"

fun writeStoreError :: "store_error \<Rightarrow> response" where
  "writeStoreError ErrNotFound = writeError 404 ''not found''"
| "writeStoreError ErrDuplicate = writeError 409 ''name already in use''"
| "writeStoreError _ = writeError 500 ''internal server error''"

definition tm_json :: "Terminal \<Rightarrow> json" where
  "tm_json tm = JObj [(''id'', JStr (go_utf8 (tm_id tm))), (''name'', JStr (go_utf8 (tm_name tm))),
     (''tmuxSession'', JStr (go_utf8 (tmuxSession tm)))]"

definition ws_json :: "Workspace \<Rightarrow> json" where
  "ws_json w = JObj [(''id'', JStr (go_utf8 (ws_id w))), (''name'', JStr (go_utf8 (ws_name w))),
     (''path'', JStr (go_utf8 (ws_path w))), (''terminals'', JArr (map tm_json (terminals w)))]"

text \<open>Unmarshalling into a struct: the reader of one string field; \<open>None\<close>: the body is missing or does
  not fit. The front end writes the keys as the struct tags have them.\<close>

definition body_field :: "body_init option \<Rightarrow> string \<Rightarrow> string option" where
  "body_field body k =
     (case body of
        Some (BodyJson JNull) \<Rightarrow> Some []
      | Some (BodyJson (JObj ps)) \<Rightarrow> go_string (get_prop (JObj ps) k)
      | _ \<Rightarrow> None)"

section \<open>Handlers\<close>

datatype tmux_cmd = TmuxNew string string | TmuxKill string | TmuxRename string string

text \<open>What a request meets outside the server: whether its cookie is valid, the random bytes, the file
  system (the write of the state file, \<^verbatim>\<open>filepath.EvalSymlinks\<close> with the text of its error), \<^verbatim>\<open>tmux\<close>, and the
  handlers that do not touch the store.\<close>

record server_env =
  en_auth :: bool
  en_flush :: bool
  en_random :: "char list option"
  en_root :: string
  en_symlinks :: "string \<Rightarrow> string + string"
  en_has :: "string \<Rightarrow> bool option"
  en_new :: bool
  en_rename :: bool
  en_large :: bool                      \<comment> \<open>the body is larger than 1 MiB\<close>
  en_static :: "string \<Rightarrow> response"      \<comment> \<open>the embedded front end\<close>
  en_other :: "route \<Rightarrow> string list \<Rightarrow> string \<Rightarrow> body_init option \<Rightarrow> response"   \<comment> \<open>route, ids, URL, body\<close>

definition decodeJSON :: "server_env \<Rightarrow> body_init option \<Rightarrow> body_init option" where
  "decodeJSON env body = (if en_large env then None else body)"

type_synonym served = "store \<times> response \<times> tmux_cmd list"

definition resolvePath :: "server_env \<Rightarrow> string \<Rightarrow> string + string" where
  "resolvePath env p =
     (if js_trim p = [] then Inr (en_root env)
      else let c = go_clean p; cleaned = (if is_abs c then c else go_join (en_root env) c)
           in case en_symlinks env cleaned of
                Inl e \<Rightarrow> Inl e
              | Inr resolved \<Rightarrow>
                  if resolved \<noteq> en_root env \<and> \<not> prefix (en_root env @ ''/'') resolved
                  then Inl ''path is outside the allowed root'' else Inr resolved)"

definition handleListWorkspaces :: "store \<Rightarrow> served" where
  "handleListWorkspaces s = (s, writeJSON 200 (JArr (map ws_json (ListWorkspaces s))), [])"

text \<open>Answering with the result of a store operation.\<close>

definition answer :: "(store \<times> (store_error + 'a)) \<Rightarrow> ('a \<Rightarrow> response) \<Rightarrow> tmux_cmd list \<Rightarrow> served" where
  "answer r f cmds =
     (case r of (s, Inl e) \<Rightarrow> (s, writeStoreError e, cmds) | (s, Inr v) \<Rightarrow> (s, f v, cmds))"

definition handleCreateWorkspace :: "server_env \<Rightarrow> body_init option \<Rightarrow> store \<Rightarrow> served" where
  "handleCreateWorkspace env body s =
     (case (body_field (decodeJSON env body) ''name'', body_field (decodeJSON env body) ''path'') of
        (Some n, Some p) \<Rightarrow>
          let name = js_trim n in
          if name = [] then (s, writeError 400 ''name is required'', [])
          else (case resolvePath env p of
                  Inl e \<Rightarrow> (s, writeError 400 e, [])
                | Inr absPath \<Rightarrow>
                    answer (CreateWorkspace (en_flush env) (en_random env) name absPath s) (\<lambda>w. writeJSON 201 (ws_json w)) [])
      | _ \<Rightarrow> (s, writeError 400 ''invalid request body'', []))"

definition handleDeleteWorkspace :: "server_env \<Rightarrow> string \<Rightarrow> store \<Rightarrow> served" where
  "handleDeleteWorkspace env wsId s =
     (case GetWorkspace wsId s of
        Inl e \<Rightarrow> (s, writeStoreError e, [])
      | Inr w \<Rightarrow> answer (DeleteWorkspace (en_flush env) wsId s) (\<lambda>_. noContent)
                   (map (\<lambda>t. TmuxKill (tmuxSession t)) (terminals w)))"

definition handleRenameWorkspace :: "server_env \<Rightarrow> body_init option \<Rightarrow> string \<Rightarrow> store \<Rightarrow> served" where
  "handleRenameWorkspace env body wsId s =
     (case body_field (decodeJSON env body) ''name'' of
        None \<Rightarrow> (s, writeError 400 ''invalid request body'', [])
      | Some n \<Rightarrow>
          let name = js_trim n in
          if name = [] then (s, writeError 400 ''name is required'', [])
          else answer (RenameWorkspaceS (en_flush env) wsId name s) (\<lambda>w. writeJSON 200 (ws_json w)) [])"

definition handleListTerminals :: "string \<Rightarrow> store \<Rightarrow> served" where
  "handleListTerminals wsId s =
     (case GetWorkspace wsId s of
        Inl e \<Rightarrow> (s, writeStoreError e, [])
      | Inr w \<Rightarrow> (s, writeJSON 200 (JArr (map tm_json (terminals w))), []))"

text \<open>The name of a new terminal: the sanitized wish if it is free, or the next default name.\<close>

definition wished_name :: "server_env \<Rightarrow> body_init option \<Rightarrow> Workspace \<Rightarrow> store \<Rightarrow> store_error + string" where
  "wished_name env body w s =
     (let name = SanitizeSessionName (or_else (body_field (decodeJSON env body) ''name'') []) in
      if name = [] then DefaultTerminalName (en_has env) w s
      else case en_has env name of
          None \<Rightarrow> Inl ErrOther
        | Some ex \<Rightarrow> if ex then Inl ErrDuplicate else Inr name)"

definition handleCreateTerminal :: "server_env \<Rightarrow> body_init option \<Rightarrow> string \<Rightarrow> store \<Rightarrow> served" where
  "handleCreateTerminal env body wsId s =
     (case GetWorkspace wsId s of
        Inl e \<Rightarrow> (s, writeStoreError e, [])
      | Inr w \<Rightarrow>
          (case wished_name env body w s of
             Inl e \<Rightarrow> (s, writeStoreError e, [])
           | Inr name \<Rightarrow>
               if \<not> en_new env
               then (s, writeError 500 ''failed to start tmux session'', [TmuxNew name (ws_path w)])
               else (case en_random env of
                   None \<Rightarrow> (s, writeStoreError ErrOther, [TmuxNew name (ws_path w), TmuxKill name])
                 | Some raw \<Rightarrow>
                     let tm = \<lparr>tm_id = newID ''tm-'' raw, tm_name = name, tmuxSession = name\<rparr> in
                     (case AddTerminalS (en_flush env) wsId tm s of
                        (s', Inl e) \<Rightarrow> (s', writeStoreError e, [TmuxNew name (ws_path w), TmuxKill name])
                      | (s', Inr u) \<Rightarrow> (s', writeJSON 201 (tm_json tm), [TmuxNew name (ws_path w)])))))"

definition handleDeleteTerminal :: "server_env \<Rightarrow> string \<Rightarrow> string \<Rightarrow> store \<Rightarrow> served" where
  "handleDeleteTerminal env wsId tmId s =
     (case GetTerminal wsId tmId s of
        Inl e \<Rightarrow> (s, writeStoreError e, [])
      | Inr tm \<Rightarrow> answer (RemoveTerminal (en_flush env) wsId tmId s) (\<lambda>_. noContent) [TmuxKill (tmuxSession tm)])"

definition handleRenameTerminal :: "server_env \<Rightarrow> body_init option \<Rightarrow> string \<Rightarrow> string \<Rightarrow> store \<Rightarrow> served" where
  "handleRenameTerminal env body wsId tmId s =
     (case GetTerminal wsId tmId s of
        Inl e \<Rightarrow> (s, writeStoreError e, [])
      | Inr tm \<Rightarrow>
          (case body_field (decodeJSON env body) ''name'' of
             None \<Rightarrow> (s, writeError 400 ''invalid request body'', [])
           | Some n \<Rightarrow>
               let newName = SanitizeSessionName n in
               if newName = [] then (s, writeError 400 ''name is required'', [])
               else if newName = tmuxSession tm then (s, writeJSON 200 (tm_json tm), [])
               else (case en_has env newName of
                   None \<Rightarrow> (s, writeStoreError ErrOther, [])
                 | Some ex \<Rightarrow>
                     if ex then (s, writeStoreError ErrDuplicate, [])
                     else if \<not> en_rename env
                     then (s, writeError 500 ''failed to rename tmux session'', [TmuxRename (tmuxSession tm) newName])
                     else answer (RenameTerminalS (en_flush env) wsId tmId newName newName s)
                            (\<lambda>u. writeJSON 200 (tm_json u)) [TmuxRename (tmuxSession tm) newName])))"

text \<open>\<^verbatim>\<open>%q\<close>: a quoted Go string; the text is an argument.\<close>

definition handleAttachCmd :: "(string \<Rightarrow> string) \<Rightarrow> string \<Rightarrow> string \<Rightarrow> store \<Rightarrow> served" where
  "handleAttachCmd quote wsId tmId s =
     (case GetTerminal wsId tmId s of
        Inl e \<Rightarrow> (s, writeStoreError e, [])
      | Inr tm \<Rightarrow> (s, writeJSON 200
          (JObj [(''command'', JStr (go_utf8 (''tmux new-session -t '' @ quote (tmuxSession tm))))]), []))"

definition handleGetLayout :: "store \<Rightarrow> served" where
  "handleGetLayout s = (s, writeJSON 200 (JObj [(''layout'', or_else (st_layout s) JNull)]), [])"

text \<open>A body that is missing or not JSON is refused.\<close>

definition handleSetLayout :: "server_env \<Rightarrow> body_init option \<Rightarrow> store \<Rightarrow> served" where
  "handleSetLayout env body s =
     (if en_large env then (s, writeError 413 ''layout too large'', [])
      else case body of
          Some (BodyJson v) \<Rightarrow>
            (case SetLayout (en_flush env) (Some v) s of
               (s', Inr u) \<Rightarrow> (s', noContent, [])
             | (s', Inl e) \<Rightarrow> (s', if e = ErrInvalidLayout then writeError 400 ''invalid layout''
                 else writeError 500 ''internal server error'', []))
        | _ \<Rightarrow> (s, writeError 400 ''invalid layout'', []))"

section \<open>The server\<close>

text \<open>The argument of a route by position: \<^verbatim>\<open>r.PathValue\<close>.\<close>

definition dispatch ::
  "server_env \<Rightarrow> (string \<Rightarrow> string) \<Rightarrow> route \<Rightarrow> string list \<Rightarrow> string \<Rightarrow> body_init option \<Rightarrow> store \<Rightarrow> served" where
  "dispatch env quote r args url body s =
     (let wsId = args ! 0; tmId = args ! 1 in
      case r of
        RListWs \<Rightarrow> handleListWorkspaces s
      | RCreateWs \<Rightarrow> handleCreateWorkspace env body s
      | RDeleteWs \<Rightarrow> handleDeleteWorkspace env wsId s
      | RRenameWs \<Rightarrow> handleRenameWorkspace env body wsId s
      | RListTm \<Rightarrow> handleListTerminals wsId s
      | RCreateTm \<Rightarrow> handleCreateTerminal env body wsId s
      | RDeleteTm \<Rightarrow> handleDeleteTerminal env wsId tmId s
      | RRenameTm \<Rightarrow> handleRenameTerminal env body wsId tmId s
      | RAttachCmd \<Rightarrow> handleAttachCmd quote wsId tmId s
      | RGetLayout \<Rightarrow> handleGetLayout s
      | RSetLayout \<Rightarrow> handleSetLayout env body s
      | _ \<Rightarrow> (s, en_other env r args url body, []))"

text \<open>Only the login and the files of the front end are reached without a valid cookie. A path with
  another method is refused by the inner mux, which does not know the login.\<close>

definition other_method :: "string \<Rightarrow> bool" where
  "other_method url =
     list_ex (\<lambda>(m, ps, r). r \<noteq> RLogin \<and> map_option fst (route_of m url) = Some r) routes"

definition serve ::
  "server_env \<Rightarrow> (string \<Rightarrow> string) \<Rightarrow> string \<Rightarrow> string \<Rightarrow> body_init option \<Rightarrow> store \<Rightarrow> served" where
  "serve env quote m url body s =
     (case route_of m url of
        Some (r, args) \<Rightarrow>
          if r \<noteq> RLogin \<and> \<not> en_auth env then (s, writeError 401 ''authentication required'', [])
          else dispatch env quote r args url body s
      | None \<Rightarrow>
          (s, if \<not> prefix ''/api/'' (url_path url) then en_static env url
              else if \<not> en_auth env then writeError 401 ''authentication required''
              else if other_method url then methodNotAllowed else notFound, []))"

text \<open>The server as the client's \<^verbatim>\<open>fetch\<close>.\<close>

definition server_fetch :: "server_env \<Rightarrow> (string \<Rightarrow> string) \<Rightarrow> store \<Rightarrow> fetcher" where
  "server_fetch env quote s url init = Answered (fst (snd (serve env quote (ri_method init) url (ri_body init) s)))"

section \<open>Every request reaches its handler\<close>

text \<open>What the request functions of the front end make of an answer.\<close>

definition client_sees :: "served \<Rightarrow> api_error + json" where
  "client_sees a =
     (let res = fst (snd a) in
      if \<not> res_ok res then Inl (parseError res)
      else case res_body res of NotJson t \<Rightarrow> Inl JsonSyntaxError | AsJson v \<Rightarrow> Inr v)"

definition client_done :: "served \<Rightarrow> api_error + unit" where
  "client_done a = (let res = fst (snd a) in if \<not> res_ok res then Inl (parseError res) else Inr ())"

lemma fetch_json:
  "apiJson (server_fetch env quote s) url o' = client_sees (serve env quote (or_else (opt_method o') ''GET'') url
     (map_option BodyJson (opt_body o')) s)"
  "apiVoid (server_fetch env quote s) url o' = client_done (serve env quote (or_else (opt_method o') ''GET'') url
     (map_option BodyJson (opt_body o')) s)"
  by (simp_all add: apiJson_def apiVoid_def send_checked_def server_fetch_def buildInit_def client_sees_def
      client_done_def Let_def)

definition seg_ok :: "string \<Rightarrow> bool" where
  "seg_ok i = (i \<noteq> [] \<and> i \<noteq> ''.'' \<and> i \<noteq> ''..'')"

lemma encode_seg:
  "encodeURIComponent i = [] \<longleftrightarrow> i = []" "encodeURIComponent i = ''.'' \<longleftrightarrow> i = ''.''"
  "encodeURIComponent i = ''..'' \<longleftrightarrow> i = ''..''"
proof -
  have "encodeURIComponent [] = []" "encodeURIComponent ''.'' = ''.''" "encodeURIComponent ''..'' = ''..''"
    by (simp_all add: encodeURIComponent_def uri_unreserved_def)
  then show "encodeURIComponent i = [] \<longleftrightarrow> i = []" "encodeURIComponent i = ''.'' \<longleftrightarrow> i = ''.''"
    "encodeURIComponent i = ''..'' \<longleftrightarrow> i = ''..''" using uri.enc_inject by metis+
qed

lemma enc_no_query: "CHR ''?'' \<notin> set (encodeURIComponent i)"
  using encodeURIComponent_chars [of "CHR ''?''" i] by auto

lemma url_plain: "CHR ''?'' \<notin> set u \<Longrightarrow> url_path u = u \<and> url_query u = []"
  by (auto simp: url_path_def url_query_def takeWhile_eq_all_conv dropWhile_eq_Nil_conv)

lemma url_with_query: "CHR ''?'' \<notin> set u \<Longrightarrow> url_path (u @ CHR ''?'' # q) = u \<and> url_query (u @ CHR ''?'' # q) = CHR ''?'' # q"
  by (induction u) (auto simp: url_path_def url_query_def)

text \<open>A URL by its raw segments.\<close>

definition raw_url :: "string list \<Rightarrow> string" where
  "raw_url xs = concat (map ((#) CHR ''/'') xs)"

definition raw_seg :: "string \<Rightarrow> bool" where
  "raw_seg x = (CHR ''/'' \<notin> set x \<and> CHR ''?'' \<notin> set x)"

lemma raw_split: "xs \<noteq> [] \<Longrightarrow> list_all raw_seg xs \<Longrightarrow> js_split CHR ''/'' (raw_url xs) = [] # xs"
proof -
  have first: "js_split CHR ''/'' (CHR ''/'' # r) = [] # js_split CHR ''/'' r" for r
    using js_split_append [of "CHR ''/''" "[]" r] by (simp add: js_split_none)
  show "xs \<noteq> [] \<Longrightarrow> list_all raw_seg xs \<Longrightarrow> js_split CHR ''/'' (raw_url xs) = [] # xs"
  proof (induction xs)
    case (Cons x xs)
    then have x: "CHR ''/'' \<notin> set x" by (simp add: raw_seg_def)
    show ?case
    proof (cases xs)
      case Nil
      with x show ?thesis by (simp add: raw_url_def first js_split_none)
    next
      case (Cons y ys)
      then obtain u where u: "raw_url xs = CHR ''/'' # u" by (simp add: raw_url_def)
      have "js_split CHR ''/'' (raw_url (x # xs)) = [] # js_split CHR ''/'' (x @ CHR ''/'' # u)"
        using u first [of "x @ raw_url xs"] by (simp add: raw_url_def)
      also have "\<dots> = [] # x # js_split CHR ''/'' u" using x by (simp add: js_split_cons)
      also have "js_split CHR ''/'' u = xs"
        using Cons.IH Cons.prems Cons u first [of u] by simp
      finally show ?thesis .
    qed
  qed simp
qed

lemma raw_no_query: "list_all raw_seg xs \<Longrightarrow> CHR ''?'' \<notin> set (raw_url xs)"
  by (induction xs) (auto simp: raw_url_def raw_seg_def)

definition plain_segs :: "string list \<Rightarrow> bool" where
  "plain_segs xs = list_all (\<lambda>x. x \<noteq> [] \<and> x \<noteq> ''.'' \<and> x \<noteq> ''..'') xs"

lemma raw_route:
  assumes "xs \<noteq> []" and "list_all raw_seg xs" and "q = [] \<or> (\<exists>r. q = CHR ''?'' # r)"
  shows "route_of m (raw_url xs @ q) = (if plain_segs xs then find_route routes m (map (pct_decode False) xs) else None)"
    and "url_query (raw_url xs @ q) = q"
proof -
  have "url_path (raw_url xs @ q) = raw_url xs \<and> url_query (raw_url xs @ q) = q"
    using assms(3) url_plain [OF raw_no_query [OF assms(2)]] url_with_query [OF raw_no_query [OF assms(2)]] by auto
  then show "route_of m (raw_url xs @ q) = (if plain_segs xs then find_route routes m (map (pct_decode False) xs) else None)"
    and "url_query (raw_url xs @ q) = q"
    using raw_split [OF assms(1,2)] by (simp_all add: route_of_def plain_segs_def)
qed

lemma raw_enc [simp]: "raw_seg (encodeURIComponent i)"
  using enc_no_query [of i] uri.enc_no_sep [of i] by (simp add: raw_seg_def)

lemma plain_enc: "plain_segs (encodeURIComponent i # xs) = (seg_ok i \<and> plain_segs xs)"
  by (simp add: plain_segs_def encode_seg seg_ok_def)

lemma raw_urls:
  "workspace_path i = raw_url [''api'', ''workspaces'', encodeURIComponent i]"
  "terminals_path i = raw_url [''api'', ''workspaces'', encodeURIComponent i, ''terminals'']"
  "terminal_path i j = raw_url [''api'', ''workspaces'', encodeURIComponent i, ''terminals'', encodeURIComponent j]"
  "''/api/workspaces'' = raw_url [''api'', ''workspaces'']" "''/api/layout'' = raw_url [''api'', ''layout'']"
  "''/api/login'' = raw_url [''api'', ''login'']" "''/api/logout'' = raw_url [''api'', ''logout'']"
  "''/api/auth/check'' = raw_url [''api'', ''auth'', ''check'']" "''/api/system/stats'' = raw_url [''api'', ''system'', ''stats'']"
  "''/api/fs/list'' = raw_url [''api'', ''fs'', ''list'']" "''/api/fs/browse'' = raw_url [''api'', ''fs'', ''browse'']"
  "''/api/fs/download'' = raw_url [''api'', ''fs'', ''download'']" "''/api/fs/read'' = raw_url [''api'', ''fs'', ''read'']"
  "''/api/fs/write'' = raw_url [''api'', ''fs'', ''write'']"
  by (simp_all add: workspace_path_def terminals_path_def terminal_path_def raw_url_def)

lemma raw_more: "raw_url xs @ CHR ''/'' # l = raw_url (xs @ [l])"
  by (simp add: raw_url_def)

lemma query_path: "qs [(''path'', Some p)] = CHR ''?'' # usp_string [(''path'', p)]"
  by (simp add: qs_def usp_of_def)

lemma parse_path: "parse_query (CHR ''?'' # usp_string [(''path'', p)]) = [(''path'', p)]"
  by (simp add: parse_query_def split_usp_string read_pair_encoded del: usp_string.simps)

lemma plain_lits [simp]:
  "plain_segs []" "plain_segs (''api'' # xs) = plain_segs xs" "plain_segs (''workspaces'' # xs) = plain_segs xs"
  "plain_segs (''terminals'' # xs) = plain_segs xs" "plain_segs [''attach-cmd'']" "plain_segs [''upload'']" "plain_segs [''ws'']"
  "plain_segs [''login'']" "plain_segs [''logout'']" "plain_segs [''auth'', ''check'']" "plain_segs [''system'', ''stats'']"
  "plain_segs [''layout'']" "plain_segs [''fs'', ''list'']" "plain_segs [''fs'', ''browse'']" "plain_segs [''fs'', ''download'']"
  "plain_segs [''fs'', ''read'']" "plain_segs [''fs'', ''write'']"
  by (simp_all add: plain_segs_def)

lemma raw_lits [simp]:
  "raw_seg ''api''" "raw_seg ''workspaces''" "raw_seg ''terminals''" "raw_seg ''attach-cmd''" "raw_seg ''upload''"
  "raw_seg ''ws''" "raw_seg ''login''" "raw_seg ''logout''" "raw_seg ''auth''" "raw_seg ''check''" "raw_seg ''system''"
  "raw_seg ''stats''" "raw_seg ''layout''" "raw_seg ''fs''" "raw_seg ''list''" "raw_seg ''browse''" "raw_seg ''download''"
  "raw_seg ''read''" "raw_seg ''write''"
  by (simp_all add: raw_seg_def)

lemma routed:
  "find_route routes ''GET'' [''api'', ''workspaces''] = Some (RListWs, [])"
  "find_route routes ''POST'' [''api'', ''workspaces''] = Some (RCreateWs, [])"
  "find_route routes ''DELETE'' [''api'', ''workspaces'', i] = Some (RDeleteWs, [i])"
  "find_route routes ''PATCH'' [''api'', ''workspaces'', i] = Some (RRenameWs, [i])"
  "find_route routes ''POST'' [''api'', ''workspaces'', i, ''terminals''] = Some (RCreateTm, [i])"
  "find_route routes ''DELETE'' [''api'', ''workspaces'', i, ''terminals'', j] = Some (RDeleteTm, [i, j])"
  "find_route routes ''PATCH'' [''api'', ''workspaces'', i, ''terminals'', j] = Some (RRenameTm, [i, j])"
  "find_route routes ''GET'' [''api'', ''workspaces'', i, ''terminals'', j, ''attach-cmd''] = Some (RAttachCmd, [i, j])"
  "find_route routes ''POST'' [''api'', ''workspaces'', i, ''terminals'', j, ''upload''] = Some (RUpload, [i, j])"
  "find_route routes ''GET'' [''api'', ''workspaces'', i, ''terminals'', j, ''ws''] = Some (RWs, [i, j])"
  "find_route routes ''GET'' [''api'', ''fs'', ''browse''] = Some (RBrowse, [])"
  "find_route routes ''GET'' [''api'', ''fs'', ''list''] = Some (RListDir, [])"
  "find_route routes ''GET'' [''api'', ''fs'', ''download''] = Some (RDownload, [])"
  "find_route routes ''GET'' [''api'', ''fs'', ''read''] = Some (RReadFile, [])"
  "find_route routes ''POST'' [''api'', ''fs'', ''write''] = Some (RWriteFile, [])"
  "find_route routes ''GET'' [''api'', ''layout''] = Some (RGetLayout, [])"
  "find_route routes ''PUT'' [''api'', ''layout''] = Some (RSetLayout, [])"
  "find_route routes ''GET'' [''api'', ''system'', ''stats''] = Some (RStats, [])"
  "find_route routes ''POST'' [''api'', ''login''] = Some (RLogin, [])"
  "find_route routes ''POST'' [''api'', ''logout''] = Some (RLogout, [])"
  "find_route routes ''GET'' [''api'', ''auth'', ''check''] = Some (RAuthCheck, [])"
  by (simp_all add: routes_def Let_def)

lemma lit_decode [simp]:
  "pct_decode False ''api'' = ''api''" "pct_decode False ''workspaces'' = ''workspaces''"
  "pct_decode False ''terminals'' = ''terminals''" "pct_decode False ''attach-cmd'' = ''attach-cmd''"
  by simp_all

definition sent_json :: "(string \<times> json) list \<Rightarrow> body_init option" where
  "sent_json ps = Some (BodyJson (JObj ps))"

lemma reach_resource:
  assumes "seg_ok i" and "seg_ok j"
  shows "route_of m (workspace_path i) = find_route routes m [''api'', ''workspaces'', i]"
    and "route_of m (terminals_path i) = find_route routes m [''api'', ''workspaces'', i, ''terminals'']"
    and "route_of m (terminal_path i j) = find_route routes m [''api'', ''workspaces'', i, ''terminals'', j]"
    and "route_of m (terminal_path i j @ ''/attach-cmd'') = find_route routes m [''api'', ''workspaces'', i, ''terminals'', j, ''attach-cmd'']"
    and "route_of m (terminal_path i j @ ''/upload'') = find_route routes m [''api'', ''workspaces'', i, ''terminals'', j, ''upload'']"
    and "route_of m (terminal_path i j @ ''/ws'') = find_route routes m [''api'', ''workspaces'', i, ''terminals'', j, ''ws'']"
  unfolding raw_urls
  using assms raw_route(1) [where q = "[]" and m = m] by (simp_all add: raw_more plain_enc decode_encodeURIComponent)

lemma reach_fixed:
  "route_of m ''/api/workspaces'' = find_route routes m [''api'', ''workspaces'']"
  "route_of m ''/api/layout'' = find_route routes m [''api'', ''layout'']"
  "route_of m ''/api/logout'' = find_route routes m [''api'', ''logout'']"
  "route_of m ''/api/login'' = find_route routes m [''api'', ''login'']"
  "route_of m ''/api/auth/check'' = find_route routes m [''api'', ''auth'', ''check'']"
  "route_of m ''/api/system/stats'' = find_route routes m [''api'', ''system'', ''stats'']"
  unfolding raw_urls using raw_route(1) [where q = "[]" and m = m] by simp_all

lemma reach_files:
  assumes "url \<in> {''/api/fs/list'', ''/api/fs/browse'', ''/api/fs/download'', ''/api/fs/read'', ''/api/fs/write''}"
  shows "route_of m (url @ qs [(''path'', Some p)]) = find_route routes m (tl (js_split CHR ''/'' url))"
    and "query_get (url @ qs [(''path'', Some p)]) ''path'' = p"
proof -
  obtain xs where xs: "url = raw_url xs" "xs \<noteq> []" "list_all raw_seg xs" "plain_segs xs" "map (pct_decode False) xs = xs"
    using assms unfolding raw_urls by (elim insertE) auto
  note r = raw_route [OF xs(2,3), where q = "qs [(''path'', Some p)]", unfolded query_path]
  show "route_of m (url @ qs [(''path'', Some p)]) = find_route routes m (tl (js_split CHR ''/'' url))"
    unfolding query_path xs(1) using r(1) xs raw_split [OF xs(2,3)] by simp
  show "query_get (url @ qs [(''path'', Some p)]) ''path'' = p"
    unfolding query_get_def query_path xs(1) using r(2) by (simp add: parse_path del: usp_string.simps)
qed

lemma file_routes:
  assumes "(r, url, m) \<in> {(RListDir, ''/api/fs/list'', ''GET''), (RBrowse, ''/api/fs/browse'', ''GET''),
     (RReadFile, ''/api/fs/read'', ''GET''), (RWriteFile, ''/api/fs/write'', ''POST''), (RDownload, ''/api/fs/download'', ''GET'')}"
  shows "route_of m (url @ qs [(''path'', Some p)]) = Some (r, [])" and "query_get (url @ qs [(''path'', Some p)]) ''path'' = p"
proof -
  have lit: "js_split CHR ''/'' ''/api/fs/list'' = ['''', ''api'', ''fs'', ''list'']"
    "js_split CHR ''/'' ''/api/fs/browse'' = ['''', ''api'', ''fs'', ''browse'']"
    "js_split CHR ''/'' ''/api/fs/read'' = ['''', ''api'', ''fs'', ''read'']"
    "js_split CHR ''/'' ''/api/fs/write'' = ['''', ''api'', ''fs'', ''write'']"
    "js_split CHR ''/'' ''/api/fs/download'' = ['''', ''api'', ''fs'', ''download'']"
    unfolding raw_urls by (simp_all add: raw_split)
  have "url \<in> {''/api/fs/list'', ''/api/fs/browse'', ''/api/fs/download'', ''/api/fs/read'', ''/api/fs/write''}"
    using assms by auto
  from reach_files [OF this, where p = p] assms lit routed(11-15)
  show "route_of m (url @ qs [(''path'', Some p)]) = Some (r, [])" and "query_get (url @ qs [(''path'', Some p)]) ''path'' = p"
    by auto
qed


text \<open>A server with one workspace.\<close>

definition demo_env :: server_env where
  "demo_env = \<lparr>en_auth = True, en_flush = True, en_random = Some [CHR 0x01, CHR 0xAB, CHR 0x00, CHR 0x7F],
     en_root = ''/home/u'', en_symlinks = Inr, en_has = (\<lambda>x. Some (x = ''s1'')), en_new = True, en_rename = True,
     en_large = False, en_static = (\<lambda>url. noContent), en_other = (\<lambda>r args url body. noContent)\<rparr>"

definition demo_store :: store where
  "demo_store = \<lparr>st_workspaces = [demo_ws], st_layout = None, st_file = Some ([ws_written demo_ws], None)\<rparr>"

lemma demo_env_fields [simp]:
  "en_auth demo_env" "en_flush demo_env" "en_random demo_env = Some [CHR 0x01, CHR 0xAB, CHR 0x00, CHR 0x7F]"
  "en_has demo_env x = Some (x = ''s1'')" "en_new demo_env" "en_rename demo_env" "\<not> en_large demo_env"
  "en_root demo_env = ''/home/u''" "en_symlinks demo_env x = Inr x"
  "st_workspaces demo_store = [demo_ws]" "st_layout demo_store = None"
  by (simp_all add: demo_env_def demo_store_def)


section \<open>Paths stay below the root\<close>

text \<open>What the library documents of \<^verbatim>\<open>filepath.EvalSymlinks\<close>: the result is clean, and absolute if the path is.\<close>

definition symlinks_clean :: "(string \<Rightarrow> string + string) \<Rightarrow> bool" where
  "symlinks_clean ev = (\<forall>p q. ev p = Inr q \<longrightarrow> is_abs p \<longrightarrow> is_abs q \<and> go_clean q = q)"

definition below :: "string \<Rightarrow> string \<Rightarrow> bool" where
  "below base p =
     (\<exists>rest. path_parts p = path_parts base @ rest \<and> list_all (\<lambda>x. x \<noteq> ''..'' \<and> x \<noteq> ''.'' \<and> x \<noteq> []) rest)"

lemma resolve_below:
  assumes "symlinks_clean (en_symlinks env)" and "is_abs (en_root env)" and "resolvePath env p = Inr q"
  shows "below (en_root env) q"
proof (cases "q = en_root env")
  case True
  then show ?thesis by (simp add: below_def)
next
  case False
  let ?c = "if is_abs (go_clean p) then go_clean p else go_join (en_root env) (go_clean p)"
  have "go_join (en_root env) b = go_clean (en_root env @ CHR ''/'' # b)" for b
    using assms(2) by (auto simp: go_join_def is_abs_def)
  moreover have "is_abs (en_root env @ CHR ''/'' # b)" for b
    using assms(2) by (cases "en_root env") (simp_all add: is_abs_def)
  ultimately have abs: "is_abs ?c" using clean_parts_of(2) by simp
  from False assms(3) have "en_symlinks env ?c = Inr q" and pre: "prefix (en_root env @ ''/'') q"
    by (auto simp: resolvePath_def Let_def split: if_splits sum.splits)
  with assms(1) abs have q: "is_abs q" "go_clean q = q" unfolding symlinks_clean_def by blast+
  from pre obtain r where "q = en_root env @ CHR ''/'' # r" by (auto simp: prefix_def)
  then have parts: "path_parts q = path_parts (en_root env) @ path_parts r" by (simp add: path_parts_append)
  have "x \<noteq> ''..'' \<and> x \<noteq> ''.'' \<and> x \<noteq> []" if "x \<in> set (path_parts r)" for x
    using clean_abs [OF q(1), of x] parts that unfolding q(2) by auto
  with parts show ?thesis by (auto simp: below_def list_all_iff)
qed

text \<open>
  With \<^verbatim>\<open>--root /\<close> the boundary is the text \<^verbatim>\<open>//\<close>, with which no path begins: everything but the root
  itself is refused.
\<close>

theorem root_slash_refuses:
  assumes "en_root env = ''/''" and "en_symlinks env = Inr"
  shows "resolvePath env ''/etc'' = Inl ''path is outside the allowed root''"
  using assms
  by (simp add: resolvePath_def go_clean_def is_abs_def path_parts_def js_split.simps js_trim_def is_ws_def Let_def)

end
