(* ===== verification/EndToEnd.thy ===== *)
theory EndToEnd
  imports Api
begin

text \<open>
  Front end and server together: the application (\<open>Hub\<close>) and the store behind \<open>serve\<close>. A request that a
  task of the hub has sent is handled by the server at some later time, its answer queues up and
  reaches the page later still. The answers arrive in the order in which the server made them; what
  goes wrong otherwise is shown in \<open>Hub\<close> (\<open>stale_load_drops_workspace\<close>). A request may also never arrive.
\<close>

section \<open>What the page makes of an answer\<close>

text \<open>The casts of the request functions: reading the properties of the parsed value.\<close>

definition read_str :: "json \<Rightarrow> string \<Rightarrow> string" where
  "read_str j k = (case get_prop j k of Some (JStr s) \<Rightarrow> s | _ \<Rightarrow> [])"

definition read_tm :: "json \<Rightarrow> Terminal" where
  "read_tm j = \<lparr>tm_id = read_str j ''id'', tm_name = read_str j ''name'', tmuxSession = read_str j ''tmuxSession''\<rparr>"

definition read_ws :: "json \<Rightarrow> Workspace" where
  "read_ws j = \<lparr>ws_id = read_str j ''id'', ws_name = read_str j ''name'', ws_path = read_str j ''path'',
     terminals = (case get_prop j ''terminals'' of Some (JArr ts) \<Rightarrow> map read_tm ts | _ \<Rightarrow> [])\<rparr>"

fun outcome_of :: "task \<Rightarrow> api_error + json \<Rightarrow> outcome" where
  "outcome_of t (Inl e) = Failed"
| "outcome_of LoadTask (Inr v) = GotWorkspaces (case v of JArr js \<Rightarrow> map read_ws js | _ \<Rightarrow> [])"
| "outcome_of (AddTask w p) (Inr v) = GotTerminal (read_tm v)"
| "outcome_of (CreateInPaneTask p i) (Inr v) = GotTerminal (read_tm v)"
| "outcome_of (RenameWsTask w n) (Inr v) = GotWorkspace (read_ws v)"
| "outcome_of (RenameTmTask w tm n) (Inr v) = GotTerminal (read_tm v)"
| "outcome_of t (Inr v) = GotNothing"

text \<open>The request a task has on the way: method, URL, body.\<close>

fun task_request :: "task \<Rightarrow> string \<times> string \<times> body_init option" where
  "task_request LoadTask = (''GET'', ''/api/workspaces'', None)"
| "task_request (AddTask w p) = (''POST'', terminals_path (ws_id w), sent_json [(''name'', JStr [])])"
| "task_request (CreateInPaneTask p i) = (''POST'', terminals_path i, sent_json [(''name'', JStr [])])"
| "task_request (DeleteWsTask p w) = (''DELETE'', workspace_path (ws_id w), None)"
| "task_request (DeleteTmTask p w tm) = (''DELETE'', terminal_path (ws_id w) (tm_id tm), None)"
| "task_request (RenameWsTask w n) = (''PATCH'', workspace_path (ws_id w), sent_json [(''name'', JStr n)])"
| "task_request (RenameTmTask w tm n) = (''PATCH'', terminal_path (ws_id w) (tm_id tm), sent_json [(''name'', JStr n)])"
| "task_request LogoutTask = (''POST'', ''/api/logout'', None)"

definition serve_task :: "server_env \<Rightarrow> (string \<Rightarrow> string) \<Rightarrow> task \<Rightarrow> store \<Rightarrow> served" where
  "serve_task env quote t s = (case task_request t of (m, url, body) \<Rightarrow> serve env quote m url body s)"

definition voids :: "task \<Rightarrow> bool" where
  "voids t = (case t of DeleteWsTask p w \<Rightarrow> True | DeleteTmTask p w tm \<Rightarrow> True | LogoutTask \<Rightarrow> True | _ \<Rightarrow> False)"

text \<open>The outcome is what the task's request function makes of the answer of exactly that request.\<close>

lemma task_call_served:
  "outcome_of t (task_call (server_fetch env quote s) t) =
     outcome_of t (if voids t then map_sum id (\<lambda>u. JNull) (client_done (serve_task env quote t s))
       else client_sees (serve_task env quote t s))"
  by (cases t) (simp_all add: serve_task_def voids_def fetch_json listWorkspaces_def createTerminal_def deleteWorkspace_def
      deleteTerminal_def renameWorkspace_def renameTerminal_def logout_def sent_json_def)

section \<open>The system\<close>

datatype message = Reply nat task outcome | NewWorkspace Workspace

record sys_state =
  sy_hub :: hub
  sy_store :: store
  sy_queue :: "message list"       \<comment> \<open>answers on their way, the oldest first\<close>
  sy_loaded :: bool                \<comment> \<open>a list has reached the page since the last logout\<close>

datatype sys_event =
    Client hub_event                      \<comment> \<open>everything the page does of its own\<close>
  | Process nat server_env                \<comment> \<open>the server handles the request of a task\<close>
  | ProcessCreate server_env string string \<comment> \<open>the wizard's request, with name and path\<close>
  | Lost nat                              \<comment> \<open>a request that never arrives\<close>
  | Deliver                               \<comment> \<open>the next answer reaches the page\<close>

definition enqueue :: "message \<Rightarrow> sys_state \<Rightarrow> sys_state" where
  "enqueue m s = s\<lparr>sy_queue := sy_queue s @ [m]\<rparr>"

fun loaded_after :: "message \<Rightarrow> bool \<Rightarrow> bool" where
  "loaded_after (Reply k LoadTask (GotWorkspaces wss)) b = True"
| "loaded_after (Reply k LogoutTask r) b = False"
| "loaded_after m b = b"

fun on_message :: "message \<Rightarrow> hub \<Rightarrow> hub" where
  "on_message (Reply k t r) h = hub_step h (Done k r)"
| "on_message (NewWorkspace w) h = hub_step h (WizardCreated w)"

definition process :: "(string \<Rightarrow> string) \<Rightarrow> nat \<Rightarrow> server_env \<Rightarrow> sys_state \<Rightarrow> sys_state" where
  "process quote k env s =
     (case map_of (tasks (sy_hub s)) k of
        None \<Rightarrow> s
      | Some t \<Rightarrow>
          enqueue (Reply k t (outcome_of t (task_call (server_fetch env quote (sy_store s)) t)))
            (s\<lparr>sy_store := fst (serve_task env quote t (sy_store s))\<rparr>))"

definition process_create :: "(string \<Rightarrow> string) \<Rightarrow> server_env \<Rightarrow> string \<Rightarrow> string \<Rightarrow> sys_state \<Rightarrow> sys_state" where
  "process_create quote env n p s =
     (let s1 = s\<lparr>sy_store := fst (serve env quote ''POST'' ''/api/workspaces''
              (sent_json [(''name'', JStr n), (''path'', JStr p)]) (sy_store s))\<rparr>
      in case createWorkspace (server_fetch env quote (sy_store s)) n p of
           Inl e \<Rightarrow> s1
         | Inr v \<Rightarrow> enqueue (NewWorkspace (read_ws v)) s1)"

fun sys_step :: "(string \<Rightarrow> string) \<Rightarrow> sys_state \<Rightarrow> sys_event \<Rightarrow> sys_state" where
  "sys_step quote s (Client e) = s\<lparr>sy_hub := hub_step (sy_hub s) e\<rparr>"
| "sys_step quote s (Process k env) = process quote k env s"
| "sys_step quote s (ProcessCreate env n p) = process_create quote env n p s"
| "sys_step quote s (Lost k) =
     (case map_of (tasks (sy_hub s)) k of None \<Rightarrow> s | Some t \<Rightarrow> enqueue (Reply k t Failed) s)"
| "sys_step quote s Deliver =
     (case sy_queue s of
        [] \<Rightarrow> s
      | m # ms \<Rightarrow> s\<lparr>sy_hub := on_message m (sy_hub s), sy_queue := ms, sy_loaded := loaded_after m (sy_loaded s)\<rparr>)"

definition sys_init :: "id_world \<Rightarrow> json option \<Rightarrow> bool \<Rightarrow> store \<Rightarrow> sys_state" where
  "sys_init w srv mobile st = \<lparr>sy_hub = hub_init w srv mobile, sy_store = st, sy_queue = [], sy_loaded = False\<rparr>"

text \<open>What can happen: the two events that stand for answers are the queue's; a request is answered once;
  the state file can be written; random ids are new.\<close>

definition answered :: "message list \<Rightarrow> nat list" where
  "answered ms = List.map_filter (\<lambda>m. case m of Reply k t r \<Rightarrow> Some k | NewWorkspace w \<Rightarrow> None) ms"

definition new_ids :: "server_env \<Rightarrow> store \<Rightarrow> bool" where
  "new_ids env s =
     (case en_random env of
        None \<Rightarrow> True
      | Some raw \<Rightarrow> newID ''ws-'' raw \<notin> ws_id ` set (st_workspaces s)
          \<and> newID ''tm-'' raw \<notin> tm_id ` \<Union> (set ` terminals ` set (st_workspaces s)))"

definition page_event_ok :: "hub \<Rightarrow> hub_event \<Rightarrow> bool" where
  "page_event_ok h e = (hub_ok h e \<and> (case e of Done k r \<Rightarrow> False | WizardCreated w \<Rightarrow> False | _ \<Rightarrow> True))"

definition sys_ok :: "sys_state \<Rightarrow> sys_event \<Rightarrow> bool" where
  "sys_ok s e =
     (case e of
        Client he \<Rightarrow> page_event_ok (sy_hub s) he
      | Process k env \<Rightarrow> k \<notin> set (answered (sy_queue s)) \<and> en_flush env \<and> new_ids env (sy_store s)
      | ProcessCreate env n p \<Rightarrow> en_flush env \<and> new_ids env (sy_store s)
      | Lost k \<Rightarrow> k \<notin> set (answered (sy_queue s))
      | Deliver \<Rightarrow> True)"

section \<open>The server's list stays in order\<close>

definition ids_written :: "Workspace \<Rightarrow> bool" where
  "ids_written w = (utf8_valid (ws_id w) \<and> list_all (\<lambda>tm. utf8_valid (tm_id tm)) (terminals w))"

definition list_ok :: "Workspace list \<Rightarrow> bool" where
  "list_ok wss = (distinct (map ws_id wss) \<and> list_all ids_written wss
     \<and> list_all (\<lambda>w. distinct (map tm_id (terminals w))) wss)"

lemma read_back [simp]: "read_tm (tm_json tm) = tm_written tm" "read_ws (ws_json w) = ws_written w"
proof -
  have tm: "read_tm (tm_json tm) = tm_written tm" for tm
    by (simp add: read_tm_def tm_json_def tm_written_def read_str_def)
  then show "read_tm (tm_json tm) = tm_written tm" .
  show "read_ws (ws_json w) = ws_written w"
    by (simp add: read_ws_def ws_json_def ws_written_def read_str_def tm comp_def)
qed

lemma written_ids:
  "utf8_valid (tm_id tm) \<Longrightarrow> tm_id (tm_written tm) = tm_id tm"
  "ids_written w \<Longrightarrow> ws_id (ws_written w) = ws_id w"
  "ids_written w \<Longrightarrow> map tm_id (terminals (ws_written w)) = map tm_id (terminals w)"
  by (auto simp: tm_written_def ws_written_def ids_written_def go_utf8_id list_all_iff)

lemma change_first_map:
  "distinct (map g xs) \<Longrightarrow> change_first (\<lambda>x. g x = i) f xs = map (\<lambda>x. if g x = i then f x else x) xs"
proof (induction xs)
  case (Cons x xs)
  show ?case
  proof (cases "g x = i")
    case True
    with Cons.prems have "\<forall>y \<in> set xs. g y \<noteq> i" by (auto simp: image_iff)
    then have "map (\<lambda>x. if g x = i then f x else x) xs = xs" by (auto intro: map_idI)
    with True show ?thesis by simp
  next
    case False
    with Cons show ?thesis by simp
  qed
qed simp

lemma drop_first_filter:
  "distinct (map g xs) \<Longrightarrow> drop_first (\<lambda>x. g x = i) xs = filter (\<lambda>x. g x \<noteq> i) xs"
proof (induction xs)
  case (Cons x xs)
  show ?case
  proof (cases "g x = i")
    case True
    with Cons.prems have "\<forall>y \<in> set xs. g y \<noteq> i" by (auto simp: image_iff)
    then have "filter (\<lambda>x. g x \<noteq> i) xs = xs" by simp
    with True show ?thesis by simp
  next
    case False
    with Cons show ?thesis by simp
  qed
qed simp

lemma digit_ascii: "d < 16 \<Longrightarrow> in_range 0 0x7F (digit_char d)"
  by (drule less_16_cases, elim disjE, drule less_10_cases, elim disjE) (simp_all add: digit_char_def in_range_def)

lemma newID_valid: "list_all (in_range 0 0x7F) pre \<Longrightarrow> utf8_valid (newID pre raw)"
proof -
  assume "list_all (in_range 0 0x7F) pre"
  moreover have "(of_char c :: nat) div 16 < 16" for c using of_char_less [of c] by (simp add: div_less_iff_less_mult)
  ultimately have "list_all (in_range 0 0x7F) (newID pre raw)"
    by (auto simp: newID_def list_all_iff intro: digit_ascii)
  then show ?thesis by (rule utf8_ascii)
qed

text \<open>The effect of an answer on the list of the page.\<close>

fun list_effect :: "task \<Rightarrow> outcome \<Rightarrow> Workspace list \<Rightarrow> Workspace list" where
  "list_effect (AddTask w p) (GotTerminal tm) wss = add_terminal (ws_id w) tm wss"
| "list_effect (CreateInPaneTask p i) (GotTerminal tm) wss = add_terminal i tm wss"
| "list_effect (DeleteWsTask p w) GotNothing wss = remove_workspace (ws_id w) wss"
| "list_effect (DeleteTmTask p w tm) GotNothing wss = remove_terminal (ws_id w) (tm_id tm) wss"
| "list_effect (RenameWsTask w n) (GotWorkspace u) wss = replace_workspace u wss"
| "list_effect (RenameTmTask w tm n) (GotTerminal u) wss = replace_terminal (ws_id w) u wss"
| "list_effect t r wss = wss"

lemma finish_list:
  "t \<noteq> LoadTask \<Longrightarrow> t \<noteq> LogoutTask \<Longrightarrow> workspaces (finish t r h) = list_effect t r (workspaces h)"
  by (cases t; cases r) (simp_all add: Let_def)

text \<open>What a handler does: it refuses and leaves the store alone, or it succeeds.\<close>

definition refused :: "served \<Rightarrow> store \<Rightarrow> bool" where
  "refused a s = (fst a = s \<and> \<not> res_ok (fst (snd a)))"

lemma errors_not_ok [simp]:
  "res_ok (writeError n m) = (200 \<le> n \<and> n \<le> 299)" "res_ok (writeJSON n v) = (200 \<le> n \<and> n \<le> 299)"
  "res_ok noContent" "\<not> res_ok notFound" "\<not> res_ok methodNotAllowed" "\<not> res_ok (writeStoreError e)"
  by (cases e; simp add: res_ok_def writeError_def writeJSON_def noContent_def notFound_def methodNotAllowed_def)+

lemma create_terminal_cases:
  assumes "en_flush env"
  obtains (refused) "refused (handleCreateTerminal env b i s) s"
  | (created) w raw name where "findWorkspaceLocked i s = Some w" and "en_random env = Some raw"
      and "st_workspaces (fst (handleCreateTerminal env b i s)) =
        change_first (\<lambda>w. ws_id w = i) (\<lambda>w. w\<lparr>terminals := terminals w @ [\<lparr>tm_id = newID ''tm-'' raw, tm_name = name, tmuxSession = name\<rparr>]\<rparr>) (st_workspaces s)"
      and "fst (snd (handleCreateTerminal env b i s)) = writeJSON 201 (tm_json \<lparr>tm_id = newID ''tm-'' raw, tm_name = name, tmuxSession = name\<rparr>)"
proof (cases "findWorkspaceLocked i s")
  case None
  show ?thesis by (rule refused) (simp add: None handleCreateTerminal_def GetWorkspace_def refused_def)
next
  case (Some w)
  show ?thesis
  proof (cases "wished_name env b w s")
    case (Inl e)
    show ?thesis by (rule refused) (simp add: Some Inl handleCreateTerminal_def GetWorkspace_def refused_def)
  next
    case (Inr name)
    show ?thesis
    proof (cases "en_new env \<and> en_random env \<noteq> None")
      case False
      show ?thesis
        by (rule refused) (use False in \<open>auto simp: Some Inr handleCreateTerminal_def GetWorkspace_def refused_def\<close>)
    next
      case True
      then obtain raw where raw: "en_new env" "en_random env = Some raw" by blast
      show ?thesis
        by (rule created [OF Some raw(2), of name])
          (use raw assms in \<open>simp_all add: Some Inr handleCreateTerminal_def GetWorkspace_def AddTerminalS_def flushed_def
             flushLocked_def change_ws_def Let_def\<close>)
    qed
  qed
qed

lemma delete_workspace_cases:
  assumes "en_flush env"
  obtains (refused) "refused (handleDeleteWorkspace env i s) s"
  | (deleted) "st_workspaces (fst (handleDeleteWorkspace env i s)) = drop_first (\<lambda>w. ws_id w = i) (st_workspaces s)"
      and "fst (snd (handleDeleteWorkspace env i s)) = noContent"
proof (cases "findWorkspaceLocked i s")
  case None
  show ?thesis by (rule refused) (simp add: None handleDeleteWorkspace_def GetWorkspace_def refused_def)
next
  case (Some w)
  show ?thesis
    by (rule deleted) (simp_all add: Some assms handleDeleteWorkspace_def GetWorkspace_def DeleteWorkspace_def answer_def
        flushed_def flushLocked_def)
qed

lemma rename_workspace_cases:
  assumes "en_flush env"
  obtains (refused) "refused (handleRenameWorkspace env b i s) s"
  | (renamed) w n where "findWorkspaceLocked i s = Some w"
      and "st_workspaces (fst (handleRenameWorkspace env b i s)) = change_first (\<lambda>w. ws_id w = i) (\<lambda>w. w\<lparr>ws_name := n\<rparr>) (st_workspaces s)"
      and "fst (snd (handleRenameWorkspace env b i s)) = writeJSON 200 (ws_json (w\<lparr>ws_name := n\<rparr>))"
proof (cases "body_field (decodeJSON env b) ''name''")
  case None
  show ?thesis by (rule refused) (simp add: None handleRenameWorkspace_def refused_def)
next
  case (Some n)
  show ?thesis
  proof (cases "js_trim n = [] \<or> findWorkspaceLocked i s = None")
    case True
    show ?thesis
      by (rule refused)
        (use True in \<open>auto simp: Some handleRenameWorkspace_def refused_def Let_def RenameWorkspaceS_def answer_def\<close>)
  next
    case False
    then obtain w where w: "findWorkspaceLocked i s = Some w" "js_trim n \<noteq> []" by blast
    show ?thesis
      by (rule renamed [OF w(1), of "js_trim n"])
        (use w assms in \<open>simp_all add: Some handleRenameWorkspace_def Let_def RenameWorkspaceS_def answer_def flushed_def
           flushLocked_def change_ws_def\<close>)
  qed
qed

lemma delete_terminal_cases:
  assumes "en_flush env"
  obtains (refused) "refused (handleDeleteTerminal env i j s) s"
  | (deleted) "st_workspaces (fst (handleDeleteTerminal env i j s)) =
        change_first (\<lambda>w. ws_id w = i) (\<lambda>w. w\<lparr>terminals := drop_first (\<lambda>x. tm_id x = j) (terminals w)\<rparr>) (st_workspaces s)"
      and "fst (snd (handleDeleteTerminal env i j s)) = noContent"
proof (cases "GetTerminal i j s")
  case (Inl e)
  show ?thesis by (rule refused) (simp add: Inl handleDeleteTerminal_def refused_def)
next
  case (Inr tm)
  show ?thesis
    by (rule deleted) (simp_all add: Inr assms handleDeleteTerminal_def RemoveTerminal_def answer_def flushed_def
        flushLocked_def change_ws_def)
qed

lemma rename_terminal_cases:
  assumes "en_flush env"
  obtains (refused) "refused (handleRenameTerminal env b i j s) s"
  | (same) tm where "GetTerminal i j s = Inr tm" and "fst (handleRenameTerminal env b i j s) = s"
      and "fst (snd (handleRenameTerminal env b i j s)) = writeJSON 200 (tm_json tm)"
  | (renamed) tm n where "GetTerminal i j s = Inr tm"
      and "st_workspaces (fst (handleRenameTerminal env b i j s)) = change_first (\<lambda>w. ws_id w = i)
          (\<lambda>w. w\<lparr>terminals := change_first (\<lambda>x. tm_id x = j) (\<lambda>x. x\<lparr>tm_name := n, tmuxSession := n\<rparr>) (terminals w)\<rparr>) (st_workspaces s)"
      and "fst (snd (handleRenameTerminal env b i j s)) = writeJSON 200 (tm_json (tm\<lparr>tm_name := n, tmuxSession := n\<rparr>))"
proof (cases "GetTerminal i j s")
  case (Inl e)
  show ?thesis by (rule refused) (simp add: Inl handleRenameTerminal_def refused_def)
next
  case (Inr tm)
  show ?thesis
  proof (cases "body_field (decodeJSON env b) ''name''")
    case None
    show ?thesis by (rule refused) (simp add: Inr None handleRenameTerminal_def refused_def)
  next
    case (Some name)
    let ?n = "SanitizeSessionName name"
    show ?thesis
    proof (cases "?n = [] \<or> ?n \<noteq> tmuxSession tm \<and> (en_has env ?n \<noteq> Some False \<or> \<not> en_rename env)")
      case True
      show ?thesis
        by (rule refused) (use True in \<open>auto simp: Inr Some handleRenameTerminal_def refused_def Let_def split: option.split\<close>)
    next
      case False
      show ?thesis
      proof (cases "?n = tmuxSession tm")
        case True
        show ?thesis
          by (rule same [OF Inr]) (use False True in \<open>simp_all add: Inr Some handleRenameTerminal_def Let_def\<close>)
      next
        case new: False
        show ?thesis
          by (rule renamed [OF Inr, of ?n])
            (use False new assms in \<open>simp_all add: Inr Some handleRenameTerminal_def Let_def RenameTerminalS_def answer_def
               flushed_def flushLocked_def change_ws_def\<close>)
      qed
    qed
  qed
qed

lemma create_workspace_cases:
  assumes "en_flush env"
  obtains (refused) "refused (handleCreateWorkspace env b s) s"
  | (created) raw n p where "en_random env = Some raw"
      and "st_workspaces (fst (handleCreateWorkspace env b s)) =
        st_workspaces s @ [\<lparr>ws_id = newID ''ws-'' raw, ws_name = n, ws_path = p, terminals = []\<rparr>]"
      and "fst (snd (handleCreateWorkspace env b s)) =
        writeJSON 201 (ws_json \<lparr>ws_id = newID ''ws-'' raw, ws_name = n, ws_path = p, terminals = []\<rparr>)"
proof (cases "\<exists>n p q. body_field (decodeJSON env b) ''name'' = Some n \<and> body_field (decodeJSON env b) ''path'' = Some p \<and> js_trim n \<noteq> []
    \<and> resolvePath env p = Inr q \<and> en_random env \<noteq> None")
  case True
  then obtain n p q raw where ok: "body_field (decodeJSON env b) ''name'' = Some n" "body_field (decodeJSON env b) ''path'' = Some p" "js_trim n \<noteq> []"
    "resolvePath env p = Inr q" "en_random env = Some raw" by blast
  show ?thesis
    by (rule created [OF ok(5), of "js_trim n" q])
      (use ok assms in \<open>simp_all add: handleCreateWorkspace_def Let_def CreateWorkspace_def answer_def flushed_def flushLocked_def\<close>)
next
  case False
  show ?thesis
    by (rule refused) (use False in \<open>auto simp: handleCreateWorkspace_def refused_def Let_def CreateWorkspace_def answer_def
        split: option.split sum.split\<close>)
qed

text \<open>A request of the page meets its handler or is refused.\<close>

fun task_handler :: "server_env \<Rightarrow> (string \<Rightarrow> string) \<Rightarrow> task \<Rightarrow> store \<Rightarrow> served" where
  "task_handler env quote LoadTask s = handleListWorkspaces s"
| "task_handler env quote (AddTask w p) s = handleCreateTerminal env (sent_json [(''name'', JStr [])]) (ws_id w) s"
| "task_handler env quote (CreateInPaneTask p i) s = handleCreateTerminal env (sent_json [(''name'', JStr [])]) i s"
| "task_handler env quote (DeleteWsTask p w) s = handleDeleteWorkspace env (ws_id w) s"
| "task_handler env quote (DeleteTmTask p w tm) s = handleDeleteTerminal env (ws_id w) (tm_id tm) s"
| "task_handler env quote (RenameWsTask w n) s = handleRenameWorkspace env (sent_json [(''name'', JStr n)]) (ws_id w) s"
| "task_handler env quote (RenameTmTask w tm n) s =
     handleRenameTerminal env (sent_json [(''name'', JStr n)]) (ws_id w) (tm_id tm) s"
| "task_handler env quote LogoutTask s = (s, en_other env RLogout [] ''/api/logout'' None, [])"

lemma route_resource:
  "route_of m (workspace_path i) = (if seg_ok i then find_route routes m [''api'', ''workspaces'', i] else None)"
  "route_of m (terminals_path i) = (if seg_ok i then find_route routes m [''api'', ''workspaces'', i, ''terminals''] else None)"
  "route_of m (terminal_path i j) =
     (if seg_ok i \<and> seg_ok j then find_route routes m [''api'', ''workspaces'', i, ''terminals'', j] else None)"
  unfolding raw_urls
  using raw_route(1) [where q = "[]" and m = m] by (auto simp: plain_enc decode_encodeURIComponent)

lemma api_paths [simp]:
  "prefix ''/api/'' (url_path (workspace_path i))" "prefix ''/api/'' (url_path (terminals_path i))"
  "prefix ''/api/'' (url_path (terminal_path i j))" "prefix ''/api/'' (url_path ''/api/workspaces'')"
  "prefix ''/api/'' (url_path ''/api/logout'')"
  by (simp_all add: url_path_def workspace_path_def terminals_path_def terminal_path_def)

lemma serve_task_cases: "refused (serve_task env quote t s) s \<or> serve_task env quote t s = task_handler env quote t s"
  by (cases t) (auto simp: serve_task_def serve_def route_resource reach_fixed routed dispatch_def refused_def)

section \<open>The effect of a request on both sides\<close>

lemma change_first_ids:
  "(\<And>x. x \<in> set xs \<Longrightarrow> g x = i \<Longrightarrow> g (f x) = i) \<Longrightarrow> map g (change_first (\<lambda>x. g x = i) f xs) = map g xs"
  by (induction xs) auto

lemma set_change_first: "x \<in> set (change_first P f xs) \<Longrightarrow> x \<in> set xs \<or> (\<exists>y \<in> set xs. P y \<and> x = f y)"
  by (induction xs) (auto split: if_splits)

lemma list_ok_change:
  assumes "list_ok wss"
    and "\<And>w. w \<in> set wss \<Longrightarrow> ws_id w = i \<Longrightarrow> ids_written w \<Longrightarrow> distinct (map tm_id (terminals w)) \<Longrightarrow>
      ws_id (f w) = i \<and> ids_written (f w) \<and> distinct (map tm_id (terminals (f w)))"
  shows "list_ok (change_first (\<lambda>w. ws_id w = i) f wss)"
proof -
  have "map ws_id (change_first (\<lambda>w. ws_id w = i) f wss) = map ws_id wss"
    using assms by (intro change_first_ids) (auto simp: list_ok_def list_all_iff)
  then show ?thesis
    using assms by (auto simp: list_ok_def list_all_iff dest!: set_change_first)
qed

lemma written_change:
  assumes "list_ok wss"
    and "\<And>w. w \<in> set wss \<Longrightarrow> ws_id w = i \<Longrightarrow> ids_written w \<Longrightarrow> distinct (map tm_id (terminals w)) \<Longrightarrow>
      ws_written (f w) = g (ws_written w)"
  shows "map ws_written (change_first (\<lambda>w. ws_id w = i) f wss) =
    map (\<lambda>v. if ws_id v = i then g v else v) (map ws_written wss)"
  using assms by (auto simp: list_ok_def change_first_map list_all_iff written_ids)

lemma found_ws:
  assumes "list_ok wss" and "find (\<lambda>w. ws_id w = i) wss = Some w" and "w' \<in> set wss" and "ws_id w' = i"
  shows "w' = w"
proof -
  have "w \<in> set wss" "ws_id w = i" using assms(2) by (auto simp: find_Some_iff)
  with assms show ?thesis by (auto simp: list_ok_def distinct_map inj_on_def)
qed

lemma written_terminal: "terminals (ws_written w) = map tm_written (terminals w)"
  by (simp add: ws_written_def)

lemma add_effect:
  assumes "list_ok wss" and "utf8_valid (tm_id tm)" and "tm_id tm \<notin> tm_id ` \<Union> (set ` terminals ` set wss)"
  shows "list_ok (change_first (\<lambda>w. ws_id w = i) (\<lambda>w. w\<lparr>terminals := terminals w @ [tm]\<rparr>) wss)"
    and "map ws_written (change_first (\<lambda>w. ws_id w = i) (\<lambda>w. w\<lparr>terminals := terminals w @ [tm]\<rparr>) wss) =
      add_terminal i (tm_written tm) (map ws_written wss)"
proof -
  show "list_ok (change_first (\<lambda>w. ws_id w = i) (\<lambda>w. w\<lparr>terminals := terminals w @ [tm]\<rparr>) wss)"
    by (rule list_ok_change [OF assms(1)]) (use assms(2,3) in \<open>auto simp: ids_written_def\<close>)
  show "map ws_written (change_first (\<lambda>w. ws_id w = i) (\<lambda>w. w\<lparr>terminals := terminals w @ [tm]\<rparr>) wss) =
      add_terminal i (tm_written tm) (map ws_written wss)"
    unfolding add_terminal_def by (rule written_change [OF assms(1)]) (simp add: ws_written_def)
qed

lemma remove_effect:
  assumes "list_ok wss"
  shows "list_ok (change_first (\<lambda>w. ws_id w = i) (\<lambda>w. w\<lparr>terminals := drop_first (\<lambda>x. tm_id x = j) (terminals w)\<rparr>) wss)"
    and "map ws_written (change_first (\<lambda>w. ws_id w = i) (\<lambda>w. w\<lparr>terminals := drop_first (\<lambda>x. tm_id x = j) (terminals w)\<rparr>) wss) =
      remove_terminal i j (map ws_written wss)"
proof -
  show "list_ok (change_first (\<lambda>w. ws_id w = i) (\<lambda>w. w\<lparr>terminals := drop_first (\<lambda>x. tm_id x = j) (terminals w)\<rparr>) wss)"
    by (rule list_ok_change [OF assms(1)])
      (auto simp: ids_written_def drop_first_filter list_all_iff distinct_map_filter)
  have "filter (\<lambda>x. tm_id x \<noteq> j) (map tm_written tms) = map tm_written (filter (\<lambda>x. tm_id x \<noteq> j) tms)"
    if "list_all (\<lambda>tm. utf8_valid (tm_id tm)) tms" for tms
    using that by (induction tms) (auto simp: written_ids)
  then show "map ws_written (change_first (\<lambda>w. ws_id w = i) (\<lambda>w. w\<lparr>terminals := drop_first (\<lambda>x. tm_id x = j) (terminals w)\<rparr>) wss) =
      remove_terminal i j (map ws_written wss)"
    unfolding remove_terminal_def
    by (intro written_change [OF assms(1)]) (auto simp: ws_written_def drop_first_filter ids_written_def)
qed

lemma drop_ws_effect:
  assumes "list_ok wss"
  shows "list_ok (drop_first (\<lambda>w. ws_id w = i) wss)"
    and "map ws_written (drop_first (\<lambda>w. ws_id w = i) wss) = remove_workspace i (map ws_written wss)"
proof -
  have d: "drop_first (\<lambda>w. ws_id w = i) wss = filter (\<lambda>w. ws_id w \<noteq> i) wss"
    using assms by (intro drop_first_filter) (simp add: list_ok_def)
  show "list_ok (drop_first (\<lambda>w. ws_id w = i) wss)"
    unfolding d using assms by (auto simp: list_ok_def distinct_map_filter list_all_iff)
  have "list_all ids_written wss \<Longrightarrow> filter (\<lambda>w. ws_id w \<noteq> i) (map ws_written wss) = map ws_written (filter (\<lambda>w. ws_id w \<noteq> i) wss)"
    by (induction wss) (auto simp: written_ids)
  then show "map ws_written (drop_first (\<lambda>w. ws_id w = i) wss) = remove_workspace i (map ws_written wss)"
    unfolding d remove_workspace_def using assms by (simp add: list_ok_def)
qed

lemma rename_ws_effect:
  assumes "list_ok wss" and "find (\<lambda>w. ws_id w = i) wss = Some w"
  shows "list_ok (change_first (\<lambda>w. ws_id w = i) (\<lambda>w. w\<lparr>ws_name := n\<rparr>) wss)"
    and "map ws_written (change_first (\<lambda>w. ws_id w = i) (\<lambda>w. w\<lparr>ws_name := n\<rparr>) wss) =
      replace_workspace (ws_written (w\<lparr>ws_name := n\<rparr>)) (map ws_written wss)"
proof -
  show "list_ok (change_first (\<lambda>w. ws_id w = i) (\<lambda>w. w\<lparr>ws_name := n\<rparr>) wss)"
    by (rule list_ok_change [OF assms(1)]) (auto simp: ids_written_def)
  have w: "w \<in> set wss" "ws_id w = i" using assms(2) by (auto simp: find_Some_iff)
  then have "ids_written w" using assms(1) by (simp add: list_ok_def list_all_iff)
  then have "ws_id (ws_written (w\<lparr>ws_name := n\<rparr>)) = i" using w by (simp add: ws_written_def ids_written_def go_utf8_id)
  then show "map ws_written (change_first (\<lambda>w. ws_id w = i) (\<lambda>w. w\<lparr>ws_name := n\<rparr>) wss) =
      replace_workspace (ws_written (w\<lparr>ws_name := n\<rparr>)) (map ws_written wss)"
    unfolding replace_workspace_def
    by (simp only:) (rule written_change [OF assms(1)], drule (1) found_ws [OF assms], simp)
qed

lemma change_first_same: "(\<And>x. f x = x) \<Longrightarrow> change_first P f xs = xs"
  by (induction xs) auto

lemma rename_tm_effect:
  assumes "list_ok wss" and "find (\<lambda>w. ws_id w = i) wss = Some w" and "find (\<lambda>x. tm_id x = j) (terminals w) = Some tm"
    and "tm_id (f tm) = j"
  shows "list_ok (change_first (\<lambda>w. ws_id w = i) (\<lambda>w. w\<lparr>terminals := change_first (\<lambda>x. tm_id x = j) f (terminals w)\<rparr>) wss)"
    and "map ws_written (change_first (\<lambda>w. ws_id w = i) (\<lambda>w. w\<lparr>terminals := change_first (\<lambda>x. tm_id x = j) f (terminals w)\<rparr>) wss) =
      replace_terminal i (tm_written (f tm)) (map ws_written wss)"
proof -
  have tm: "tm \<in> set (terminals w)" "tm_id tm = j" using assms(3) by (auto simp: find_Some_iff)
  have w: "w \<in> set wss" using assms(2) by (auto simp: find_Some_iff)
  then have j: "utf8_valid j" and dist: "distinct (map tm_id (terminals w))"
    using assms(1) tm by (auto simp: list_ok_def list_all_iff ids_written_def)
  have only: "x = tm" if "x \<in> set (terminals w)" "tm_id x = j" for x
    using that tm dist by (auto simp: distinct_map inj_on_def)
  show "list_ok (change_first (\<lambda>w. ws_id w = i) (\<lambda>w. w\<lparr>terminals := change_first (\<lambda>x. tm_id x = j) f (terminals w)\<rparr>) wss)"
  proof (rule list_ok_change [OF assms(1)])
    fix v assume v: "v \<in> set wss" "ws_id v = i" "ids_written v" "distinct (map tm_id (terminals v))"
    then have vw: "v = w" using found_ws [OF assms(1,2)] by blast
    have ids: "map tm_id (change_first (\<lambda>x. tm_id x = j) f (terminals v)) = map tm_id (terminals v)"
      using assms(4) only vw by (intro change_first_ids) auto
    then show "ws_id (v\<lparr>terminals := change_first (\<lambda>x. tm_id x = j) f (terminals v)\<rparr>) = i
        \<and> ids_written (v\<lparr>terminals := change_first (\<lambda>x. tm_id x = j) f (terminals v)\<rparr>)
        \<and> distinct (map tm_id (terminals (v\<lparr>terminals := change_first (\<lambda>x. tm_id x = j) f (terminals v)\<rparr>)))"
      using v j assms(4) only vw by (auto simp: ids_written_def list_all_iff dest!: set_change_first)
  qed
  have id: "tm_id (tm_written (f tm)) = j" using assms(4) j by (simp add: tm_written_def go_utf8_id)
  show "map ws_written (change_first (\<lambda>w. ws_id w = i) (\<lambda>w. w\<lparr>terminals := change_first (\<lambda>x. tm_id x = j) f (terminals w)\<rparr>) wss) =
      replace_terminal i (tm_written (f tm)) (map ws_written wss)"
    unfolding replace_terminal_def
  proof (rule written_change [OF assms(1)])
    fix v assume v: "v \<in> set wss" "ws_id v = i" "ids_written v" "distinct (map tm_id (terminals v))"
    then have vw: "v = w" using found_ws [OF assms(1,2)] by blast
    show "ws_written (v\<lparr>terminals := change_first (\<lambda>x. tm_id x = j) f (terminals v)\<rparr>) =
        (ws_written v)\<lparr>terminals := map (\<lambda>x. if tm_id x = tm_id (tm_written (f tm)) then tm_written (f tm) else x) (terminals (ws_written v))\<rparr>"
      using v only unfolding vw id by (auto simp: ws_written_def change_first_map ids_written_def list_all_iff written_ids)
  qed
qed

definition task_reply :: "server_env \<Rightarrow> (string \<Rightarrow> string) \<Rightarrow> task \<Rightarrow> store \<Rightarrow> outcome" where
  "task_reply env quote t s = outcome_of t (task_call (server_fetch env quote s) t)"

lemma list_effect_failed [simp]: "list_effect t Failed wss = wss"
  by (cases t) simp_all

lemma reply_refused:
  "refused (serve_task env quote t s) s \<Longrightarrow> task_reply env quote t s = Failed"
  unfolding task_reply_def task_call_served
  by (cases "voids t") (simp_all add: refused_def client_sees_def client_done_def Let_def)

lemma reply_json:
  "\<not> voids t \<Longrightarrow> fst (snd (serve_task env quote t s)) = writeJSON n v \<Longrightarrow> 200 \<le> n \<Longrightarrow> n \<le> 299 \<Longrightarrow>
     task_reply env quote t s = outcome_of t (Inr v)"
  by (simp add: task_reply_def task_call_served client_sees_def Let_def) (simp add: writeJSON_def)

lemma reply_void:
  "voids t \<Longrightarrow> fst (snd (serve_task env quote t s)) = noContent \<Longrightarrow> task_reply env quote t s = outcome_of t (Inr JNull)"
  by (simp add: task_reply_def task_call_served client_done_def Let_def)

text \<open>What both sides owe each other after a request.\<close>

definition in_step :: "task \<Rightarrow> outcome \<Rightarrow> store \<Rightarrow> store \<Rightarrow> bool" where
  "in_step t r s s' =
     (list_ok (st_workspaces s')
      \<and> (case t of
           LoadTask \<Rightarrow> st_workspaces s' = st_workspaces s
             \<and> (r = Failed \<or> r = GotWorkspaces (map ws_written (st_workspaces s)))
         | LogoutTask \<Rightarrow> st_workspaces s' = st_workspaces s
         | _ \<Rightarrow> map ws_written (st_workspaces s') = list_effect t r (map ws_written (st_workspaces s))))"

lemma in_step_failed: "list_ok (st_workspaces s) \<Longrightarrow> in_step t Failed s s"
  by (simp add: in_step_def split: task.split)

lemma get_terminal:
  "GetTerminal i j s = Inr tm \<Longrightarrow> \<exists>w. find (\<lambda>w. ws_id w = i) (st_workspaces s) = Some w \<and> find (\<lambda>x. tm_id x = j) (terminals w) = Some tm"
  by (auto simp: GetTerminal_def findWorkspaceLocked_def findTerminalLocked_def split: option.splits)

lemma task_in_step:
  assumes ok: "list_ok (st_workspaces s)" and fl: "en_flush env" and new: "new_ids env s"
  shows "in_step t (task_reply env quote t s) s (fst (serve_task env quote t s))"
proof (cases "refused (serve_task env quote t s) s")
  case True
  then show ?thesis using ok by (simp add: reply_refused in_step_failed) (simp add: refused_def in_step_failed)
next
  case False
  then have h: "serve_task env quote t s = task_handler env quote t s" using serve_task_cases [of env quote t s] by blast
  note not_refused = False [unfolded h]
  have created: "in_step t (task_reply env quote t s) s (fst (serve_task env quote t s))"
    if t: "task_handler env quote t s = handleCreateTerminal env b i s" "\<not> voids t"
      "\<And>r. in_step t r s (fst (serve_task env quote t s)) \<longleftrightarrow> list_ok (st_workspaces (fst (serve_task env quote t s)))
         \<and> map ws_written (st_workspaces (fst (serve_task env quote t s))) = list_effect t r (map ws_written (st_workspaces s))"
      "\<And>v wss. list_effect t (outcome_of t (Inr v)) wss = add_terminal i (read_tm v) wss" for b i
    using fl
  proof (cases rule: create_terminal_cases [where b = b and i = i and s = s])
    case refused
    with not_refused t(1) show ?thesis by simp
  next
    case (created w raw name)
    let ?tm = "\<lparr>tm_id = newID ''tm-'' raw, tm_name = name, tmuxSession = name\<rparr>"
    have "utf8_valid (newID ''tm-'' raw)" by (rule newID_valid) (simp add: in_range_def)
    then have valid: "utf8_valid (tm_id ?tm)" "tm_id ?tm \<notin> tm_id ` \<Union> (set ` terminals ` set (st_workspaces s))"
      using new created(2) by (auto simp: new_ids_def)
    have "task_reply env quote t s = outcome_of t (Inr (tm_json ?tm))"
      using created(4) by (intro reply_json [where n = 201]) (simp_all add: h t)
    with created(3) add_effect [OF ok valid] show ?thesis unfolding t(3) by (simp add: t(1,4) h)
  qed
  show ?thesis
  proof (cases t)
    case LoadTask
    have "task_reply env quote t s = outcome_of t (Inr (JArr (map ws_json (st_workspaces s))))"
      by (rule reply_json [where n = 200]) (simp_all add: h [unfolded LoadTask] LoadTask voids_def handleListWorkspaces_def ListWorkspaces_def)
    then show ?thesis using ok by (simp add: h [unfolded LoadTask] LoadTask handleListWorkspaces_def in_step_def comp_def)
  next
    case (AddTask w p)
    show ?thesis by (rule created) (simp_all add: AddTask voids_def in_step_def)
  next
    case (CreateInPaneTask p i)
    show ?thesis by (rule created) (simp_all add: CreateInPaneTask voids_def in_step_def)
  next
    case (DeleteWsTask p w)
    have th: "task_handler env quote t s = handleDeleteWorkspace env (ws_id w) s" by (simp add: DeleteWsTask)
    from fl show ?thesis
    proof (cases rule: delete_workspace_cases [where i = "ws_id w" and s = s])
      case refused
      with not_refused th show ?thesis by simp
    next
      case deleted
      have "task_reply env quote t s = outcome_of t (Inr JNull)"
        by (rule reply_void) (simp add: voids_def DeleteWsTask, simp only: h th deleted(2))
      with deleted(1) drop_ws_effect [OF ok, of "ws_id w"] show ?thesis unfolding h th by (simp add: in_step_def DeleteWsTask)
    qed
  next
    case (DeleteTmTask p w tm)
    have th: "task_handler env quote t s = handleDeleteTerminal env (ws_id w) (tm_id tm) s" by (simp add: DeleteTmTask)
    from fl show ?thesis
    proof (cases rule: delete_terminal_cases [where i = "ws_id w" and j = "tm_id tm" and s = s])
      case refused
      with not_refused th show ?thesis by simp
    next
      case deleted
      have "task_reply env quote t s = outcome_of t (Inr JNull)"
        by (rule reply_void) (simp add: voids_def DeleteTmTask, simp only: h th deleted(2))
      with deleted(1) remove_effect [OF ok, of "ws_id w" "tm_id tm"] show ?thesis unfolding h th by (simp add: in_step_def DeleteTmTask)
    qed
  next
    case (RenameWsTask w n)
    have th: "task_handler env quote t s = handleRenameWorkspace env (sent_json [(''name'', JStr n)]) (ws_id w) s"
      by (simp add: RenameWsTask)
    from fl show ?thesis
    proof (cases rule: rename_workspace_cases [where i = "ws_id w" and b = "sent_json [(''name'', JStr n)]" and s = s])
      case refused
      with not_refused th show ?thesis by simp
    next
      case (renamed v m)
      have "task_reply env quote t s = outcome_of t (Inr (ws_json (v\<lparr>ws_name := m\<rparr>)))"
        by (rule reply_json [where n = 200]) (simp add: voids_def RenameWsTask, simp only: h th renamed(3), simp_all)
      with renamed(1,2) rename_ws_effect [OF ok, of "ws_id w" v m] show ?thesis
        unfolding h th by (simp add: in_step_def RenameWsTask findWorkspaceLocked_def)
    qed
  next
    case (RenameTmTask w tm n)
    have th: "task_handler env quote t s =
        handleRenameTerminal env (sent_json [(''name'', JStr n)]) (ws_id w) (tm_id tm) s" by (simp add: RenameTmTask)
    from fl show ?thesis
    proof (cases rule: rename_terminal_cases [where i = "ws_id w" and j = "tm_id tm" and b = "sent_json [(''name'', JStr n)]" and s = s])
      case refused
      with not_refused th show ?thesis by simp
    next
      case (same u)
      obtain v where v: "find (\<lambda>w'. ws_id w' = ws_id w) (st_workspaces s) = Some v" "find (\<lambda>x. tm_id x = tm_id tm) (terminals v) = Some u"
        using get_terminal [OF same(1)] by blast
      have "tm_id u = tm_id tm" using v(2) by (auto simp: find_Some_iff)
      then have eff: "map ws_written (st_workspaces s) = replace_terminal (ws_id w) (tm_written u) (map ws_written (st_workspaces s))"
        using rename_tm_effect(2) [OF ok v, of "\<lambda>x. x"] by (simp add: change_first_same)
      have "task_reply env quote t s = outcome_of t (Inr (tm_json u))"
        by (rule reply_json [where n = 200]) (simp add: voids_def RenameTmTask, simp only: h th same(3), simp_all)
      with eff same(2) ok show ?thesis unfolding h th by (simp add: in_step_def RenameTmTask)
    next
      case (renamed u m)
      obtain v where v: "find (\<lambda>w'. ws_id w' = ws_id w) (st_workspaces s) = Some v" "find (\<lambda>x. tm_id x = tm_id tm) (terminals v) = Some u"
        using get_terminal [OF renamed(1)] by blast
      have "tm_id u = tm_id tm" using v(2) by (auto simp: find_Some_iff)
      then have "tm_id (u\<lparr>tm_name := m, tmuxSession := m\<rparr>) = tm_id tm" by simp
      note eff = rename_tm_effect [OF ok v, of "\<lambda>x. x\<lparr>tm_name := m, tmuxSession := m\<rparr>", OF this]
      have "task_reply env quote t s = outcome_of t (Inr (tm_json (u\<lparr>tm_name := m, tmuxSession := m\<rparr>)))"
        by (rule reply_json [where n = 200]) (simp add: voids_def RenameTmTask, simp only: h th renamed(3), simp_all)
      with renamed(2) eff show ?thesis unfolding h th by (simp add: in_step_def RenameTmTask)
    qed
  next
    case LogoutTask
    then show ?thesis using ok by (simp add: h [unfolded LogoutTask] LogoutTask in_step_def)
  qed
qed

section \<open>Page and server agree\<close>

text \<open>What the page's list will be once an answer has reached it; \<open>None\<close>: no list has been loaded.\<close>

fun seen_after :: "message \<Rightarrow> Workspace list option \<Rightarrow> Workspace list option" where
  "seen_after (Reply k t r) v =
     (case t of
        LoadTask \<Rightarrow> (case r of GotWorkspaces wss \<Rightarrow> Some wss | _ \<Rightarrow> v)
      | LogoutTask \<Rightarrow> None
      | _ \<Rightarrow> map_option (list_effect t r) v)"
| "seen_after (NewWorkspace w) v = map_option (\<lambda>wss. wss @ [w]) v"

definition page_list :: "sys_state \<Rightarrow> Workspace list option" where
  "page_list s = (if sy_loaded s then Some (workspaces (sy_hub s)) else None)"

definition foreseen :: "sys_state \<Rightarrow> Workspace list option" where
  "foreseen s = fold seen_after (sy_queue s) (page_list s)"

definition queue_ok :: "hub \<Rightarrow> message list \<Rightarrow> bool" where
  "queue_ok h q = (distinct (answered q) \<and> (\<forall>k t r. Reply k t r \<in> set q \<longrightarrow> map_of (tasks h) k = Some t))"

definition sys_inv :: "sys_state \<Rightarrow> bool" where
  "sys_inv s =
     (list_ok (st_workspaces (sy_store s)) \<and> queue_ok (sy_hub s) (sy_queue s)
      \<and> foreseen s \<in> {None, Some (map ws_written (st_workspaces (sy_store s)))})"

lemma answered_simps [simp]:
  "answered [] = []" "answered (Reply k t r # q) = k # answered q" "answered (NewWorkspace w # q) = answered q"
  "answered (q @ q') = answered q @ answered q'"
  by (simp_all add: answered_def map_filter_simps List.map_filter_def)

lemma foreseen_enqueue [simp]: "foreseen (enqueue m s) = seen_after m (foreseen s)"
  by (simp add: foreseen_def enqueue_def page_list_def)

lemma enqueue_fields [simp]:
  "sy_hub (enqueue m s) = sy_hub s" "sy_store (enqueue m s) = sy_store s" "sy_queue (enqueue m s) = sy_queue s @ [m]"
  by (simp_all add: enqueue_def)

lemma foreseen_store [simp]: "foreseen (s\<lparr>sy_store := st\<rparr>) = foreseen s"
  by (simp add: foreseen_def page_list_def)

text \<open>The page's own events leave its list alone and only add tasks.\<close>

lemma wake_tasks: "\<exists>ts. tasks (wake r h) = tasks h @ ts"
  by (auto simp: wake_def Let_def split: option.split)

lemma wakes_tasks: "\<exists>ts. tasks (fold wake rs h) = tasks h @ ts"
proof (induction rs arbitrary: h)
  case (Cons r rs)
  from Cons.IH [of "wake r h"] wake_tasks [of r h] show ?case by auto
qed simp

lemma page_event:
  assumes "page_event_ok h e"
  shows "workspaces (hub_step h e) = workspaces h" and "\<exists>ts. tasks (hub_step h e) = tasks h @ ts"
proof -
  have ask: "\<exists>ts. tasks (ask_user q h) = tasks h @ ts" for q
    using wakes_tasks [of _ "h\<lparr>conf := _\<rparr>"] by (simp add: ask_user_def Let_def split: prod.split)
  have ans: "\<exists>ts. tasks (answer_user ok h) = tasks h @ ts" for ok
    using wakes_tasks [of _ "h\<lparr>conf := _\<rparr>"] by (simp add: answer_user_def Let_def)
  have com: "\<exists>ts. tasks (commitRename t v h) = tasks h @ ts" for t v
    by (auto simp: commitRename_def Let_def split: option.split rename_target.split)
  show "workspaces (hub_step h e) = workspaces h"
    using assms
    by (cases e) (auto simp: page_event_ok_def authenticated_def toggleExpanded_def handleAddTerminal_def createTerminalInPane_def
        ask_user_def answer_user_def commitRename_def selectTerminal_def Let_def
        split: prod.split option.split rename_target.split)
  show "\<exists>ts. tasks (hub_step h e) = tasks h @ ts"
    using assms ask ans com
    by (cases e) (auto simp: page_event_ok_def authenticated_def toggleExpanded_def handleAddTerminal_def
        createTerminalInPane_def)
qed

lemma queue_ok_more:
  "queue_ok h q \<Longrightarrow> tasks h' = tasks h @ ts \<Longrightarrow> queue_ok h' q"
  by (auto simp: queue_ok_def map_of_append)

lemma finish_task_list:
  assumes "map_of (tasks h) k = Some t"
  shows "workspaces (finish_task k r h) =
      (case t of LoadTask \<Rightarrow> (case r of GotWorkspaces wss \<Rightarrow> wss | _ \<Rightarrow> workspaces h) | LogoutTask \<Rightarrow> []
       | _ \<Rightarrow> list_effect t r (workspaces h))"
    and "tasks (finish_task k r h) = filter (\<lambda>x. fst x \<noteq> k) (tasks h)"
  using assms by (simp_all add: finish_task_def finish_list Let_def split: task.split outcome.split)

lemma map_of_filter_key: "j \<noteq> k \<Longrightarrow> map_of (filter (\<lambda>x. fst x \<noteq> k) xs) j = map_of xs j"
  by (induction xs) auto

lemma delivery_inv:
  assumes inv: "sys_inv s" and q: "sy_queue s = m # ms"
  shows "sys_inv (s\<lparr>sy_hub := on_message m (sy_hub s), sy_queue := ms, sy_loaded := loaded_after m (sy_loaded s)\<rparr>)"
proof (cases m)
  case (NewWorkspace w)
  with inv q show ?thesis
    by (auto simp: sys_inv_def foreseen_def page_list_def queue_ok_def wizard_created_def)
next
  case (Reply k t r)
  then have k: "map_of (tasks (sy_hub s)) k = Some t" "k \<notin> set (answered ms)"
    using inv q by (auto simp: sys_inv_def queue_ok_def)
  have "queue_ok (finish_task k r (sy_hub s)) ms"
  proof -
    have "j \<noteq> k" if "Reply j t' r' \<in> set ms" for j t' r'
      using that k(2) by (auto simp: answered_def List.map_filter_def image_iff)
    then show ?thesis
      using inv q Reply by (auto simp: sys_inv_def queue_ok_def finish_task_list(2) [OF k(1)] map_of_filter_key)
  qed
  moreover have "page_list (s\<lparr>sy_hub := on_message m (sy_hub s), sy_queue := ms, sy_loaded := loaded_after m (sy_loaded s)\<rparr>)
      = seen_after m (page_list s)"
    using Reply finish_task_list(1) [OF k(1), of r]
    by (cases t; cases r) (simp_all add: page_list_def)
  ultimately show ?thesis
    using inv q Reply by (simp add: sys_inv_def foreseen_def)
qed

lemma process_inv:
  assumes inv: "sys_inv s" and k: "map_of (tasks (sy_hub s)) k = Some t" "k \<notin> set (answered (sy_queue s))"
    and env: "en_flush env" "new_ids env (sy_store s)"
  shows "sys_inv (process quote k env s)"
proof -
  have ok: "list_ok (st_workspaces (sy_store s))" using inv by (simp add: sys_inv_def)
  note st = task_in_step [OF ok env, of t quote, unfolded task_reply_def]
  let ?r = "outcome_of t (task_call (server_fetch env quote (sy_store s)) t)"
    and ?st = "fst (serve_task env quote t (sy_store s))"
  have "seen_after (Reply k t ?r) (foreseen s) \<in> {None, Some (map ws_written (st_workspaces ?st))}"
    using inv st by (cases t) (auto simp: sys_inv_def in_step_def)
  moreover have "list_ok (st_workspaces ?st)" using st by (simp add: in_step_def)
  moreover have "queue_ok (sy_hub s) (sy_queue s @ [Reply k t ?r])"
    using inv k by (auto simp: sys_inv_def queue_ok_def)
  ultimately show ?thesis using k(1) by (simp add: process_def sys_inv_def del: seen_after.simps)
qed

lemma create_inv:
  assumes inv: "sys_inv s" and env: "en_flush env" "new_ids env (sy_store s)"
  shows "sys_inv (process_create quote env n p s)"
proof -
  let ?st = "sy_store s" and ?body = "sent_json [(''name'', JStr n), (''path'', JStr p)]"
  have ok: "list_ok (st_workspaces ?st)" using inv by (simp add: sys_inv_def)
  let ?a = "serve env quote ''POST'' ''/api/workspaces'' ?body ?st"
  have call: "createWorkspace (server_fetch env quote ?st) n p = client_sees ?a"
    by (simp add: createWorkspace_def fetch_json sent_json_def)
  show ?thesis
  proof (cases "refused ?a ?st")
    case True
    then show ?thesis
      using inv by (simp add: process_create_def Let_def call client_sees_def refused_def)
  next
    case False
    then have a: "?a = handleCreateWorkspace env ?body ?st"
      by (auto simp: serve_def reach_fixed routed dispatch_def refused_def split: if_splits)
    from env(1) show ?thesis
    proof (cases rule: create_workspace_cases [where b = "?body" and s = ?st])
      case refused
      with False a show ?thesis by simp
    next
      case (created raw m q)
      let ?w = "\<lparr>ws_id = newID ''ws-'' raw, ws_name = m, ws_path = q, terminals = []\<rparr>"
      have "utf8_valid (newID ''ws-'' raw)" by (rule newID_valid) (simp add: in_range_def)
      then have "list_ok (st_workspaces ?st @ [?w])"
        using ok env(2) created(1) by (auto simp: list_ok_def new_ids_def ids_written_def)
      moreover have "createWorkspace (server_fetch env quote ?st) n p = Inr (ws_json ?w)"
        unfolding call a by (simp add: client_sees_def Let_def created(3)) (simp add: writeJSON_def)
      ultimately show ?thesis
        using inv created(2) by (auto simp: process_create_def Let_def a sys_inv_def queue_ok_def)
    qed
  qed
qed

lemma sys_inv_step:
  assumes "sys_inv s" and "sys_ok s e"
  shows "sys_inv (sys_step quote s e)"
proof (cases e)
  case (Client he)
  then have ok: "page_event_ok (sy_hub s) he" using assms(2) by (simp add: sys_ok_def)
  obtain ts where "tasks (hub_step (sy_hub s) he) = tasks (sy_hub s) @ ts" using page_event(2) [OF ok] by blast
  then have "queue_ok (hub_step (sy_hub s) he) (sy_queue s)" using assms(1) queue_ok_more unfolding sys_inv_def by blast
  moreover have "foreseen (s\<lparr>sy_hub := hub_step (sy_hub s) he\<rparr>) = foreseen s"
    by (simp add: foreseen_def page_list_def page_event(1) [OF ok])
  ultimately show ?thesis using assms(1) Client by (simp add: sys_inv_def del: hub_step.simps)
next
  case (Process k env)
  show ?thesis
  proof (cases "map_of (tasks (sy_hub s)) k")
    case None
    with Process assms(1) show ?thesis by (simp add: process_def)
  next
    case (Some t)
    with Process assms show ?thesis by (simp add: process_inv sys_ok_def)
  qed
next
  case (ProcessCreate env n p)
  with assms show ?thesis by (simp add: create_inv sys_ok_def)
next
  case (Lost k)
  then show ?thesis
    using assms by (cases "map_of (tasks (sy_hub s)) k") (auto simp: sys_ok_def sys_inv_def queue_ok_def split: task.split)
next
  case Deliver
  then show ?thesis using assms(1) delivery_inv [OF assms(1)] by (simp split: list.split)
qed

interpretation sys_run: machine_inv "sys_step quote" sys_ok sys_inv
  by unfold_locales (rule sys_inv_step)

lemma seen_defined:
  "\<forall>k r. Reply k LogoutTask r \<notin> set q \<Longrightarrow> v \<noteq> None \<Longrightarrow> fold seen_after q v \<noteq> None"
proof (induction q arbitrary: v)
  case (Cons m q)
  have "seen_after m v \<noteq> None"
    using Cons.prems by (cases m) (auto split: task.split outcome.split)
  then show ?case using Cons.IH [of "seen_after m v"] Cons.prems by (simp del: seen_after.simps)
qed simp

lemma sys_inv_init: "list_ok (st_workspaces st) \<Longrightarrow> sys_inv (sys_init w srv mobile st)"
  by (simp add: sys_inv_def sys_init_def queue_ok_def foreseen_def page_list_def)

lemma agree:
  assumes "sys_inv s" and "sy_loaded s" and "\<forall>k r. Reply k LogoutTask r \<notin> set (sy_queue s)"
  shows "fold seen_after (sy_queue s) (Some (workspaces (sy_hub s))) = Some (map ws_written (st_workspaces (sy_store s)))"
proof -
  have "foreseen s = fold seen_after (sy_queue s) (Some (workspaces (sy_hub s)))"
    using assms(2) by (simp add: foreseen_def page_list_def)
  moreover from this have "foreseen s \<noteq> None" using seen_defined [OF assms(3), of "Some (workspaces (sy_hub s))"] by simp
  ultimately show ?thesis using assms(1) by (auto simp: sys_inv_def)
qed


text \<open>A list is loaded, then the wizard creates a workspace.\<close>

definition demo_sys_events :: "sys_event list" where
  "demo_sys_events = [Client Authenticated, Process 0 demo_env, Deliver, ProcessCreate demo_env ''new'' ''/home/u'', Deliver]"

lemma demo_load: "serve_task demo_env quote LoadTask demo_store = (demo_store, writeJSON 200 (JArr [ws_json demo_ws]), [])"
  by (simp add: serve_task_def serve_def reach_fixed routed dispatch_def handleListWorkspaces_def ListWorkspaces_def)

lemma demo_clean: "go_clean ''/home/u'' = ''/home/u''"
  by (simp add: go_clean_def is_abs_def path_parts_def js_split.simps Let_def)

lemma demo_new_id: "newID ''ws-'' [CHR 0x01, CHR 0xAB, CHR 0x00, CHR 0x7F] = ''ws-01ab007f''"
  "newID ''tm-'' [CHR 0x01, CHR 0xAB, CHR 0x00, CHR 0x7F] = ''tm-01ab007f''"
  by (simp_all add: newID_def digit_char_def)

definition demo_new_ws :: Workspace where
  "demo_new_ws = \<lparr>ws_id = ''ws-01ab007f'', ws_name = ''new'', ws_path = ''/home/u'', terminals = []\<rparr>"

lemma demo_create:
  "serve demo_env quote ''POST'' ''/api/workspaces'' (sent_json [(''name'', JStr ''new''), (''path'', JStr ''/home/u'')]) demo_store
     = (\<lparr>st_workspaces = [demo_ws, demo_new_ws], st_layout = None, st_file = Some (map ws_written [demo_ws, demo_new_ws], None)\<rparr>,
        writeJSON 201 (ws_json demo_new_ws), [])"
  by (simp add: serve_def reach_fixed routed dispatch_def handleCreateWorkspace_def sent_json_def body_field_def decodeJSON_def
      js_trim_def is_ws_def resolvePath_def demo_clean is_abs_def CreateWorkspace_def flushed_def flushLocked_def
      answer_def Let_def demo_new_id demo_new_ws_def demo_store_def)


lemma demo_list_ok: "list_ok (st_workspaces demo_store)"
  by (simp add: list_ok_def ids_written_def demo_ws_def utf8_ascii in_range_def)

lemma demo_sys_run:
  "run_ok (sys_step quote) sys_ok (sys_init demo_world None False demo_store) demo_sys_events"
  "sy_loaded (run (sys_step quote) (sys_init demo_world None False demo_store) demo_sys_events)"
  "sy_queue (run (sys_step quote) (sys_init demo_world None False demo_store) demo_sys_events) = []"
  "st_workspaces (sy_store (run (sys_step quote) (sys_init demo_world None False demo_store) demo_sys_events)) = [demo_ws, demo_new_ws]"
  "map ws_id (workspaces (sy_hub (run (sys_step quote) (sys_init demo_world None False demo_store) demo_sys_events))) = [''w'', ''ws-01ab007f'']"
proof -
  have reply: "outcome_of LoadTask (listWorkspaces (server_fetch demo_env quote demo_store)) = GotWorkspaces [ws_written demo_ws]"
    using task_call_served [of LoadTask demo_env quote demo_store] unfolding voids_def demo_load
    by (simp add: client_sees_def Let_def) (simp add: writeJSON_def)
  have create: "createWorkspace (server_fetch demo_env quote demo_store) ''new'' ''/home/u'' = Inr (ws_json demo_new_ws)"
    using demo_create [of quote] by (simp add: createWorkspace_def fetch_json sent_json_def client_sees_def Let_def)
      (simp add: writeJSON_def)
  have new: "new_ids demo_env demo_store" by (simp add: new_ids_def demo_new_id demo_ws_def)
  have ids: "ws_id (ws_written demo_ws) = ''w''" "ws_id (ws_written demo_new_ws) = ''ws-01ab007f''"
    by (simp_all add: ws_written_def demo_ws_def demo_new_ws_def go_utf8_id utf8_ascii in_range_def)
  note ev = demo_sys_events_def sys_init_def hub_init_def sys_ok_def page_event_ok_def hub_ok_def authenticated_def start_task_def
    process_def process_create_def enqueue_def Let_def finish_task_def wizard_created_def notify_def
  show "run_ok (sys_step quote) sys_ok (sys_init demo_world None False demo_store) demo_sys_events"
    "sy_loaded (run (sys_step quote) (sys_init demo_world None False demo_store) demo_sys_events)"
    "sy_queue (run (sys_step quote) (sys_init demo_world None False demo_store) demo_sys_events) = []"
    "st_workspaces (sy_store (run (sys_step quote) (sys_init demo_world None False demo_store) demo_sys_events)) = [demo_ws, demo_new_ws]"
    "map ws_id (workspaces (sy_hub (run (sys_step quote) (sys_init demo_world None False demo_store) demo_sys_events))) = [''w'', ''ws-01ab007f'']"
    by (simp_all add: ev demo_load demo_create reply create new ids)
qed


section \<open>Restarting the server\<close>

text \<open>The state file says what the store holds, or there is no file and nothing to hold.\<close>

definition on_disk :: "store \<Rightarrow> bool" where
  "on_disk s =
     (case st_file s of
        None \<Rightarrow> st_workspaces s = [] \<and> st_layout s = None
      | Some (wss, l) \<Rightarrow> wss = map ws_written (st_workspaces s) \<and> l = st_layout s)"

lemma flushed_on_disk [simp]: "on_disk (fst (flushed True v s))"
  by (simp add: flushed_def flushLocked_def on_disk_def)

lemma store_ops_on_disk:
  assumes "on_disk s"
  shows "on_disk (fst (CreateWorkspace True raw n p s))" and "on_disk (fst (DeleteWorkspace True i s))"
    and "on_disk (fst (RenameWorkspaceS True i n s))" and "on_disk (fst (AddTerminalS True i tm s))"
    and "on_disk (fst (RemoveTerminal True i j s))" and "on_disk (fst (RenameTerminalS True i j n m s))"
    and "on_disk (fst (SetLayout True b s))"
  using assms
  by (simp_all add: CreateWorkspace_def DeleteWorkspace_def RenameWorkspaceS_def AddTerminalS_def RemoveTerminal_def
      RenameTerminalS_def SetLayout_def Let_def split: option.split sum.split)

lemma answer_store [simp]: "fst (answer r f cmds) = fst r"
  by (simp add: answer_def split: prod.split sum.split)

lemma handlers_on_disk:
  assumes "on_disk s" and "en_flush env"
  shows "on_disk (fst (handleCreateWorkspace env b s))" and "on_disk (fst (handleDeleteWorkspace env i s))"
    and "on_disk (fst (handleRenameWorkspace env b i s))" and "on_disk (fst (handleCreateTerminal env b i s))"
    and "on_disk (fst (handleDeleteTerminal env i j s))" and "on_disk (fst (handleRenameTerminal env b i j s))"
    and "on_disk (fst (handleSetLayout env b s))"
proof -
  have create: "on_disk s'" if "AddTerminalS True i tm s = (s', r)" for tm s' r
    using store_ops_on_disk(4) [OF assms(1), of i tm] that by simp
  have layout: "on_disk s'" if "SetLayout True v s = (s', r)" for v s' r
    using store_ops_on_disk(7) [OF assms(1), of v] that by simp
  show "on_disk (fst (handleCreateTerminal env b i s))"
    using assms by (auto simp: handleCreateTerminal_def Let_def intro: create split: sum.split option.split prod.split)
  show "on_disk (fst (handleSetLayout env b s))"
    using assms by (auto simp: handleSetLayout_def intro: layout split: option.split body_init.split prod.split sum.split)
qed (use assms store_ops_on_disk [OF assms(1)] in \<open>simp_all add: handleCreateWorkspace_def handleDeleteWorkspace_def
    handleRenameWorkspace_def handleDeleteTerminal_def handleRenameTerminal_def Let_def split: option.split sum.split\<close>)

lemma serve_on_disk:
  assumes "on_disk s" and "en_flush env"
  shows "on_disk (fst (serve env quote m url b s))"
proof -
  have "on_disk (fst (dispatch env quote r args url b s))" for r args
    using handlers_on_disk [OF assms] assms(1)
    by (cases r) (simp_all add: dispatch_def handleListWorkspaces_def handleListTerminals_def handleAttachCmd_def
        handleGetLayout_def Let_def split: sum.split)
  then show ?thesis using assms(1) by (simp add: serve_def split: option.split prod.split)
qed

lemma disk_step: "on_disk (sy_store s) \<Longrightarrow> sys_ok s e \<Longrightarrow> on_disk (sy_store (sys_step quote s e))"
  by (cases e) (auto simp: sys_ok_def process_def process_create_def serve_task_def Let_def serve_on_disk
      split: option.split sum.split list.split prod.split)

interpretation disk_run: machine_inv "sys_step quote" sys_ok "\<lambda>s. on_disk (sy_store s)"
  by unfold_locales (rule disk_step)

definition pruned :: "(string \<Rightarrow> bool option) \<Rightarrow> Workspace \<Rightarrow> Workspace" where
  "pruned has w = w\<lparr>terminals := filter (\<lambda>tm. has (tmuxSession tm) \<noteq> Some False) (terminals w)\<rparr>"

lemma Load_on_disk:
  assumes "on_disk s"
  shows "st_workspaces (Load has fl (st_file s)) = map (pruned has) (map ws_written (st_workspaces s))"
    and "st_layout (Load has fl (st_file s)) = st_layout s"
  using assms
  by (auto simp: on_disk_def Load_def pruneDead_def flushLocked_def pruned_def [abs_def] session_kept_def [abs_def] comp_def Let_def
      split: option.splits if_splits)



end
