(* ===== verification/ServerFiles.thy ===== *)
theory ServerFiles
  imports Api Wizard "HOL-Library.Char_ord" "HOL-Library.List_Lexorder" "HOL-Library.Product_Lexorder"
begin

text \<open>
  The server's file handlers, \<^verbatim>\<open>src/internal/api/filesystem*.go\<close>: listing folders, reading, saving, downloading
  and uploading files below the root. The disk is a map from paths to what is there. Symbolic links are
  \<open>en_symlinks\<close>; which operation fails, and the random part of a temporary name, are arguments.
\<close>

section \<open>The disk\<close>

datatype fs_error = FsNotExist | FsPermission | FsOther

text \<open>A folder has entries with name and kind, and with size and time if \<^verbatim>\<open>Info\<close> could get them.\<close>

record dir_entry =
  de_name :: string
  de_isDir :: bool
  de_info :: "(nat \<times> string) option"

datatype node = DirNode "dir_entry list" | FileNode string

type_synonym disk = "string \<Rightarrow> fs_error + node"

datatype write_step = CreateTemp | WriteTemp | SyncTemp | CloseTemp | ChmodTemp | RenameTemp

record file_env =
  fe_open :: "string \<Rightarrow> fs_error option"        \<comment> \<open>opening or reading fails\<close>
  fe_random :: string
  fe_fail :: "write_step \<Rightarrow> fs_error option"
  fe_form :: bool                              \<comment> \<open>the multipart form is readable and not too large\<close>
  fe_copy :: "string \<Rightarrow> nat option"             \<comment> \<open>copying to this path fails after so many bytes\<close>

definition maxReadBytes :: nat where "maxReadBytes = 2 * 1024 * 1024"

definition binaryScanBytes :: nat where "binaryScanBytes = 1024"

definition maxWriteBytes :: nat where "maxWriteBytes = maxReadBytes"

section \<open>Answers\<close>

fun writeFsError :: "fs_error \<Rightarrow> response" where
  "writeFsError FsNotExist = writeError 404 ''path not found''"
| "writeFsError FsPermission = writeError 403 ''permission denied''"
| "writeFsError FsOther = writeError 500 ''internal server error''"

definition go_dir :: "string \<Rightarrow> string" where
  "go_dir p = go_clean (rev (dropWhile (\<lambda>c. c \<noteq> CHR ''/'') (rev p)))"

definition parentOf :: "string \<Rightarrow> json" where
  "parentOf dir = (let parent = go_dir dir in if parent = dir then JNull else JStr (go_utf8 parent))"

definition entry_json :: "dir_entry \<times> nat \<times> string \<Rightarrow> json" where
  "entry_json x =
     (case x of (e, n, t) \<Rightarrow> JObj [(''name'', JStr (go_utf8 (de_name e))), (''isDir'', JBool (de_isDir e)),
        (''size'', JNum (Num (of_nat n))), (''modTime'', JStr t)])"

definition listing_json :: "string \<Rightarrow> string \<Rightarrow> json list \<Rightarrow> json" where
  "listing_json dir k vs = JObj [(''path'', JStr (go_utf8 dir)), (''parent'', parentOf dir), (k, JArr vs)]"

section \<open>Reading\<close>

definition read_dir :: "file_env \<Rightarrow> string \<Rightarrow> disk \<Rightarrow> fs_error + dir_entry list" where
  "read_dir fe dir d =
     (case (d dir, fe_open fe dir) of
        (Inl e, _) \<Rightarrow> Inl e
      | (_, Some e) \<Rightarrow> Inl e
      | (Inr (FileNode c), None) \<Rightarrow> Inl FsOther
      | (Inr (DirNode es), None) \<Rightarrow> Inr es)"

definition answer_dir ::
  "server_env \<Rightarrow> file_env \<Rightarrow> string \<Rightarrow> disk \<Rightarrow> string \<Rightarrow> (dir_entry list \<Rightarrow> json list) \<Rightarrow> response" where
  "answer_dir env fe url d k items =
     (case resolvePath env (query_get url ''path'') of
        Inl e \<Rightarrow> writeError 400 e
      | Inr dir \<Rightarrow>
          (case read_dir fe dir d of
             Inl e \<Rightarrow> writeFsError e
           | Inr es \<Rightarrow> writeJSON 200 (listing_json dir k (items es))))"

definition handleBrowse :: "server_env \<Rightarrow> file_env \<Rightarrow> string \<Rightarrow> disk \<Rightarrow> response" where
  "handleBrowse env fe url d =
     answer_dir env fe url d ''dirs'' (\<lambda>es. map (\<lambda>n. JStr (go_utf8 n)) (sort (map de_name (filter de_isDir es))))"

definition handleList :: "server_env \<Rightarrow> file_env \<Rightarrow> string \<Rightarrow> disk \<Rightarrow> response" where
  "handleList env fe url d =
     answer_dir env fe url d ''entries''
       (\<lambda>es. map entry_json (sort_key (\<lambda>x. (\<not> de_isDir (fst x), de_name (fst x)))
          (List.map_filter (\<lambda>e. map_option (Pair e) (de_info e)) es)))"

text \<open>\<^verbatim>\<open>os.Stat\<close>, the test for a folder, \<^verbatim>\<open>os.Open\<close>: the bytes of the file.\<close>

definition open_file :: "server_env \<Rightarrow> file_env \<Rightarrow> string \<Rightarrow> disk \<Rightarrow> response + string" where
  "open_file env fe url d =
     (case resolvePath env (query_get url ''path'') of
        Inl e \<Rightarrow> Inl (writeError 400 e)
      | Inr target \<Rightarrow>
          (case d target of
             Inl e \<Rightarrow> Inl (writeFsError e)
           | Inr (DirNode es) \<Rightarrow> Inl (writeError 400 ''path is a directory'')
           | Inr (FileNode data) \<Rightarrow>
               (case fe_open fe target of Some e \<Rightarrow> Inl (writeFsError e) | None \<Rightarrow> Inr data)))"

definition handleDownload :: "server_env \<Rightarrow> file_env \<Rightarrow> string \<Rightarrow> disk \<Rightarrow> response" where
  "handleDownload env fe url d =
     (case open_file env fe url d of
        Inl res \<Rightarrow> res
      | Inr data \<Rightarrow> \<lparr>res_status = 200, res_statusText = http_text 200, res_body = NotJson data\<rparr>)"

definition isBinary :: "string \<Rightarrow> bool" where
  "isBinary data = (CHR 0x00 \<in> set (take binaryScanBytes data))"

definition handleReadFile :: "server_env \<Rightarrow> file_env \<Rightarrow> string \<Rightarrow> disk \<Rightarrow> response" where
  "handleReadFile env fe url d =
     (case open_file env fe url d of
        Inl res \<Rightarrow> res
      | Inr all \<Rightarrow>
          let data = take (maxReadBytes + 1) all in
          if length data > maxReadBytes then writeError 413 ''file too large to edit''
          else if isBinary data then writeError 415 ''binary file cannot be edited''
          else writeJSON 200 (JObj [(''content'', JStr (go_utf8 data)), (''size'', JNum (Num (of_nat (length data))))]))"

section \<open>Saving\<close>

text \<open>\<^verbatim>\<open>os.CreateTemp\<close> joins the folder and the name. The temporary file is removed unless it was renamed.\<close>

definition temp_name :: "file_env \<Rightarrow> string \<Rightarrow> string" where
  "temp_name fe path =
     (let dir = go_dir path
      in (if last dir = CHR ''/'' then dir else dir @ ''/'') @ ''.th-edit-'' @ fe_random fe)"

definition writeFileAtomic :: "file_env \<Rightarrow> string \<Rightarrow> string \<Rightarrow> disk \<Rightarrow> disk \<times> fs_error option" where
  "writeFileAtomic fe path data d =
     (let tmp = temp_name fe path; remove = (\<lambda>d. d(tmp := Inl FsNotExist)) in
      case fe_fail fe CreateTemp of
        Some e \<Rightarrow> (d, Some e)
      | None \<Rightarrow>
          let d1 = d(tmp := Inr (FileNode [])) in
          case fe_fail fe WriteTemp of
            Some e \<Rightarrow> (remove d1, Some e)
          | None \<Rightarrow>
              let d2 = d1(tmp := Inr (FileNode data)) in
              case List.find (\<lambda>s. fe_fail fe s \<noteq> None) [SyncTemp, CloseTemp, ChmodTemp, RenameTemp] of
                Some s \<Rightarrow> (remove d2, fe_fail fe s)
              | None \<Rightarrow>
                  (case d path of
                     Inr (DirNode es) \<Rightarrow> (remove d2, Some FsOther)
                   | _ \<Rightarrow> ((remove d2)(path := d2 tmp), None)))"

text \<open>The text that \<open>JSON.stringify\<close> writes for a string: control characters become six bytes at most.\<close>

definition json_escape :: "char \<Rightarrow> string" where
  "json_escape c =
     (if c = CHR 0x22 \<or> c = CHR 0x5C then [CHR 0x5C, c]
      else if c = CHR 0x08 then [CHR 0x5C, CHR ''b''] else if c = CHR 0x0C then [CHR 0x5C, CHR ''f'']
      else if c = CHR 0x0A then [CHR 0x5C, CHR ''n''] else if c = CHR 0x0D then [CHR 0x5C, CHR ''r'']
      else if c = CHR 0x09 then [CHR 0x5C, CHR ''t'']
      else if (of_char c :: nat) < 32 then [CHR 0x5C] @ ''u00'' @ [digit_char (of_char c div 16), digit_char (of_char c mod 16)]
      else [c])"

definition json_quote :: "string \<Rightarrow> string" where
  "json_quote s = [CHR 0x22] @ concat (map json_escape s) @ [CHR 0x22]"

fun stringify :: "json \<Rightarrow> string" and stringify_items :: "json list \<Rightarrow> string"
  and stringify_members :: "(string \<times> json) list \<Rightarrow> string" where
  "stringify JNull = ''null''"
| "stringify (JBool b) = (if b then ''true'' else ''false'')"
| "stringify (JNum n) = (if js_isFinite n then js_String n else ''null'')"
| "stringify (JStr s) = json_quote s"
| "stringify (JArr vs) = ''['' @ stringify_items vs @ '']''"
| "stringify (JObj ps) = ''{'' @ stringify_members ps @ ''}''"
| "stringify_items [] = []"
| "stringify_items (v # vs) = stringify v @ (if vs = [] then [] else '','' @ stringify_items vs)"
| "stringify_members [] = []"
| "stringify_members ((k, v) # ps) =
     json_quote k @ '':'' @ stringify v @ (if ps = [] then [] else '','' @ stringify_members ps)"

definition body_length :: "body_init option \<Rightarrow> nat" where
  "body_length body = (case body of Some (BodyJson v) \<Rightarrow> length (stringify v) | _ \<Rightarrow> 0)"

definition handleWriteFile :: "server_env \<Rightarrow> file_env \<Rightarrow> string \<Rightarrow> body_init option \<Rightarrow> disk \<Rightarrow> disk \<times> response" where
  "handleWriteFile env fe url body d =
     (case resolvePath env (query_get url ''path'') of
        Inl e \<Rightarrow> (d, writeError 400 e)
      | Inr target \<Rightarrow>
          if 6 * maxWriteBytes + 4096 < body_length body then (d, writeError 413 ''content too large to save'')
          else (case body_field body ''content'' of
              None \<Rightarrow> (d, writeError 400 ''invalid request body'')
            | Some content \<Rightarrow>
                if length content > maxWriteBytes then (d, writeError 413 ''content too large to save'')
                else (case writeFileAtomic fe target content d of
                    (d', Some e) \<Rightarrow> (d', writeFsError e)
                  | (d', None) \<Rightarrow> (d', noContent))))"

section \<open>Uploading\<close>

text \<open>The form's files: the library takes the last part of the name given in the part's header, and a part
  without a name is no file.\<close>

definition form_files :: "body_init option \<Rightarrow> (string \<times> string) list" where
  "form_files body =
     (case body of
        Some (BodyForm ps) \<Rightarrow>
          map (\<lambda>(k, f, n). (go_base n, file_bytes f)) (filter (\<lambda>(k, f, n). k = ''files'' \<and> n \<noteq> []) ps)
      | _ \<Rightarrow> [])"

text \<open>\<^verbatim>\<open>os.OpenFile\<close> follows a link that is already there.\<close>

definition upload_target :: "server_env \<Rightarrow> string \<Rightarrow> string \<Rightarrow> string" where
  "upload_target env destDir name =
     (let p = go_join destDir name in case en_symlinks env p of Inr q \<Rightarrow> q | Inl e \<Rightarrow> p)"

definition saveUpload :: "server_env \<Rightarrow> file_env \<Rightarrow> string \<times> string \<Rightarrow> string \<Rightarrow> disk \<Rightarrow> disk \<times> bool" where
  "saveUpload env fe fh destDir d =
     (let name = go_base (go_clean (fst fh)) in
      if name = [] \<or> name = ''.'' \<or> name = ''..'' then (d, False)
      else let p = upload_target env destDir name in
        case (d p, fe_open fe p) of
          (Inr (DirNode es), _) \<Rightarrow> (d, False)
        | (_, Some e) \<Rightarrow> (d, False)
        | _ \<Rightarrow> (case fe_copy fe p of
                None \<Rightarrow> (d(p := Inr (FileNode (snd fh))), True)
              | Some n \<Rightarrow> (d(p := Inr (FileNode (take n (snd fh)))), False)))"

fun save_all :: "server_env \<Rightarrow> file_env \<Rightarrow> (string \<times> string) list \<Rightarrow> string \<Rightarrow> disk \<Rightarrow> disk \<times> string option" where
  "save_all env fe [] destDir d = (d, None)"
| "save_all env fe (fh # fhs) destDir d =
     (case saveUpload env fe fh destDir d of
        (d1, False) \<Rightarrow> (d1, Some (fst fh))
      | (d1, True) \<Rightarrow> save_all env fe fhs destDir d1)"

definition handleUpload ::
  "server_env \<Rightarrow> file_env \<Rightarrow> string \<Rightarrow> string \<Rightarrow> body_init option \<Rightarrow> store \<Rightarrow> disk \<Rightarrow> disk \<times> response" where
  "handleUpload env fe wsId tmId body s d =
     (case (GetWorkspace wsId s, GetTerminal wsId tmId s) of
        (Inl e, _) \<Rightarrow> (d, writeStoreError e)
      | (_, Inl e) \<Rightarrow> (d, writeStoreError e)
      | (Inr w, Inr tm) \<Rightarrow>
          (case body of
             Some (BodyForm ps) \<Rightarrow>
               if \<not> fe_form fe then (d, writeError 400 ''invalid multipart form'')
               else if form_files body = [] then (d, writeError 400 (''no '' @ json_quote ''files'' @ '' field in multipart form''))
               else (case save_all env fe (form_files body) (ws_path w) d of
                   (d', Some name) \<Rightarrow> (d', writeError 500 (''failed to save '' @ name))
                 | (d', None) \<Rightarrow> (d', writeJSON 200 (JObj [(''uploaded'',
                     JArr (map (\<lambda>fh. JStr (go_utf8 (go_base (fst fh)))) (form_files body)))])))
           | _ \<Rightarrow> (d, writeError 400 ''invalid multipart form'')))"

section \<open>The server with its disk\<close>

definition handle_file ::
  "server_env \<Rightarrow> file_env \<Rightarrow> route \<Rightarrow> string list \<Rightarrow> string \<Rightarrow> body_init option \<Rightarrow> store \<Rightarrow> disk \<Rightarrow> disk \<times> response" where
  "handle_file env fe r args url body s d =
     (case r of
        RBrowse \<Rightarrow> (d, handleBrowse env fe url d)
      | RListDir \<Rightarrow> (d, handleList env fe url d)
      | RDownload \<Rightarrow> (d, handleDownload env fe url d)
      | RReadFile \<Rightarrow> (d, handleReadFile env fe url d)
      | RWriteFile \<Rightarrow> handleWriteFile env fe url body d
      | RUpload \<Rightarrow> handleUpload env fe (args ! 0) (args ! 1) body s d
      | _ \<Rightarrow> (d, en_other env r args url body))"

text \<open>What \<open>serve\<close> answers over this disk, and the disk afterwards.\<close>

definition disk_env :: "server_env \<Rightarrow> file_env \<Rightarrow> store \<Rightarrow> disk \<Rightarrow> server_env" where
  "disk_env env fe s d = env\<lparr>en_other := \<lambda>r args url body. snd (handle_file env fe r args url body s d)\<rparr>"

definition disk_after ::
  "server_env \<Rightarrow> file_env \<Rightarrow> string \<Rightarrow> string \<Rightarrow> body_init option \<Rightarrow> store \<Rightarrow> disk \<Rightarrow> disk" where
  "disk_after env fe m url body s d =
     (case route_of m url of
        Some (r, args) \<Rightarrow> if en_auth env then fst (handle_file env fe r args url body s d) else d
      | None \<Rightarrow> d)"

section \<open>Saving is atomic\<close>

definition write_error :: "file_env \<Rightarrow> fs_error + node \<Rightarrow> fs_error option" where
  "write_error fe there =
     (case List.find (\<lambda>s. fe_fail fe s \<noteq> None) [CreateTemp, WriteTemp, SyncTemp, CloseTemp, ChmodTemp, RenameTemp] of
        Some s \<Rightarrow> fe_fail fe s
      | None \<Rightarrow> (case there of Inr (DirNode es) \<Rightarrow> Some FsOther | _ \<Rightarrow> None))"

text \<open>The temporary name is new, as \<^verbatim>\<open>os.CreateTemp\<close> documents.\<close>

definition temps_new :: "file_env \<Rightarrow> disk \<Rightarrow> bool" where
  "temps_new fe d = (\<forall>p. d (temp_name fe p) = Inl FsNotExist)"

lemma write_atomic:
  assumes "temps_new fe d"
  shows "writeFileAtomic fe p data d =
    (case write_error fe (d p) of None \<Rightarrow> (d(p := Inr (FileNode data)), None) | Some e \<Rightarrow> (d, Some e))"
proof -
  have t: "d (temp_name fe p) = Inl FsNotExist" using assms by (simp add: temps_new_def)
  then have "(d(temp_name fe p := x))(temp_name fe p := Inl FsNotExist) = d" for x by (simp add: fun_upd_idem)
  then show ?thesis
    by (auto simp: writeFileAtomic_def write_error_def Let_def fun_upd_idem t split: option.split sum.split node.split)
qed

lemma escape_length: "length (concat (map json_escape s)) \<le> 6 * length s"
proof (induction s)
  case (Cons c s)
  have "length (json_escape c) \<le> 6" by (simp add: json_escape_def)
  with Cons show ?case by simp
qed simp

text \<open>The limit on the body never refuses a text within the limit on the file.\<close>

lemma body_fits:
  "length c \<le> maxWriteBytes \<Longrightarrow> body_length (sent_json [(''content'', JStr c)]) \<le> 6 * maxWriteBytes + 4096"
  using escape_length [of c] by (simp add: body_length_def sent_json_def json_quote_def json_escape_def)

lemma write_handler:
  assumes "temps_new fe d" and "resolvePath env (query_get url ''path'') = Inr t" and "length c \<le> maxWriteBytes"
  shows "handleWriteFile env fe url (sent_json [(''content'', JStr c)]) d =
    (case write_error fe (d t) of
       None \<Rightarrow> (d(t := Inr (FileNode c)), noContent) | Some e \<Rightarrow> (d, writeFsError e))"
  using assms body_fits [OF assms(3)]
  by (simp add: handleWriteFile_def write_atomic body_field_def sent_json_def split: option.split)

section \<open>Nothing outside the root\<close>

definition rooted :: "server_env \<Rightarrow> bool" where
  "rooted env = (symlinks_clean (en_symlinks env) \<and> is_abs (en_root env) \<and> go_clean (en_root env) = en_root env)"

definition same_below :: "string \<Rightarrow> disk \<Rightarrow> disk \<Rightarrow> bool" where
  "same_below base d d' = (\<forall>q. below base q \<longrightarrow> d q = d' q)"

lemma resolved_below: "rooted env \<Longrightarrow> resolvePath env p = Inr q \<Longrightarrow> below (en_root env) q"
  using resolve_below [of env p q] by (simp add: rooted_def)

lemma resolved_same: "rooted env \<Longrightarrow> same_below (en_root env) d d' \<Longrightarrow> resolvePath env p = Inr q \<Longrightarrow> d q = d' q"
  using resolved_below by (simp add: same_below_def)

lemma reads_below:
  assumes "rooted env" and "same_below (en_root env) d d'"
  shows "answer_dir env fe url d k f = answer_dir env fe url d' k f" and "open_file env fe url d = open_file env fe url d'"
  using resolved_same [OF assms]
  by (auto simp: answer_dir_def read_dir_def open_file_def split: sum.split)

lemma write_below:
  assumes "rooted env" and "temps_new fe d" and "fst (handleWriteFile env fe url body d) q \<noteq> d q"
  shows "below (en_root env) q"
  using assms(3) resolved_below [OF assms(1)]
  by (auto simp: handleWriteFile_def write_atomic [OF assms(2)] split: sum.splits if_splits option.splits)

lemma write_same:
  assumes "rooted env" and "temps_new fe d" and "temps_new fe d'" and "same_below (en_root env) d d'"
  shows "snd (handleWriteFile env fe url body d) = snd (handleWriteFile env fe url body d')"
  using resolved_same [OF assms(1,4)]
  by (auto simp: handleWriteFile_def write_atomic [OF assms(2)] write_atomic [OF assms(3)] split: sum.split option.split)

lemma clean_parts_id: "''.'' \<notin> set xs \<Longrightarrow> ''..'' \<notin> set xs \<Longrightarrow> clean_parts True kept xs = rev kept @ xs"
  by (induction xs arbitrary: kept) auto

lemma join_below:
  assumes "rooted env" and "is_abs a" and "below (en_root env) a" and "''.'' \<notin> set (path_parts b)" and "''..'' \<notin> set (path_parts b)"
  shows "below (en_root env) (go_join a b)"
proof -
  from assms(3) obtain r where r: "path_parts a = path_parts (en_root env) @ r"
    "list_all (\<lambda>x. x \<noteq> ''..'' \<and> x \<noteq> ''.'' \<and> x \<noteq> []) r" by (auto simp: below_def)
  have root: "x \<noteq> ''..'' \<and> x \<noteq> ''.''" if "x \<in> set (path_parts (en_root env))" for x
    using clean_abs [of "en_root env" x] assms(1) that by (simp add: rooted_def)
  have j: "go_join a b = go_clean (a @ CHR ''/'' # b)" "is_abs (a @ CHR ''/'' # b)"
    using assms(2) by (auto simp: go_join_def is_abs_def split: list.splits)
  have "path_parts (go_join a b) = path_parts (en_root env) @ r @ path_parts b"
    unfolding j(1) clean_parts_of(1) [OF j(2)] path_parts_append r(1)
    by (subst clean_parts_id) (use root r(2) assms(4,5) in \<open>auto simp: list_all_iff\<close>)
  moreover have "list_all (\<lambda>x. x \<noteq> ''..'' \<and> x \<noteq> ''.'' \<and> x \<noteq> []) (r @ path_parts b)"
    using r(2) assms(4,5) path_parts_ok [of _ b] by (auto simp: list_all_iff)
  ultimately show ?thesis by (auto simp: below_def)
qed

lemma base_parts:
  assumes "go_base p \<noteq> ''.''" and "go_base p \<noteq> ''..''"
  shows "''.'' \<notin> set (path_parts (go_base p))" and "''..'' \<notin> set (path_parts (go_base p))"
proof -
  have "path_parts (go_base p) = [] \<or> path_parts (go_base p) = [go_base p]"
  proof (cases "rev (path_parts p)")
    case Nil
    then show ?thesis using assms(1) by (simp add: go_base_def split: if_splits)
  next
    case (Cons x xs)
    then have "x \<in> set (path_parts p)" by (metis list.set_intros(1) set_rev)
    then show ?thesis using Cons path_part [of x] path_parts_ok [of x p] by (auto simp: go_base_def)
  qed
  with assms show "''.'' \<notin> set (path_parts (go_base p))" "''..'' \<notin> set (path_parts (go_base p))" by auto
qed

lemma upload_changes:
  assumes "fst (save_all env fe fhs dest d) q \<noteq> d q" and "rooted env"
  shows "\<exists>name. q = upload_target env dest name
    \<and> (if is_abs dest \<and> below (en_root env) dest then below (en_root env) (go_join dest name) else True)"
  using assms(1)
proof (induction fhs arbitrary: d)
  case (Cons fh fhs)
  let ?name = "go_base (go_clean (fst fh))"
  show ?case
  proof (cases "fst (saveUpload env fe fh dest d) q = d q")
    case True
    with Cons.prems have "fst (save_all env fe fhs dest (fst (saveUpload env fe fh dest d))) q \<noteq> fst (saveUpload env fe fh dest d) q"
      by (simp split: prod.splits bool.splits)
    then show ?thesis by (rule Cons.IH)
  next
    case False
    then have "?name \<noteq> ''.''" "?name \<noteq> ''..''" "q = upload_target env dest ?name"
      by (auto simp: saveUpload_def Let_def split: if_splits sum.splits node.splits option.splits)
    with join_below [OF assms(2) _ _ base_parts] show ?thesis by (intro exI [of _ ?name]) simp
  qed
qed simp

lemma file_request:
  assumes "rooted env" and "temps_new fe d" and "r \<noteq> RUpload"
  shows "fst (handle_file env fe r args url body s d) q \<noteq> d q \<Longrightarrow> below (en_root env) q"
    and "temps_new fe d' \<Longrightarrow> same_below (en_root env) d d' \<Longrightarrow>
      snd (handle_file env fe r args url body s d) = snd (handle_file env fe r args url body s d')"
proof -
  show "fst (handle_file env fe r args url body s d) q \<noteq> d q \<Longrightarrow> below (en_root env) q"
    using write_below [OF assms(1,2)] assms(3) by (simp add: handle_file_def split: route.splits)
  assume "temps_new fe d'" and same: "same_below (en_root env) d d'"
  then show "snd (handle_file env fe r args url body s d) = snd (handle_file env fe r args url body s d')"
    using assms reads_below [OF assms(1) same] write_same [OF assms(1,2) _ same]
    by (simp add: handle_file_def handleBrowse_def handleList_def handleDownload_def handleReadFile_def split: route.split)
qed

lemma upload_request:
  assumes "rooted env" and "fst (handleUpload env fe i j body s d) q \<noteq> d q"
  shows "\<exists>w \<in> set (st_workspaces s). \<exists>name. q = upload_target env (ws_path w) name
    \<and> (if is_abs (ws_path w) \<and> below (en_root env) (ws_path w) then below (en_root env) (go_join (ws_path w) name) else True)"
proof -
  from assms(2) obtain w where w: "GetWorkspace i s = Inr w"
    and ch: "fst (save_all env fe (form_files body) (ws_path w) d) q \<noteq> d q"
    by (auto simp: handleUpload_def split: sum.splits option.splits body_init.splits if_splits prod.splits)
  from w have "w \<in> set (st_workspaces s)"
    by (auto simp: GetWorkspace_def findWorkspaceLocked_def find_Some_iff split: option.splits)
  with upload_changes [OF ch assms(1)] show ?thesis by blast
qed

lemma disk_env_fields:
  "en_auth (disk_env env fe s d) = en_auth env" "en_flush (disk_env env fe s d) = en_flush env"
  "en_random (disk_env env fe s d) = en_random env" "en_root (disk_env env fe s d) = en_root env"
  "en_symlinks (disk_env env fe s d) = en_symlinks env" "en_has (disk_env env fe s d) = en_has env"
  "en_new (disk_env env fe s d) = en_new env" "en_rename (disk_env env fe s d) = en_rename env"
  "en_large (disk_env env fe s d) = en_large env" "en_static (disk_env env fe s d) = en_static env"
  by (simp_all add: disk_env_def)

lemma disk_env_handlers:
  "handleCreateWorkspace (disk_env env fe s d) = handleCreateWorkspace env"
  "handleDeleteWorkspace (disk_env env fe s d) = handleDeleteWorkspace env"
  "handleRenameWorkspace (disk_env env fe s d) = handleRenameWorkspace env"
  "handleCreateTerminal (disk_env env fe s d) = handleCreateTerminal env"
  "handleDeleteTerminal (disk_env env fe s d) = handleDeleteTerminal env"
  "handleRenameTerminal (disk_env env fe s d) = handleRenameTerminal env"
  "handleSetLayout (disk_env env fe s d) = handleSetLayout env"
  unfolding fun_eq_iff handleCreateWorkspace_def handleDeleteWorkspace_def handleRenameWorkspace_def
    handleCreateTerminal_def handleDeleteTerminal_def handleRenameTerminal_def handleSetLayout_def decodeJSON_def
    wished_name_def resolvePath_def disk_env_fields
  by blast+

lemma dispatch_disk:
  "dispatch (disk_env env fe s d) quote r args url body s =
     (if r \<in> {RListWs, RCreateWs, RDeleteWs, RRenameWs, RListTm, RCreateTm, RDeleteTm, RRenameTm, RAttachCmd, RGetLayout, RSetLayout}
      then dispatch env quote r args url body s
      else (s, snd (handle_file env fe r args url body s d), []))"
  by (cases r) (simp_all add: dispatch_def disk_env_handlers, simp_all add: disk_env_def)


text \<open>A root with one text file.\<close>

definition demo_fe :: file_env where
  "demo_fe = \<lparr>fe_open = (\<lambda>p. None), fe_random = ''1'', fe_fail = (\<lambda>s. None), fe_form = True, fe_copy = (\<lambda>p. None)\<rparr>"

definition demo_disk :: disk where
  "demo_disk p = (if p = ''/home/u'' then Inr (DirNode [\<lparr>de_name = ''a'', de_isDir = False, de_info = Some (2, ''t'')\<rparr>])
     else if p = ''/home/u/a'' then Inr (FileNode ''hi'') else Inl FsNotExist)"

definition demo_files :: server_env where
  "demo_files = demo_env\<lparr>en_symlinks := \<lambda>p. if p = ''/home/u'' \<or> p = ''/home/u/a'' then Inr p else Inl ''no such file or directory''\<rparr>"

lemma demo_clean_paths: "go_clean ''/home/u'' = ''/home/u''" "go_clean ''/home/u/a'' = ''/home/u/a''"
  by (simp_all add: go_clean_def is_abs_def path_parts_def js_split.simps Let_def)

lemma demo_rooted: "rooted demo_files"
  by (simp add: rooted_def demo_files_def symlinks_clean_def demo_env_def demo_clean_paths) (simp add: is_abs_def)

lemma demo_temps: "temps_new demo_fe demo_disk"
proof -
  have "last (temp_name demo_fe p) = CHR ''1''" for p
    by (simp add: temp_name_def Let_def demo_fe_def)
  then have "temp_name demo_fe p \<noteq> q" if "last q \<noteq> CHR ''1''" for p q using that by auto
  from this [of "''/home/u''"] this [of "''/home/u/a''"]
  have "temp_name demo_fe p \<noteq> ''/home/u''" "temp_name demo_fe p \<noteq> ''/home/u/a''" for p by simp_all
  then show ?thesis by (simp add: temps_new_def demo_disk_def)
qed


section \<open>What was saved is read back\<close>

lemma served_file:
  assumes "(r, url, m) \<in> {(RListDir, ''/api/fs/list'', ''GET''), (RBrowse, ''/api/fs/browse'', ''GET''),
     (RReadFile, ''/api/fs/read'', ''GET''), (RWriteFile, ''/api/fs/write'', ''POST''), (RDownload, ''/api/fs/download'', ''GET'')}"
    and "en_auth env"
  shows "serve (disk_env env fe s d) quote m (url @ qs [(''path'', Some p)]) body s =
      (s, snd (handle_file env fe r [] (url @ qs [(''path'', Some p)]) body s d), [])"
    and "disk_after env fe m (url @ qs [(''path'', Some p)]) body s d =
      fst (handle_file env fe r [] (url @ qs [(''path'', Some p)]) body s d)"
  using file_routes(1) [OF assms(1)] assms
  by (auto simp: serve_def dispatch_disk disk_env_fields disk_after_def)

definition write_url :: "string \<Rightarrow> string" where
  "write_url p = ''/api/fs/write'' @ qs [(''path'', Some p)]"

definition read_url :: "string \<Rightarrow> string" where
  "read_url p = ''/api/fs/read'' @ qs [(''path'', Some p)]"

lemma client_write:
  assumes "en_auth env"
  shows "fsWrite (server_fetch (disk_env env fe s d) quote s) p c =
      client_done (s, snd (handleWriteFile env fe (write_url p) (sent_json [(''content'', JStr c)]) d), [])"
    and "disk_after env fe ''POST'' (write_url p) (sent_json [(''content'', JStr c)]) s d =
      fst (handleWriteFile env fe (write_url p) (sent_json [(''content'', JStr c)]) d)"
  using served_file [of RWriteFile "''/api/fs/write''" "''POST''" env] assms
  by (simp_all add: fsWrite_def fetch_json handle_file_def sent_json_def write_url_def)

lemma client_read:
  assumes "en_auth env"
  shows "fsRead (server_fetch (disk_env env fe s d) quote s) p = client_sees (s, handleReadFile env fe (read_url p) d, [])"
  using served_file(1) [of RReadFile "''/api/fs/read''" "''GET''" env] assms
  by (simp add: fsRead_def fetch_json handle_file_def read_url_def)

lemma path_of_url: "query_get (write_url p) ''path'' = p" "query_get (read_url p) ''path'' = p"
  unfolding write_url_def read_url_def
  by (rule file_routes(2) [of RWriteFile _ "''POST''"], simp) (rule file_routes(2) [of RReadFile _ "''GET''"], simp)

lemma done_simps:
  "client_done (s, noContent, xs) = Inr ()"
  "client_done (s, writeFsError e, xs) = Inl (parseError (writeFsError e))"
  "client_sees (s, writeJSON 200 v, xs) = Inr v"
  by (cases e; simp add: client_done_def client_sees_def noContent_def writeError_def writeJSON_def res_ok_def Let_def)+


lemma demo_resolve: "resolvePath demo_files ''/home/u/a'' = Inr ''/home/u/a''"
  by (simp add: resolvePath_def demo_files_def js_trim_def is_ws_def demo_clean_paths is_abs_def Let_def demo_env_def)


section \<open>The folder picker over this server\<close>

text \<open>What the folder picker makes of an answer; the text of a syntax error is the browser's.\<close>

definition read_browse :: "json \<Rightarrow> FsBrowse" where
  "read_browse v =
     \<lparr>br_path = (case get_prop v ''path'' of Some (JStr p) \<Rightarrow> p | _ \<Rightarrow> []),
      br_parent = (case get_prop v ''parent'' of Some (JStr p) \<Rightarrow> Some p | _ \<Rightarrow> None),
      br_dirs = (case get_prop v ''dirs'' of
          Some (JArr vs) \<Rightarrow> map (\<lambda>w. case w of JStr n \<Rightarrow> n | _ \<Rightarrow> []) vs | _ \<Rightarrow> [])\<rparr>"

fun api_message :: "string \<Rightarrow> api_error \<Rightarrow> string" where
  "api_message syn (FetchError e) = e"
| "api_message syn (ApiError n m) = m"
| "api_message syn JsonSyntaxError = syn"

definition browse_of :: "string \<Rightarrow> fetcher \<Rightarrow> string \<Rightarrow> FsBrowse reply" where
  "browse_of syn F path =
     (case fsBrowse F path of Inl e \<Rightarrow> Err (Some (api_message syn e)) | Inr v \<Rightarrow> Got (read_browse v))"

text \<open>The library's promise on links: a result is a path without links; \<^verbatim>\<open>config.Load\<close> resolves the root.\<close>

definition links_resolved :: "server_env \<Rightarrow> bool" where
  "links_resolved env =
     (rooted env \<and> (\<forall>p q. en_symlinks env p = Inr q \<longrightarrow> en_symlinks env q = Inr q)
      \<and> en_symlinks env (en_root env) = Inr (en_root env))"

lemma abs_not_blank: "is_abs q \<Longrightarrow> js_trim q \<noteq> []"
proof -
  assume "is_abs q"
  then obtain r where q: "q = CHR ''/'' # r" by (auto simp: is_abs_def split: list.splits)
  then have "dropWhile is_ws q = q" by (simp add: is_ws_def)
  moreover have "\<exists>c \<in> set (rev q). \<not> is_ws c" using q by (simp add: is_ws_def)
  ultimately show ?thesis using dropWhile_eq_Nil_conv [of is_ws "rev q"] by (auto simp: js_trim_def)
qed

lemma resolve_again:
  assumes "links_resolved env" and "resolvePath env p = Inr q"
  shows "resolvePath env q = Inr q"
proof -
  note l = assms(1) [unfolded links_resolved_def rooted_def symlinks_clean_def]
  let ?c = "if is_abs (go_clean p) then go_clean p else go_join (en_root env) (go_clean p)"
  have again: "resolvePath env q = Inr q"
    if "is_abs q" "go_clean q = q" "en_symlinks env q = Inr q" "q = en_root env \<or> prefix (en_root env @ ''/'') q"
    using that by (auto simp: resolvePath_def abs_not_blank Let_def)
  show ?thesis
  proof (cases "js_trim p = []")
    case True
    then have "q = en_root env" using assms(2) by (simp add: resolvePath_def)
    with l show ?thesis by (intro again) auto
  next
    case False
    have "is_abs (en_root env @ CHR ''/'' # b)" for b using l by (cases "en_root env") (simp_all add: is_abs_def)
    moreover have "go_join (en_root env) b = go_clean (en_root env @ CHR ''/'' # b)" for b
      using l by (auto simp: go_join_def is_abs_def)
    ultimately have abs: "is_abs ?c" using clean_parts_of(2) by simp
    from assms(2) False have ev: "en_symlinks env ?c = Inr q" and b: "q = en_root env \<or> prefix (en_root env @ ''/'') q"
      by (auto simp: resolvePath_def Let_def split: if_splits sum.splits)
    from l ev abs have "is_abs q" "go_clean q = q" "en_symlinks env q = Inr q" by blast+
    then show ?thesis using b by (rule again)
  qed
qed

definition browse_url :: "string \<Rightarrow> string" where
  "browse_url p = ''/api/fs/browse'' @ qs [(''path'', Some p)]"

lemma client_browse:
  assumes "en_auth env"
  shows "fsBrowse (server_fetch (disk_env env fe s d) quote s) p = client_sees (s, handleBrowse env fe (browse_url p) d, [])"
  using served_file(1) [of RBrowse "''/api/fs/browse''" "''GET''" env] assms
  by (simp add: fsBrowse_def fetch_json handle_file_def browse_url_def)

lemma browse_path: "query_get (browse_url p) ''path'' = p"
  unfolding browse_url_def by (rule file_routes(2) [of RBrowse _ "''GET''"]) simp

lemma browse_errors: "client_sees (s, writeFsError e, []) \<noteq> Inr v" "client_sees (s, writeError 400 m, []) \<noteq> Inr v"
  by (cases e; simp add: client_sees_def writeError_def writeJSON_def res_ok_def Let_def)+

lemma browse_answered:
  assumes "en_auth env" and "browse_of syn (server_fetch (disk_env env fe s d) quote s) p = Got x"
  obtains dir es where "resolvePath env p = Inr dir" and "read_dir fe dir d = Inr es" and "br_path x = go_utf8 dir"
proof -
  obtain v where v: "client_sees (s, handleBrowse env fe (browse_url p) d, []) = Inr v" and x: "x = read_browse v"
    using assms by (auto simp: browse_of_def client_browse split: sum.splits)
  obtain dir where dir: "resolvePath env p = Inr dir"
    using v by (auto simp: browse_errors handleBrowse_def answer_dir_def browse_path split: sum.splits)
  obtain es where es: "read_dir fe dir d = Inr es"
    using v dir by (auto simp: browse_errors handleBrowse_def answer_dir_def browse_path split: sum.splits)
  have "br_path x = go_utf8 dir"
    using v x dir es by (auto simp: handleBrowse_def answer_dir_def browse_path done_simps read_browse_def listing_json_def)
  with dir es show thesis by (rule that)
qed

lemma server_canonical:
  assumes "en_auth env" and "links_resolved env" and "\<And>path q. resolvePath env path = Inr q \<Longrightarrow> utf8_valid q"
    and "browse_of syn (server_fetch (disk_env env fe s d) quote s) p = Got x"
  shows "\<exists>x'. browse_of syn (server_fetch (disk_env env fe s d) quote s) (br_path x) = Got x' \<and> br_path x' = br_path x"
proof -
  obtain dir es where a: "resolvePath env p = Inr dir" "read_dir fe dir d = Inr es" "br_path x = go_utf8 dir"
    using browse_answered [OF assms(1,4)] by blast
  have "br_path x = dir" using assms(3) [OF a(1)] a(3) by (simp add: go_utf8_id)
  then show ?thesis
    using resolve_again [OF assms(2) a(1)] a
    by (simp add: browse_of_def client_browse [OF assms(1)] handleBrowse_def answer_dir_def browse_path done_simps
        read_browse_def listing_json_def)
qed

text \<open>
  C29. The picker comes to rest. Setting the selected folder from an answer starts the listing effect again; with
  this server's answers, whose paths are resolved (and valid text), two answers are enough from any state: then
  an error is shown, or the listing of exactly the selected folder, and no request is waited for.
\<close>

theorem picker_settles:
  assumes "picker_inv p" and "pk_active p"
    and "en_auth env" and "links_resolved env" and "\<forall>path q. resolvePath env path = Inr q \<longrightarrow> utf8_valid q"
  shows "let q = (picker_reply (browse_of syn (server_fetch (disk_env env fe s d) quote s)) ^^ 2) p in
    \<not> pk_loading q
    \<and> (case slot_result (pk_slot q) of
         None \<Rightarrow> False
       | Some (Got d) \<Rightarrow> pk_data q = Some d \<and> pk_selected q = Some (br_path d) \<and> pk_error q = ''''
       | Some (Err m) \<Rightarrow> pk_error q = err_text ''wizard.browseError'' m)"
  by (rule picker_rests [OF assms(1,2)]) (rule server_canonical [OF assms(3,4)], use assms(5) in blast)

theorem picker_settles_witness:
  "\<not> pk_loading ((picker_reply (browse_of ''bad'' (server_fetch (disk_env demo_files demo_fe demo_store demo_disk) (\<lambda>x. x) demo_store)) ^^ 2)
     (set_active True picker_init))"
proof -
  let ?p = "set_active True picker_init"
  have p: "picker_inv ?p" "pk_active ?p"
    by (rule set_active_inv [OF picker_inv_init]) (simp add: set_active_def browse_effect_def picker_init_def)
  have auth: "en_auth demo_files" by (simp add: demo_files_def)
  have links: "links_resolved demo_files" using demo_rooted by (simp add: links_resolved_def) (simp add: demo_files_def)
  have "q = ''/home/u'' \<or> q = ''/home/u/a''" if "resolvePath demo_files path = Inr q" for path q
    using that by (auto simp: resolvePath_def demo_files_def Let_def split: if_splits sum.splits)
  moreover have "utf8_valid ''/home/u''" "utf8_valid ''/home/u/a''" by (rule utf8_ascii, simp add: in_range_def)+
  ultimately have "\<forall>path q. resolvePath demo_files path = Inr q \<longrightarrow> utf8_valid q" by blast
  from picker_settles [OF p auth links this, where s = demo_store and fe = demo_fe and d = demo_disk and quote = "\<lambda>x. x" and syn = "''bad''"]
  show ?thesis unfolding Let_def by (rule conjunct1)
qed

section \<open>Files that are not UTF-8\<close>

text \<open>
  The editor also opens a file that is not UTF-8: what it shows, and saves after any edit, has the replacement
  character for every byte outside UTF-8, whose value is lost.
\<close>

lemma latin1_front: "utf8_len (replicate n CHR 0xE9) = 0"
  by (cases n) (auto simp: utf8_front_def lead_len_def in_range_def list_all_iff numeral_eq_Suc take_replicate min_def)

lemma latin1_read: "go_utf8 (replicate n CHR 0xE9) = concat (replicate n [CHR 0xEF, CHR 0xBF, CHR 0xBD])"
proof (induction n)
  case (Suc n)
  have "utf8_len (CHR 0xE9 # replicate n CHR 0xE9) = 0" using latin1_front [of "Suc n"] by simp
  with Suc go_utf8.simps [of "CHR 0xE9 # replicate n CHR 0xE9"] show ?case by simp
qed simp

lemma not_utf8_opened:
  assumes "en_auth env" and "resolvePath env p = Inr t" and "d t = Inr (FileNode (replicate n CHR 0xE9))"
    and "fe_open fe t = None" and "n \<le> maxReadBytes"
  shows "fsRead (server_fetch (disk_env env fe s d) quote s) p =
    Inr (JObj [(''content'', JStr (concat (replicate n [CHR 0xEF, CHR 0xBF, CHR 0xBD]))), (''size'', JNum (Num (of_nat n)))])"
proof -
  have "\<not> isBinary (replicate n CHR 0xE9)" by (simp add: isBinary_def)
  with assms show ?thesis
    by (simp add: client_read handleReadFile_def open_file_def path_of_url Let_def done_simps latin1_read)
qed

text \<open>A file within the read limit can so become too large to save, which the limits are meant to exclude.\<close>

theorem read_but_too_large_to_save:
  assumes "en_auth env" and "resolvePath env p = Inr t" and "d t = Inr (FileNode (replicate n CHR 0xE9))"
    and "fe_open fe t = None" and "n \<le> maxReadBytes" and "maxWriteBytes < 3 * n"
  shows "\<exists>c. fsRead (server_fetch (disk_env env fe s d) quote s) p = Inr (JObj [(''content'', JStr c), (''size'', JNum (Num (of_nat n)))])
     \<and> fsWrite (server_fetch (disk_env env fe s d) quote s) p c = Inl (ApiError 413 ''content too large to save'')"
proof -
  let ?c = "concat (replicate n [CHR 0xEF, CHR 0xBF, CHR 0xBD])"
  have len: "length ?c = 3 * n" by (induction n) simp_all
  have "utf8_valid ''content too large to save''" by (rule utf8_ascii) (simp add: in_range_def)
  then have "client_done (s, writeError 413 ''content too large to save'', []) = Inl (ApiError 413 ''content too large to save'')"
    by (simp add: client_done_def writeError_def writeJSON_def res_ok_def parseError_def error_text_def go_utf8_id)
  moreover have "snd (handleWriteFile env fe (write_url p) (sent_json [(''content'', JStr ?c)]) d) = writeError 413 ''content too large to save''"
    using assms(2,6) len by (simp add: handleWriteFile_def path_of_url body_field_def sent_json_def)
  ultimately show ?thesis
    using not_utf8_opened [where d = d and t = t, OF assms(1-5)] client_write(1) [OF assms(1)] by auto
qed

text \<open>An upload follows a link in the workspace's folder to wherever it leads; every other operation refuses it.\<close>

theorem upload_follows_link:
  assumes "en_symlinks env (go_join dest ''l'') = Inr q" and "\<forall>es. d q \<noteq> Inr (DirNode es)" and "fe_open fe q = None"
    and "fe_copy fe q = None"
  shows "saveUpload env fe (''l'', data) dest d = (d(q := Inr (FileNode data)), True)"
proof -
  have "go_base (go_clean ''l'') = ''l''"
    by (simp add: go_base_def go_clean_def is_abs_def path_parts_def js_split.simps Let_def)
  with assms show ?thesis
    by (cases "d q") (auto simp: saveUpload_def upload_target_def Let_def split: node.split)
qed

end
