(* ===== verification/Auth.thy ===== *)
theory Auth
  imports Api
begin

text \<open>
  Logging in, \<^verbatim>\<open>src/internal/auth/auth.go\<close> and \<^verbatim>\<open>middleware.go\<close> with the handlers of \<^verbatim>\<open>src/internal/api/auth.go\<close>:
  session tokens with a sliding lifetime, and the count of failed logins per address. The whole server
  is then a function of a request with its cookie. Times are nanoseconds after the zero time;
  the hash function, the random bytes and the address are arguments. Every operation holds the
  mutex and reads the clock once.
\<close>

section \<open>The session store\<close>

definition SessionTTL :: nat where "SessionTTL = 24 * 3600 * 10 ^ 9"

definition banDuration :: nat where "banDuration = 3600 * 10 ^ 9"

definition maxFailures :: nat where "maxFailures = 10"

record failureRecord =
  fr_count :: nat
  fr_bannedUntil :: nat

record auth_store =
  au_hash :: string
  au_sessions :: "string \<rightharpoonup> nat"                \<comment> \<open>\<^verbatim>\<open>expiresAt\<close>\<close>
  au_failures :: "string \<rightharpoonup> failureRecord"

definition NewSessionStore :: "(string \<Rightarrow> string) \<Rightarrow> string \<Rightarrow> auth_store" where
  "NewSessionStore sha password =
     \<lparr>au_hash = sha password, au_sessions = (\<lambda>t. None), au_failures = (\<lambda>ip. None)\<rparr>"

definition CreateToken :: "nat \<Rightarrow> char list option \<Rightarrow> auth_store \<Rightarrow> auth_store \<times> string option" where
  "CreateToken now raw a =
     (case raw of
        None \<Rightarrow> (a, None)
      | Some r \<Rightarrow>
          let token = newID [] r
          in (a\<lparr>au_sessions := (au_sessions a)(token \<mapsto> now + SessionTTL)\<rparr>, Some token))"

definition Validate :: "nat \<Rightarrow> string \<Rightarrow> auth_store \<Rightarrow> auth_store \<times> bool" where
  "Validate now token a =
     (if token = [] then (a, False)
      else case au_sessions a token of
          None \<Rightarrow> (a\<lparr>au_sessions := (au_sessions a)(token := None)\<rparr>, False)
        | Some expiresAt \<Rightarrow>
            if expiresAt < now then (a\<lparr>au_sessions := (au_sessions a)(token := None)\<rparr>, False)
            else (a\<lparr>au_sessions := (au_sessions a)(token \<mapsto> now + SessionTTL)\<rparr>, True))"

definition Revoke :: "string \<Rightarrow> auth_store \<Rightarrow> auth_store" where
  "Revoke token a = a\<lparr>au_sessions := (au_sessions a)(token := None)\<rparr>"

text \<open>The result: the password was accepted, and the address was already banned.\<close>

definition Authenticate ::
  "(string \<Rightarrow> string) \<Rightarrow> nat \<Rightarrow> string \<Rightarrow> string \<Rightarrow> auth_store \<Rightarrow> auth_store \<times> bool \<times> bool" where
  "Authenticate sha now ip cand a =
     (let rec = au_failures a ip in
      if (case rec of None \<Rightarrow> False | Some f \<Rightarrow> now < fr_bannedUntil f) then (a, False, True)
      else if sha cand = au_hash a then (a\<lparr>au_failures := (au_failures a)(ip := None)\<rparr>, True, False)
      else
        let f = or_else rec \<lparr>fr_count = 0, fr_bannedUntil = 0\<rparr>;
            f1 = f\<lparr>fr_count := fr_count f + 1\<rparr>;
            f2 = (if maxFailures \<le> fr_count f1 then \<lparr>fr_count = 0, fr_bannedUntil = now + banDuration\<rparr> else f1)
        in (a\<lparr>au_failures := (au_failures a)(ip \<mapsto> f2)\<rparr>, False, False))"

definition purgeExpired :: "nat \<Rightarrow> auth_store \<Rightarrow> auth_store" where
  "purgeExpired now a =
     a\<lparr>au_sessions := (\<lambda>t. case au_sessions a t of None \<Rightarrow> None | Some e \<Rightarrow> if e < now then None else Some e),
       au_failures := (\<lambda>ip. case au_failures a ip of
          None \<Rightarrow> None | Some f \<Rightarrow> if fr_bannedUntil f < now then None else Some f)\<rparr>"

section \<open>Handlers\<close>

text \<open>The last component is the cookie that the answer sets: a token, or the empty one that deletes it.\<close>

type_synonym auth_served = "auth_store \<times> response \<times> string option"

definition status_ok :: response where
  "status_ok = writeJSON 200 (JObj [(''status'', JStr ''ok'')])"

definition handleLogin ::
  "server_env \<Rightarrow> (string \<Rightarrow> string) \<Rightarrow> nat \<Rightarrow> string \<Rightarrow> body_init option \<Rightarrow> auth_store \<Rightarrow> auth_served" where
  "handleLogin env sha now ip body a =
     (case body_field (decodeJSON env body) ''password'' of
        None \<Rightarrow> (a, writeError 400 ''invalid request body'', None)
      | Some pw \<Rightarrow>
          (case Authenticate sha now ip pw a of
             (a1, ok, banned) \<Rightarrow>
               if banned then (a1, writeError 429 ''too many failed attempts, try again later'', None)
               else if \<not> ok then (a1, writeError 401 ''invalid password'', None)
               else (case CreateToken now (en_random env) a1 of
                   (a2, None) \<Rightarrow> (a2, writeError 500 ''internal server error'', None)
                 | (a2, Some token) \<Rightarrow> (a2, status_ok, Some token))))"

definition handleLogout :: "string option \<Rightarrow> auth_store \<Rightarrow> auth_served" where
  "handleLogout cookie a = (case cookie of None \<Rightarrow> a | Some v \<Rightarrow> Revoke v a, status_ok, Some [])"

definition handleAuthCheck :: "auth_store \<Rightarrow> auth_served" where
  "handleAuthCheck a = (a, status_ok, None)"

text \<open>Whether the middleware lets a request through.\<close>

definition Middleware :: "nat \<Rightarrow> string option \<Rightarrow> auth_store \<Rightarrow> auth_store \<times> bool" where
  "Middleware now cookie a = (case cookie of None \<Rightarrow> (a, False) | Some v \<Rightarrow> Validate now v a)"

record http_request =
  hr_now :: nat
  hr_ip :: string
  hr_cookie :: "string option"
  hr_method :: string
  hr_url :: string
  hr_body :: "body_init option"
  hr_env :: server_env

text \<open>The middleware guards everything below \<^verbatim>\<open>/api/\<close> but the login.\<close>

definition guarded :: "http_request \<Rightarrow> bool" where
  "guarded r =
     (case route_of (hr_method r) (hr_url r) of
        Some (rt, args) \<Rightarrow> rt \<noteq> RLogin
      | None \<Rightarrow> prefix ''/api/'' (url_path (hr_url r)))"

definition serve_request ::
  "(string \<Rightarrow> string) \<Rightarrow> (string \<Rightarrow> string) \<Rightarrow> http_request \<Rightarrow> auth_store \<times> store
     \<Rightarrow> (auth_store \<times> store) \<times> response \<times> string option" where
  "serve_request sha quote r st =
     (let rt = map_option fst (route_of (hr_method r) (hr_url r)); env = hr_env r; (a, s) = st in
      if rt = Some RLogin then
        (case handleLogin env sha (hr_now r) (hr_ip r) (hr_body r) a of (a1, res, c) \<Rightarrow> ((a1, s), res, c))
      else
        let (a1, ok) = (if guarded r then Middleware (hr_now r) (hr_cookie r) a else (a, False)) in
        if ok \<and> rt = Some RLogout then (case handleLogout (hr_cookie r) a1 of (a2, res, c) \<Rightarrow> ((a2, s), res, c))
        else if ok \<and> rt = Some RAuthCheck then (case handleAuthCheck a1 of (a2, res, c) \<Rightarrow> ((a2, s), res, c))
        else (case serve (env\<lparr>en_auth := ok\<rparr>) quote (hr_method r) (hr_url r) (hr_body r) s of
            (s1, res, cmds) \<Rightarrow> ((a1, s1), res, None)))"

section \<open>Runs\<close>

datatype auth_event = Request http_request | Janitor nat

record auth_sys =
  ay_auth :: auth_store
  ay_store :: store
  ay_last :: "string \<rightharpoonup> nat"      \<comment> \<open>specification: when a token was issued or last used\<close>
  ay_clock :: nat

definition is_login :: "http_request \<Rightarrow> bool" where
  "is_login r = (map_option fst (route_of (hr_method r) (hr_url r)) = Some RLogin)"

definition is_logout :: "http_request \<Rightarrow> bool" where
  "is_logout r = (map_option fst (route_of (hr_method r) (hr_url r)) = Some RLogout)"

text \<open>
  The specification: a token is live for a day after a login issued it or a request used it, and until a
  logout. It knows the requests and the tokens issued, not the store.
\<close>

definition live_token :: "(string \<rightharpoonup> nat) \<Rightarrow> nat \<Rightarrow> string option \<Rightarrow> bool" where
  "live_token lu now cookie =
     (case cookie of
        None \<Rightarrow> False
      | Some t \<Rightarrow> t \<noteq> [] \<and> (case lu t of None \<Rightarrow> False | Some u \<Rightarrow> now \<le> u + SessionTTL))"

definition note_request :: "http_request \<Rightarrow> string option \<Rightarrow> (string \<rightharpoonup> nat) \<Rightarrow> (string \<rightharpoonup> nat)" where
  "note_request r issued lu =
     (if is_login r then (case issued of None \<Rightarrow> lu | Some t \<Rightarrow> lu(t \<mapsto> hr_now r))
      else if \<not> guarded r \<or> \<not> live_token lu (hr_now r) (hr_cookie r) then lu
      else if is_logout r then lu(the (hr_cookie r) := None)
      else lu(the (hr_cookie r) \<mapsto> hr_now r))"

fun auth_step :: "(string \<Rightarrow> string) \<Rightarrow> (string \<Rightarrow> string) \<Rightarrow> auth_sys \<Rightarrow> auth_event \<Rightarrow> auth_sys" where
  "auth_step sha quote y (Request r) =
     (case serve_request sha quote r (ay_auth y, ay_store y) of
        ((a, s), res, c) \<Rightarrow> \<lparr>ay_auth = a, ay_store = s, ay_last = note_request r c (ay_last y), ay_clock = hr_now r\<rparr>)"
| "auth_step sha quote y (Janitor now) = y\<lparr>ay_auth := purgeExpired now (ay_auth y), ay_clock := now\<rparr>"

definition auth_init :: "(string \<Rightarrow> string) \<Rightarrow> string \<Rightarrow> store \<Rightarrow> auth_sys" where
  "auth_init sha password s =
     \<lparr>ay_auth = NewSessionStore sha password, ay_store = s, ay_last = (\<lambda>t. None), ay_clock = 0\<rparr>"

definition auth_time :: "auth_event \<Rightarrow> nat" where
  "auth_time e = (case e of Request r \<Rightarrow> hr_now r | Janitor now \<Rightarrow> now)"

definition auth_ok :: "auth_sys \<Rightarrow> auth_event \<Rightarrow> bool" where
  "auth_ok y e = (ay_clock y \<le> auth_time e)"

section \<open>Tokens\<close>

lemma Authenticate_fields [simp]:
  "au_sessions (fst (Authenticate sha now ip pw a)) = au_sessions a" "au_hash (fst (Authenticate sha now ip pw a)) = au_hash a"
  by (simp_all add: Authenticate_def Let_def)

lemma login_cases:
  obtains (refused) "snd (snd (handleLogin env sha now ip b a)) = None"
      and "au_sessions (fst (handleLogin env sha now ip b a)) = au_sessions a"
  | (issued) t pw where "body_field (decodeJSON env b) ''password'' = Some pw" and "sha pw = au_hash a"
      and "snd (snd (handleLogin env sha now ip b a)) = Some t"
      and "au_sessions (fst (handleLogin env sha now ip b a)) = (au_sessions a)(t \<mapsto> now + SessionTTL)"
proof (cases "body_field (decodeJSON env b) ''password''")
  case None
  show ?thesis by (rule refused) (simp_all add: handleLogin_def None)
next
  case (Some pw)
  obtain a1 ok banned where au: "Authenticate sha now ip pw a = (a1, ok, banned)" by (metis prod.exhaust)
  then have same: "au_sessions a1 = au_sessions a" using Authenticate_fields(1) [of sha now ip pw a] by simp
  show ?thesis
  proof (cases "banned \<or> \<not> ok \<or> en_random env = None")
    case True
    show ?thesis by (rule refused) (use True same in \<open>auto simp: handleLogin_def Some au CreateToken_def Let_def split: option.split\<close>)
  next
    case False
    then obtain raw where raw: "en_random env = Some raw" by blast
    have "sha pw = au_hash a" using au False by (auto simp: Authenticate_def Let_def split: if_splits)
    then show ?thesis
      by (rule issued [OF Some, of "newID [] raw"])
        (use False same raw in \<open>simp_all add: handleLogin_def Some au CreateToken_def Let_def\<close>)
  qed
qed

text \<open>The store and the specification: a token that is not in the store is expired.\<close>

definition rel_at :: "nat \<Rightarrow> nat option \<Rightarrow> nat option \<Rightarrow> bool" where
  "rel_at n l x =
     (case l of None \<Rightarrow> x = None | Some u \<Rightarrow> x = Some (u + SessionTTL) \<or> x = None \<and> u + SessionTTL < n)"

definition tokens_rel :: "auth_sys \<Rightarrow> bool" where
  "tokens_rel y = (\<forall>t. rel_at (ay_clock y) (ay_last y t) (au_sessions (ay_auth y) t))"

lemma rel_at_later: "rel_at c l x \<Longrightarrow> c \<le> c' \<Longrightarrow> rel_at c' l x"
  by (auto simp: rel_at_def split: option.splits)

lemma rel_at_new [simp]: "rel_at c (Some u) (Some (u + SessionTTL))" "rel_at c None None"
  by (simp_all add: rel_at_def)

lemma Validate_live:
  assumes "tokens_rel y" and "ay_clock y \<le> now"
  shows "snd (Middleware now c (ay_auth y)) = live_token (ay_last y) now c"
proof (cases c)
  case (Some t)
  have "rel_at (ay_clock y) (ay_last y t) (au_sessions (ay_auth y) t)" using assms(1) by (simp add: tokens_rel_def)
  then show ?thesis using assms(2) Some by (auto simp: Middleware_def Validate_def live_token_def rel_at_def split: option.splits)
qed (simp add: Middleware_def live_token_def)

lemma Validate_sessions:
  "au_sessions (fst (Middleware now c a)) =
     (if snd (Middleware now c a) then (au_sessions a)(the c \<mapsto> now + SessionTTL)
      else (\<lambda>t. if c = Some t \<and> t \<noteq> [] then None else au_sessions a t))"
  by (auto simp: Middleware_def Validate_def split: option.split)

lemma Middleware_hash [simp]: "au_hash (fst (Middleware now c a)) = au_hash a" "au_failures (fst (Middleware now c a)) = au_failures a"
  by (simp_all add: Middleware_def Validate_def split: option.split)

text \<open>What a request leaves of the sessions.\<close>

lemma request_sessions:
  "au_sessions (fst (fst (serve_request sha quote r (a, s)))) =
     (if is_login r then au_sessions (fst (handleLogin (hr_env r) sha (hr_now r) (hr_ip r) (hr_body r) a))
      else if \<not> guarded r then au_sessions a
      else if is_logout r \<and> snd (Middleware (hr_now r) (hr_cookie r) a)
      then (au_sessions (fst (Middleware (hr_now r) (hr_cookie r) a)))(the (hr_cookie r) := None)
      else au_sessions (fst (Middleware (hr_now r) (hr_cookie r) a)))"
proof -
  have "hr_cookie r \<noteq> None" if "snd (Middleware (hr_now r) (hr_cookie r) a)"
    using that by (auto simp: Middleware_def split: option.splits)
  then show ?thesis
    by (auto simp: serve_request_def is_login_def is_logout_def handleLogout_def handleAuthCheck_def Revoke_def Let_def
        split: prod.splits option.splits if_splits)
qed

lemma login_answer:
  "is_login r \<Longrightarrow> snd (snd (serve_request sha quote r (a, s))) =
     snd (snd (handleLogin (hr_env r) sha (hr_now r) (hr_ip r) (hr_body r) a))"
  by (simp add: serve_request_def is_login_def Let_def split: prod.split)

lemma tokens_request:
  assumes "tokens_rel y" and "ay_clock y \<le> hr_now r"
  shows "tokens_rel (auth_step sha quote y (Request r))"
proof -
  let ?a = "ay_auth y" and ?lu = "ay_last y" and ?n = "hr_now r"
  let ?out = "serve_request sha quote r (?a, ay_store y)"
  have y': "auth_step sha quote y (Request r) = \<lparr>ay_auth = fst (fst ?out), ay_store = snd (fst ?out),
      ay_last = note_request r (snd (snd ?out)) ?lu, ay_clock = ?n\<rparr>" by (simp split: prod.split)
  have old: "rel_at ?n (?lu t) (au_sessions ?a t)" for t
    using assms rel_at_later unfolding tokens_rel_def by blast
  have "rel_at ?n (note_request r (snd (snd ?out)) ?lu t) (au_sessions (fst (fst ?out)) t)" for t
  proof (cases "is_login r")
    case True
    show ?thesis
      unfolding request_sessions login_answer [OF True]
      by (rule login_cases [where env = "hr_env r" and sha = sha and now = ?n and ip = "hr_ip r" and b = "hr_body r" and a = ?a])
        (use True old in \<open>simp_all add: note_request_def\<close>)
  next
    case False
    note ok = Validate_live [OF assms, where c = "hr_cookie r"]
    show ?thesis
    proof (cases "guarded r \<and> live_token ?lu ?n (hr_cookie r)")
      case True
      then show ?thesis unfolding request_sessions using False old ok by (auto simp: note_request_def Validate_sessions)
    next
      case dead: False
      have "rel_at ?n (?lu t) None" if "hr_cookie r = Some t" "t \<noteq> []" "guarded r"
        using dead that old [of t] by (auto simp: live_token_def rel_at_def split: option.splits)
      then show ?thesis unfolding request_sessions using False dead old ok by (auto simp: note_request_def Validate_sessions)
    qed
  qed
  then show ?thesis unfolding y' by (simp add: tokens_rel_def)
qed

lemma tokens_step:
  assumes "tokens_rel y" and "auth_ok y e"
  shows "tokens_rel (auth_step sha quote y e)"
proof (cases e)
  case (Request r)
  with assms tokens_request show ?thesis by (simp add: auth_ok_def auth_time_def del: auth_step.simps)
next
  case (Janitor now)
  have "rel_at now (ay_last y t) (case au_sessions (ay_auth y) t of None \<Rightarrow> None | Some x \<Rightarrow> if x < now then None else Some x)" for t
    using assms Janitor rel_at_later [of "ay_clock y" "ay_last y t" "au_sessions (ay_auth y) t" now]
    by (auto simp: tokens_rel_def auth_ok_def auth_time_def rel_at_def split: option.splits)
  with Janitor show ?thesis by (simp add: tokens_rel_def purgeExpired_def)
qed

lemma hash_step: "au_hash (ay_auth y) = h \<Longrightarrow> au_hash (ay_auth (auth_step sha quote y e)) = h"
proof (cases e)
  case (Request r)
  have "au_hash a1 = au_hash a" if "Authenticate sha now ip pw a = (a1, x)" for now ip pw a a1 x
    using Authenticate_fields(2) [of sha now ip pw a] that by simp
  then have "au_hash (fst (handleLogin env sha now ip b a)) = au_hash a" for env now ip b a
    by (auto simp: handleLogin_def CreateToken_def Let_def split: option.split prod.split)
  then have "au_hash x = au_hash a" if "handleLogin env sha now ip b a = (x, rest)" for env now ip b a x rest
    using that by (metis fst_conv)
  moreover assume "au_hash (ay_auth y) = h"
  ultimately have "au_hash (fst (fst (serve_request sha quote r (ay_auth y, ay_store y)))) = h"
    using Middleware_hash(1) [of "hr_now r" "hr_cookie r" "ay_auth y"]
    by (auto simp: serve_request_def handleLogout_def handleAuthCheck_def Revoke_def Let_def simp del: Middleware_hash
        split: prod.split option.split)
  with Request show ?thesis by (auto split: prod.split)
qed (simp add: purgeExpired_def)

interpretation hash_run: machine_inv "auth_step sha quote" auth_ok "\<lambda>y. au_hash (ay_auth y) = h"
  by unfold_locales (rule hash_step)

interpretation token_run: machine_inv "auth_step sha quote" auth_ok tokens_rel
  by unfold_locales (rule tokens_step)

text \<open>
  C11. A token is good for exactly a day since its last use. After any sequence of requests of any number of
  clients, and whenever the janitor runs: a request below \<^verbatim>\<open>/api/\<close> other than the login is served as by a
  server without passwords if its cookie is a token that a login issued, that was used or issued
  at most 24 hours ago and at no time later than that after its last use, and that was not logged
  out; otherwise it is answered 401 and changes neither workspaces nor layout. A token is issued
  only for the right password, and logging out ends it.
\<close>

theorem sessions_live_exactly:
  assumes "run_ok (auth_step sha quote) auth_ok (auth_init sha password st) (es @ [Request r])"
    and "y = run (auth_step sha quote) (auth_init sha password st) es"
  shows "let out = serve_request sha quote r (ay_auth y, ay_store y); ok = live_token (ay_last y) (hr_now r) (hr_cookie r);
       plain = serve ((hr_env r)\<lparr>en_auth := True\<rparr>) quote (hr_method r) (hr_url r) (hr_body r) (ay_store y) in
     (if is_login r then
        (case snd (snd out) of
           None \<Rightarrow> True
         | Some t \<Rightarrow> \<exists>pw. body_field (decodeJSON (hr_env r) (hr_body r)) ''password'' = Some pw \<and> sha pw = sha password)
      else if \<not> guarded r then True
      else if \<not> ok then fst (snd out) = writeError 401 ''authentication required'' \<and> snd (fst out) = ay_store y
      else if is_logout r then
        fst (snd out) = status_ok \<and> \<not> live_token (ay_last (auth_step sha quote y (Request r))) later (hr_cookie r)
      else if map_option fst (route_of (hr_method r) (hr_url r)) = Some RAuthCheck then fst (snd out) = status_ok
      else fst (snd out) = fst (snd plain) \<and> snd (fst out) = fst plain)"
proof -
  have "tokens_rel (auth_init sha password st)" by (simp add: tokens_rel_def auth_init_def NewSessionStore_def)
  then have rel: "tokens_rel y" and clock: "ay_clock y \<le> hr_now r"
    using token_run.run_inv [of _ sha quote es] assms by (auto simp: auth_ok_def auth_time_def)
  have hash: "au_hash (ay_auth y) = sha password"
    using hash_run.run_inv [of _ _ sha quote es] assms by (simp add: auth_init_def NewSessionStore_def)
  note ok = Validate_live [OF rel clock, where c = "hr_cookie r"]
  show ?thesis
  proof (cases "is_login r")
    case True
    show ?thesis
      unfolding Let_def login_answer [OF True]
      by (rule login_cases [where env = "hr_env r" and sha = sha and now = "hr_now r" and ip = "hr_ip r" and b = "hr_body r" and a = "ay_auth y"])
        (use True hash in \<open>auto\<close>)
  next
    case False
    then have rt: "map_option fst (route_of (hr_method r) (hr_url r)) \<noteq> Some RLogin" by (simp add: is_login_def)
    show ?thesis
    proof (cases "guarded r")
      case g: True
      obtain a1 where m: "Middleware (hr_now r) (hr_cookie r) (ay_auth y) = (a1, live_token (ay_last y) (hr_now r) (hr_cookie r))"
        using ok by (cases "Middleware (hr_now r) (hr_cookie r) (ay_auth y)") auto
      have refused: "serve ((hr_env r)\<lparr>en_auth := False\<rparr>) quote (hr_method r) (hr_url r) (hr_body r) s0 =
          (s0, writeError 401 ''authentication required'', [])" for s0
        using g rt by (auto simp: serve_def guarded_def split: option.splits)
      show ?thesis
        using False g rt m refused
        by (auto simp: serve_request_def is_logout_def note_request_def live_token_def handleLogout_def
            handleAuthCheck_def Let_def split: prod.splits option.splits)
    qed (use False in simp)
  qed
qed

text \<open>A login, and a second later a check with the token it issued.\<close>

definition demo_login :: http_request where
  "demo_login = \<lparr>hr_now = 1, hr_ip = ''10.0.0.2'', hr_cookie = None, hr_method = ''POST'', hr_url = ''/api/login'',
     hr_body = sent_json [(''password'', JStr ''pw'')], hr_env = demo_env\<rparr>"

definition demo_check :: http_request where
  "demo_check = \<lparr>hr_now = 10 ^ 9, hr_ip = ''10.0.0.2'', hr_cookie = Some ''01ab007f'', hr_method = ''GET'',
     hr_url = ''/api/auth/check'', hr_body = None, hr_env = demo_env\<rparr>"

lemma demo_routes:
  "is_login demo_login" "\<not> is_login demo_check" "\<not> is_logout demo_check" "guarded demo_check"
  "map_option fst (route_of (hr_method demo_check) (hr_url demo_check)) = Some RAuthCheck"
  by (simp_all add: is_login_def is_logout_def guarded_def demo_login_def demo_check_def reach_fixed routed)

lemma demo_logged_in:
  "serve_request (\<lambda>x. x) quote demo_login (NewSessionStore (\<lambda>x. x) ''pw'', s) =
     ((NewSessionStore (\<lambda>x. x) ''pw''\<lparr>au_sessions := [''01ab007f'' \<mapsto> 1 + SessionTTL]\<rparr>, s), status_ok, Some ''01ab007f'')"
proof -
  have "newID [] [CHR 0x01, CHR 0xAB, CHR 0x00, CHR 0x7F] = ''01ab007f''" by (simp add: newID_def digit_char_def)
  then show ?thesis
    by (simp add: serve_request_def demo_login_def reach_fixed routed handleLogin_def decodeJSON_def body_field_def
        sent_json_def Authenticate_def NewSessionStore_def CreateToken_def Let_def fun_upd_idem)
qed

theorem sessions_live_exactly_witness:
  "fst (snd (serve_request (\<lambda>x. x) (\<lambda>x. x) demo_check
     (ay_auth (run (auth_step (\<lambda>x. x) (\<lambda>x. x)) (auth_init (\<lambda>x. x) ''pw'' demo_store) [Request demo_login]), demo_store))) = status_ok"
proof -
  let ?y = "run (auth_step (\<lambda>x. x) (\<lambda>x. x)) (auth_init (\<lambda>x. x) ''pw'' demo_store) [Request demo_login]"
  have y: "?y = \<lparr>ay_auth = NewSessionStore (\<lambda>x. x) ''pw''\<lparr>au_sessions := [''01ab007f'' \<mapsto> 1 + SessionTTL]\<rparr>,
      ay_store = demo_store, ay_last = [''01ab007f'' \<mapsto> 1], ay_clock = 1\<rparr>"
    by (simp add: auth_init_def demo_logged_in note_request_def demo_routes) (simp add: demo_login_def)
  have ok: "run_ok (auth_step (\<lambda>x. x) (\<lambda>x. x)) auth_ok (auth_init (\<lambda>x. x) ''pw'' demo_store) ([Request demo_login] @ [Request demo_check])"
    unfolding run_ok_append y by (simp add: auth_ok_def auth_time_def auth_init_def demo_login_def demo_check_def)
  have "live_token (ay_last ?y) (hr_now demo_check) (hr_cookie demo_check)"
    unfolding y by (simp add: live_token_def demo_check_def SessionTTL_def)
  moreover have "ay_store ?y = demo_store" unfolding y by simp
  ultimately show ?thesis
    using sessions_live_exactly [OF ok refl] unfolding Let_def by (simp only: demo_routes if_True if_False simp_thms)
qed

section \<open>Guessing passwords\<close>

definition is_guess :: "string \<Rightarrow> auth_event \<Rightarrow> bool" where
  "is_guess ip e = (case e of Request r \<Rightarrow> is_login r \<and> hr_ip r = ip | Janitor now \<Rightarrow> False)"

definition purges :: "auth_event list \<Rightarrow> nat" where
  "purges es = length (filter (\<lambda>e. case e of Janitor now \<Rightarrow> True | _ \<Rightarrow> False) es)"

text \<open>The wrong passwords of an address that are compared with the right one, and answered 401.\<close>

fun guesses :: "(string \<Rightarrow> string) \<Rightarrow> (string \<Rightarrow> string) \<Rightarrow> string \<Rightarrow> auth_sys \<Rightarrow> auth_event list \<Rightarrow> nat" where
  "guesses sha quote ip y [] = 0"
| "guesses sha quote ip y (e # es) =
     (case e of
        Request r \<Rightarrow> if is_guess ip e \<and> res_status (fst (snd (serve_request sha quote r (ay_auth y, ay_store y)))) = 401 then 1 else 0
      | Janitor now \<Rightarrow> 0) + guesses sha quote ip (auth_step sha quote y e) es"

definition wrong_guess :: "(string \<Rightarrow> string) \<Rightarrow> string \<Rightarrow> string \<Rightarrow> auth_event \<Rightarrow> bool" where
  "wrong_guess sha password ip e =
     (case e of
        Janitor now \<Rightarrow> True
      | Request r \<Rightarrow>
          if is_guess ip e then
            (case body_field (decodeJSON (hr_env r) (hr_body r)) ''password'' of None \<Rightarrow> True | Some pw \<Rightarrow> sha pw \<noteq> sha password)
          else True)"

definition counts_ok :: "auth_store \<Rightarrow> bool" where
  "counts_ok a = (\<forall>ip f. au_failures a ip = Some f \<longrightarrow> fr_count f < maxFailures)"

text \<open>How many guesses an address has left until some time, if nothing is forgotten.\<close>

definition budget :: "nat \<Rightarrow> string \<Rightarrow> auth_store \<Rightarrow> nat" where
  "budget till ip a =
     (case au_failures a ip of
        None \<Rightarrow> maxFailures
      | Some f \<Rightarrow> if till \<le> fr_bannedUntil f then 0 else maxFailures - fr_count f)"

lemma budget_le: "budget till ip a \<le> maxFailures"
  by (simp add: budget_def split: option.split)

lemma request_failures:
  "au_failures (fst (fst (serve_request sha quote r (a, s)))) =
     (if is_login r then au_failures (fst (handleLogin (hr_env r) sha (hr_now r) (hr_ip r) (hr_body r) a)) else au_failures a)"
  by (auto simp: serve_request_def is_login_def handleLogout_def handleAuthCheck_def Revoke_def Let_def
      split: prod.splits option.splits if_splits dest!: arg_cong [where f = fst])

lemma login_served:
  "is_login r \<Longrightarrow> snd (serve_request sha quote r (a, s)) = snd (handleLogin (hr_env r) sha (hr_now r) (hr_ip r) (hr_body r) a)"
  by (simp add: serve_request_def is_login_def Let_def split: prod.split)

lemma login_failures:
  "au_failures (fst (handleLogin env sha now ip b a)) =
     (case body_field (decodeJSON env b) ''password'' of
        None \<Rightarrow> au_failures a | Some pw \<Rightarrow> au_failures (fst (Authenticate sha now ip pw a)))"
  "res_status (fst (snd (handleLogin env sha now ip b a))) = 401 \<longleftrightarrow>
     (\<exists>pw. body_field (decodeJSON env b) ''password'' = Some pw \<and> snd (Authenticate sha now ip pw a) = (False, False))"
  by (auto simp: handleLogin_def CreateToken_def status_ok_def writeError_def writeJSON_def Let_def
      split: option.splits prod.splits if_splits)

lemma other_address: "ip' \<noteq> ip \<Longrightarrow> au_failures (fst (Authenticate sha now ip' pw a)) ip = au_failures a ip"
  by (simp add: Authenticate_def Let_def)

lemma guess_cost:
  assumes "counts_ok a" and "now < till" and "till \<le> now + banDuration" and "sha pw \<noteq> au_hash a"
  shows "budget till ip (fst (Authenticate sha now ip pw a)) + (if snd (Authenticate sha now ip pw a) = (False, False) then 1 else 0)
    \<le> budget till ip a"
proof (cases "au_failures a ip")
  case None
  then show ?thesis using assms by (simp add: Authenticate_def budget_def Let_def maxFailures_def)
next
  case (Some f)
  then have c: "fr_count f < maxFailures" using assms(1) by (simp add: counts_ok_def)
  show ?thesis
  proof (cases "now < fr_bannedUntil f")
    case True
    then show ?thesis using Some by (simp add: Authenticate_def Let_def)
  next
    case False
    then have "\<not> till \<le> fr_bannedUntil f" using assms(2) by simp
    then show ?thesis using Some False c assms by (simp add: Authenticate_def budget_def Let_def maxFailures_def) arith
  qed
qed

lemma counts_step: "counts_ok (ay_auth y) \<Longrightarrow> counts_ok (ay_auth (auth_step sha quote y e))"
proof (cases e)
  case (Request r)
  assume c: "counts_ok (ay_auth y)"
  have "counts_ok (fst (Authenticate sha now ip pw (ay_auth y)))" for now ip pw
    using c by (auto simp: counts_ok_def Authenticate_def Let_def maxFailures_def or_else_def split: option.splits if_splits)
  then have "counts_ok (fst (fst (serve_request sha quote r (ay_auth y, ay_store y))))"
    using c unfolding counts_ok_def request_failures login_failures(1) by (simp split: option.split)
  with Request show ?thesis by (auto split: prod.split)
next
  case (Janitor now)
  assume "counts_ok (ay_auth y)"
  with Janitor show ?thesis by (auto simp: counts_ok_def purgeExpired_def split: option.splits if_splits)
qed

interpretation count_run: machine_inv "auth_step sha quote" auth_ok "\<lambda>y. counts_ok (ay_auth y)"
  by unfold_locales (rule counts_step)

lemma guesses_budget:
  assumes "counts_ok (ay_auth y)" and "au_hash (ay_auth y) = sha password" and "list_all (wrong_guess sha password ip) es"
    and "\<forall>e \<in> set es. start \<le> auth_time e \<and> auth_time e < start + banDuration"
  shows "guesses sha quote ip y es \<le> budget (start + banDuration) ip (ay_auth y) + maxFailures * purges es"
  using assms
proof (induction es arbitrary: y)
  case (Cons e es)
  let ?y = "auth_step sha quote y e" and ?till = "start + banDuration"
  have rest: "guesses sha quote ip ?y es \<le> budget ?till ip (ay_auth ?y) + maxFailures * purges es"
    using Cons.prems by (intro Cons.IH) (simp_all add: counts_step hash_step del: auth_step.simps)
  show ?case
  proof (cases e)
    case (Janitor now)
    have "guesses sha quote ip y (e # es) = guesses sha quote ip ?y es" by (simp add: Janitor)
    also have "\<dots> \<le> maxFailures + maxFailures * purges es" using rest budget_le [of ?till ip "ay_auth ?y"] by linarith
    finally show ?thesis by (simp add: Janitor purges_def)
  next
    case (Request r)
    let ?out = "serve_request sha quote r (ay_auth y, ay_store y)"
    have y': "ay_auth ?y = fst (fst ?out)" by (simp add: Request split: prod.split)
    have "budget ?till ip (fst (fst ?out)) + (if is_guess ip e \<and> res_status (fst (snd ?out)) = 401 then 1 else 0)
        \<le> budget ?till ip (ay_auth y)"
    proof (cases "is_login r")
      case False
      then show ?thesis by (simp add: Request is_guess_def budget_def request_failures)
    next
      case True
      let ?n = "hr_now r"
      note fl = login_failures [of "hr_env r" sha ?n "hr_ip r" "hr_body r" "ay_auth y"]
      show ?thesis
      proof (cases "body_field (decodeJSON (hr_env r) (hr_body r)) ''password''")
        case None
        then show ?thesis by (simp add: True budget_def request_failures login_served fl)
      next
        case (Some pw)
        show ?thesis
        proof (cases "hr_ip r = ip")
          case False
          then show ?thesis
            by (simp add: True Some Request is_guess_def budget_def request_failures fl other_address)
        next
          case ip: True
          have "sha pw \<noteq> au_hash (ay_auth y)"
            using Cons.prems(2,3) ip Some True Request by (simp add: wrong_guess_def is_guess_def)
          moreover have "?n < ?till" "?till \<le> ?n + banDuration"
            using Cons.prems(4) Request by (simp_all add: auth_time_def)
          ultimately show ?thesis
            using guess_cost [OF Cons.prems(1), of ?n ?till sha pw ip] ip True Some
            by (simp add: Request is_guess_def budget_def request_failures fl [unfolded ip] login_served)
        qed
      qed
    qed
    then show ?thesis using rest unfolding y' by (simp add: Request purges_def)
  qed
qed (simp add: purges_def)

text \<open>
  C33. Guessing is slow: within any hour, whatever else happens, an address that does not know the password has at
  most ten guesses compared with it, and ten more for every run of the janitor in that hour; all
  its other attempts are answered that it is banned.
\<close>

theorem guesses_bounded:
  assumes "run_ok (auth_step sha quote) auth_ok (auth_init sha password st) before"
    and "list_all (wrong_guess sha password ip) es"
    and "\<forall>e \<in> set es. start \<le> auth_time e \<and> auth_time e < start + banDuration"
  shows "guesses sha quote ip (run (auth_step sha quote) (auth_init sha password st) before) es \<le> maxFailures * (purges es + 1)"
proof -
  let ?y = "run (auth_step sha quote) (auth_init sha password st) before"
  have "counts_ok (ay_auth ?y)"
    using assms(1) by (intro count_run.run_inv) (simp_all add: auth_init_def NewSessionStore_def counts_ok_def)
  moreover have "au_hash (ay_auth ?y) = sha password"
    using assms(1) by (intro hash_run.run_inv) (simp_all add: auth_init_def NewSessionStore_def)
  ultimately have "guesses sha quote ip ?y es \<le> budget (start + banDuration) ip (ay_auth ?y) + maxFailures * purges es"
    using assms(2,3) by (rule guesses_budget)
  also have "\<dots> \<le> maxFailures + maxFailures * purges es" using budget_le by simp
  finally show ?thesis by simp
qed

text \<open>A wrong and a right password; the guess is made once.\<close>

definition demo_guess :: http_request where
  "demo_guess = demo_login\<lparr>hr_body := sent_json [(''password'', JStr ''no'')]\<rparr>"

lemma demo_guess_login: "is_login demo_guess"
  using demo_routes(1) by (simp add: is_login_def demo_guess_def)

theorem guesses_bounded_witness:
  "guesses (\<lambda>x. x) (\<lambda>x. x) ''10.0.0.2'' (auth_init (\<lambda>x. x) ''pw'' demo_store) (replicate 12 (Request demo_guess)) \<le> 10"
proof -
  have "wrong_guess (\<lambda>x. x) ''pw'' ''10.0.0.2'' (Request demo_guess)"
    using demo_guess_login
    by (simp add: wrong_guess_def is_guess_def demo_guess_def demo_login_def decodeJSON_def body_field_def sent_json_def)
  then have "list_all (wrong_guess (\<lambda>x. x) ''pw'' ''10.0.0.2'') (replicate 12 (Request demo_guess))"
    by (auto simp: list_all_iff)
  moreover have "\<forall>e \<in> set (replicate 12 (Request demo_guess)). 0 \<le> auth_time e \<and> auth_time e < 0 + banDuration"
    by (simp add: auth_time_def demo_guess_def demo_login_def banDuration_def)
  ultimately have "guesses (\<lambda>x. x) (\<lambda>x. x) ''10.0.0.2'' (run (auth_step (\<lambda>x. x) (\<lambda>x. x)) (auth_init (\<lambda>x. x) ''pw'' demo_store) [])
      (replicate 12 (Request demo_guess)) \<le> maxFailures * (purges (replicate 12 (Request demo_guess)) + 1)"
    by (intro guesses_bounded [where start = 0]) simp_all
  then show ?thesis by (simp only: run.simps purges_def) (simp add: maxFailures_def)
qed

text \<open>
  The janitor also forgets the count of an address that is not banned: the time until which it is banned is the
  zero time, which is past. Nine guesses between any two runs of the janitor are never punished.
\<close>

theorem janitor_forgets_failures:
  assumes "au_failures a ip = None" and "sha pw \<noteq> au_hash a" and "0 < now" and "n < maxFailures"
  shows "let b = ((\<lambda>c. fst (Authenticate sha now ip pw c)) ^^ n) a in
     snd (Authenticate sha now ip pw b) = (False, False) \<and> au_failures (purgeExpired now b) ip = None"
proof -
  have "(n = 0 \<and> au_failures (((\<lambda>c. fst (Authenticate sha now ip pw c)) ^^ n) a) ip = None)
      \<or> au_failures (((\<lambda>c. fst (Authenticate sha now ip pw c)) ^^ n) a) ip = Some \<lparr>fr_count = n, fr_bannedUntil = 0\<rparr>"
    using assms(4)
  proof (induction n)
    case (Suc n)
    have h: "au_hash (((\<lambda>c. fst (Authenticate sha now ip pw c)) ^^ n) a) = au_hash a" by (induction n) simp_all
    show ?case using Suc assms(2) h by (auto simp: Authenticate_def Let_def maxFailures_def or_else_def)
  qed (simp add: assms(1))
  moreover have "au_hash (((\<lambda>c. fst (Authenticate sha now ip pw c)) ^^ n) a) = au_hash a" by (induction n) simp_all
  ultimately show ?thesis using assms(2,3) by (auto simp: Authenticate_def purgeExpired_def Let_def)
qed

end
