(* ===== verification/PtyServer.thy ===== *)
theory PtyServer
  imports PtyBridge Api
begin

text \<open>
  The life of a terminal's socket on the server, \<^verbatim>\<open>src/internal/api/ws.go\<close>: the check of the origin, the upgrade,
  starting \<^verbatim>\<open>tmux attach\<close> in a PTY, and the cleanup that the two ends of the bridge share. One goroutine calls
  \<^verbatim>\<open>OnOpen\<close>, \<^verbatim>\<open>OnMessage\<close> and \<^verbatim>\<open>OnClose\<close>, in this order; another one runs the loop over the output;
  their steps interleave in any way.
\<close>

section \<open>The origin\<close>

text \<open>What \<^verbatim>\<open>url.Parse\<close> makes of an origin; the parser is an argument.\<close>

record parsed_url =
  pu_scheme :: string
  pu_host :: string
  pu_user :: bool
  pu_path :: string
  pu_query :: string
  pu_forceQuery :: bool
  pu_fragment :: string

text \<open>\<^verbatim>\<open>strings.EqualFold\<close> on ASCII.\<close>

definition fold_char :: "char \<Rightarrow> char" where
  "fold_char c = (if in_range 65 90 c then char_of ((of_char c :: nat) + 32) else c)"

definition equalFold :: "string \<Rightarrow> string \<Rightarrow> bool" where
  "equalFold a b = (map fold_char a = map fold_char b)"

definition wsOriginAllowed :: "(string \<Rightarrow> parsed_url option) \<Rightarrow> string list \<Rightarrow> string \<Rightarrow> bool" where
  "wsOriginAllowed parse origins hst =
     (case origins of
        [] \<Rightarrow> True
      | [o'] \<Rightarrow>
          if o' = [] then False
          else (case parse o' of
              None \<Rightarrow> False
            | Some u \<Rightarrow>
                if pu_host u = [] \<or> pu_user u \<or> pu_path u \<noteq> [] \<or> pu_query u \<noteq> [] \<or> pu_forceQuery u \<or> pu_fragment u \<noteq> []
                then False
                else if \<not> equalFold (pu_scheme u) ''http'' \<and> \<not> equalFold (pu_scheme u) ''https'' then False
                else equalFold (pu_host u) hst)
      | _ \<Rightarrow> False)"

section \<open>The socket\<close>

text \<open>\<open>sv_cleaned\<close> is the \<^verbatim>\<open>sync.Once\<close> of the cleanup; \<open>sv_closes\<close> are the calls of \<^verbatim>\<open>WriteClose\<close>.\<close>

record srv_conn =
  sv_session :: "string option"
  sv_opened :: bool
  sv_pty :: pty_conn
  sv_pipe :: pipe_state
  sv_piping :: bool
  sv_cleaned :: bool
  sv_started :: nat
  sv_killed :: nat
  sv_closes :: "(nat \<times> string) list"
  sv_ended :: bool

definition pty_absent :: pty_conn where
  "pty_absent = \<lparr>pc_open = False, pc_in = [], pc_size = (0, 0), pc_pongs = 0\<rparr>"

definition upgraded :: "string option \<Rightarrow> srv_conn" where
  "upgraded session = \<lparr>sv_session = session, sv_opened = False, sv_pty = pty_absent, sv_pipe = pipe_start, sv_piping = False,
     sv_cleaned = False, sv_started = 0, sv_killed = 0, sv_closes = [], sv_ended = False\<rparr>"

text \<open>A refusal, or the socket if the upgrade succeeds.\<close>

definition handleWS ::
  "(string \<Rightarrow> parsed_url option) \<Rightarrow> string list \<Rightarrow> string \<Rightarrow> bool \<Rightarrow> string \<Rightarrow> string \<Rightarrow> store \<Rightarrow> response + srv_conn option" where
  "handleWS parse origins hst up wsId tmId s =
     (if \<not> wsOriginAllowed parse origins hst then Inl (writeError 403 ''websocket origin not allowed'')
      else case GetTerminal wsId tmId s of
          Inl e \<Rightarrow> Inl (writeStoreError e)
        | Inr tm \<Rightarrow> Inr (if up then Some (upgraded (Some (tmuxSession tm))) else None))"

definition write_close :: "nat \<Rightarrow> string \<Rightarrow> srv_conn \<Rightarrow> srv_conn" where
  "write_close code reason c = c\<lparr>sv_closes := sv_closes c @ [(code, reason)]\<rparr>"

definition cleanup_close :: "srv_conn \<Rightarrow> srv_conn" where
  "cleanup_close c =
     (if sv_cleaned c then c
      else write_close 1000 [] (c\<lparr>sv_cleaned := True, sv_killed := Suc (sv_killed c)\<rparr>))"

definition OnOpen :: "bool \<Rightarrow> srv_conn \<Rightarrow> srv_conn" where
  "OnOpen pty_starts c0 =
     (let c = c0\<lparr>sv_opened := True\<rparr> in
      case sv_session c of
        None \<Rightarrow> write_close 1011 ''missing session'' c
      | Some name \<Rightarrow>
          if name = [] then write_close 1011 ''invalid session'' c
          else if \<not> pty_starts then write_close 1011 ''failed to start pty'' c
          else c\<lparr>sv_pty := pty_opened, sv_piping := True, sv_started := Suc (sv_started c)\<rparr>)"

text \<open>Writing to a PTY that was closed fails, which is ignored; a ping is answered all the same.\<close>

definition ServerMessage :: "json option \<Rightarrow> srv_conn \<Rightarrow> srv_conn" where
  "ServerMessage frm c =
     (let p = OnMessage frm (sv_pty c)
      in c\<lparr>sv_pty := (if sv_cleaned c then (sv_pty c)\<lparr>pc_pongs := pc_pongs p\<rparr> else p)\<rparr>)"

definition OnClose :: "srv_conn \<Rightarrow> srv_conn" where
  "OnClose c = (if pc_open (sv_pty c) then cleanup_close c else c)\<lparr>sv_ended := True\<rparr>"

text \<open>One turn of the loop: what \<^verbatim>\<open>Read\<close> returned, and whether a frame could be written.\<close>

definition PipeTurn :: "string \<Rightarrow> bool \<Rightarrow> bool \<Rightarrow> srv_conn \<Rightarrow> srv_conn" where
  "PipeTurn buf read_fails write_fails c =
     (if \<not> sv_piping c then c
      else
        let p = pipe_read buf (sv_pipe c); wrote = (pi_frames p \<noteq> pi_frames (sv_pipe c)) in
        if wrote \<and> write_fails then cleanup_close (c\<lparr>sv_piping := False\<rparr>)
        else if read_fails then cleanup_close (c\<lparr>sv_pipe := p, sv_piping := False\<rparr>)
        else c\<lparr>sv_pipe := p\<rparr>)"

datatype srv_event = SrvOpen bool | SrvMessage "json option" | SrvClosed | SrvPipe string bool bool

fun srv_step :: "srv_conn \<Rightarrow> srv_event \<Rightarrow> srv_conn" where
  "srv_step c (SrvOpen starts) = OnOpen starts c"
| "srv_step c (SrvMessage frm) = ServerMessage frm c"
| "srv_step c SrvClosed = OnClose c"
| "srv_step c (SrvPipe buf rfail wfail) = PipeTurn buf rfail wfail c"

text \<open>The order of the callbacks. What a turn of the loop finds is left open, also after the cleanup.\<close>

definition srv_ok :: "srv_conn \<Rightarrow> srv_event \<Rightarrow> bool" where
  "srv_ok c e =
     (case e of
        SrvOpen starts \<Rightarrow> \<not> sv_opened c \<and> \<not> sv_ended c
      | SrvMessage frm \<Rightarrow> sv_opened c \<and> \<not> sv_ended c
      | SrvClosed \<Rightarrow> sv_opened c \<and> \<not> sv_ended c
      | SrvPipe buf rfail wfail \<Rightarrow> sv_piping c)"

section \<open>The PTY is released\<close>

definition srv_inv :: "srv_conn \<Rightarrow> bool" where
  "srv_inv c =
     (sv_killed c = (if sv_cleaned c then 1 else 0)
      \<and> sv_started c = (if pc_open (sv_pty c) then 1 else 0)
      \<and> (sv_cleaned c \<longrightarrow> pc_open (sv_pty c)) \<and> (sv_piping c \<longrightarrow> pc_open (sv_pty c))
      \<and> (pc_open (sv_pty c) \<longrightarrow> sv_opened c)
      \<and> (pc_open (sv_pty c) \<longrightarrow> \<not> sv_cleaned c \<longrightarrow> sv_piping c \<and> \<not> sv_ended c)
      \<and> (if pc_open (sv_pty c) then sv_closes c = (if sv_cleaned c then [(1000, [])] else [])
         else if sv_opened c then \<exists>reason. sv_closes c = [(1011, reason)] else sv_closes c = []))"

lemma message_open: "pc_open (OnMessage frm p) = pc_open p"
  by (simp add: OnMessage_def split: option.split)

lemma srv_inv_step: "srv_inv c \<Longrightarrow> srv_ok c e \<Longrightarrow> srv_inv (srv_step c e)"
proof (cases e)
  case (SrvOpen starts)
  assume "srv_inv c" and "srv_ok c e"
  with SrvOpen show ?thesis
    by (cases "sv_session c") (auto simp: srv_inv_def srv_ok_def OnOpen_def write_close_def pty_opened_def Let_def split: if_splits)
next
  case (SrvMessage frm)
  assume "srv_inv c" and "srv_ok c e"
  with SrvMessage show ?thesis by (auto simp: srv_inv_def ServerMessage_def message_open Let_def)
next
  case SrvClosed
  assume "srv_inv c" and "srv_ok c e"
  with SrvClosed show ?thesis by (auto simp: srv_inv_def srv_ok_def OnClose_def cleanup_close_def write_close_def split: if_splits)
next
  case (SrvPipe buf rfail wfail)
  assume "srv_inv c" and "srv_ok c e"
  with SrvPipe show ?thesis
    by (auto simp: srv_inv_def srv_ok_def PipeTurn_def cleanup_close_def write_close_def Let_def split: if_splits)
qed

interpretation srv_run: machine_inv srv_step srv_ok srv_inv
  by unfold_locales (rule srv_inv_step)

text \<open>
  C40. A terminal's process on the server never outlives its use and is never taken away during it: a socket starts at
  most one; once the page has left or the shell has ended -- in whichever order and however often both
  are noticed -- it has been killed, once; until then its output is read and the socket is not closed.
  The server closes a socket once, with a code that the page takes for a clean end exactly when
  there was a shell that has ended; when none could be started the page will try again.
\<close>

theorem pty_released:
  assumes "handleWS parse origins hst up wsId tmId s = Inr (Some c0)"
    and "run_ok srv_step srv_ok c0 es" and "c = run srv_step c0 es"
  shows "sv_started c \<le> 1 \<and> sv_killed c \<le> sv_started c
    \<and> (if sv_started c = 1 \<and> (sv_ended c \<or> \<not> sv_piping c) then sv_killed c = 1 else True)
    \<and> (if sv_started c = 1 \<and> sv_killed c = 0 then sv_piping c \<and> \<not> sv_ended c \<and> sv_closes c = []
       else if sv_opened c then
         \<exists>code reason. sv_closes c = [(code, reason)] \<and> (isCleanClose code \<longleftrightarrow> sv_killed c = 1)
       else sv_closes c = [])"
proof -
  have "srv_inv c0"
    using assms(1) by (auto simp: handleWS_def upgraded_def pty_absent_def srv_inv_def split: if_splits sum.splits)
  then have inv: "srv_inv c" unfolding assms(3) using assms(2) by (rule srv_run.run_inv)
  have codes: "isCleanClose 1000" "\<not> isCleanClose 1011"
    by (simp_all add: isCleanClose_def CLOSE_NORMAL_def CLOSE_GOING_AWAY_def)
  show ?thesis using inv codes by (auto simp: srv_inv_def split: if_splits)
qed

text \<open>A shell that ends while the page is leaving.\<close>

definition demo_srv_events :: "srv_event list" where
  "demo_srv_events = [SrvOpen True, SrvPipe ''hi'' False False, SrvMessage (Some (input_msg ''exit'')), SrvClosed, SrvPipe [] True False]"

theorem pty_released_witness:
  "sv_killed (run srv_step (upgraded (Some ''s1'')) demo_srv_events) = 1
   \<and> pi_frames (sv_pipe (run srv_step (upgraded (Some ''s1'')) demo_srv_events)) = [''hi'']"
proof -
  have ws: "handleWS (\<lambda>x. None) [] ''h'' True ''w'' ''t1'' demo_store = Inr (Some (upgraded (Some ''s1'')))"
    by (simp add: handleWS_def wsOriginAllowed_def GetTerminal_def findWorkspaceLocked_def findTerminalLocked_def demo_ws_def)
  have "utf8_valid ''hi''" by (rule utf8_ascii) (simp add: in_range_def)
  then have read: "pipe_read ''hi'' pipe_start = \<lparr>pi_pending = [], pi_frames = [''hi'']\<rparr>"
    by (simp add: pipe_read_def pipe_start_def validUTF8Prefix_def ptyReadSize_def Let_def)
  have nothing: "pipe_read [] p = p" for p by (simp add: pipe_read_def)
  have ok: "run_ok srv_step srv_ok (upgraded (Some ''s1'')) demo_srv_events"
    and st: "sv_started (run srv_step (upgraded (Some ''s1'')) demo_srv_events) = 1"
      "\<not> sv_piping (run srv_step (upgraded (Some ''s1'')) demo_srv_events)"
      "pi_frames (sv_pipe (run srv_step (upgraded (Some ''s1'')) demo_srv_events)) = [''hi'']"
    by (simp_all add: demo_srv_events_def srv_ok_def OnOpen_def upgraded_def PipeTurn_def read nothing ServerMessage_def
        OnClose_def cleanup_close_def write_close_def message_open pty_opened_def Let_def) (simp_all add: pipe_read_def)
  from pty_released [OF ws ok refl] st show ?thesis by simp
qed

text \<open>A page of another host cannot reach a terminal with the user's cookie.\<close>

theorem foreign_origin_refused:
  assumes "parse org = Some u" and "\<not> equalFold (pu_host u) hst"
  shows "handleWS parse [org] hst up wsId tmId s = Inl (writeError 403 ''websocket origin not allowed'')"
  using assms by (simp add: handleWS_def wsOriginAllowed_def)

end
