(* ===== verification/SysStats.thy ===== *)
theory SysStats
  imports Api Stats
begin

text \<open>
  The statistics of the machine on Linux, \<^verbatim>\<open>src/internal/api/system.go\<close> and \<^verbatim>\<open>system_linux.go\<close>: reading the counters
  of \<^verbatim>\<open>/proc/stat\<close> and \<^verbatim>\<open>/proc/meminfo\<close> as words of 64 bits and turning them into percentages. The texts of the
  two files and what the Go runtime reports are arguments.
\<close>

section \<open>Reading the files\<close>

text \<open>\<^verbatim>\<open>strings.Fields\<close>, and the lines of a \<^verbatim>\<open>bufio.Scanner\<close>.\<close>

definition go_fields :: "string \<Rightarrow> string list" where
  "go_fields s = filter (\<lambda>x. x \<noteq> []) (js_split CHR '' '' (map (\<lambda>c. if is_ws c then CHR '' '' else c) s))"

definition go_lines :: "string \<Rightarrow> string list" where
  "go_lines s = js_split CHR 0x0A s"

text \<open>\<^verbatim>\<open>strconv.ParseUint\<close> of 64 bits in base 10: the value, and whether there was no error. Out of range the
  value is the greatest word.\<close>

definition ParseUint :: "string \<Rightarrow> 64 word \<times> bool" where
  "ParseUint s =
     (if s = [] \<or> \<not> list_all is_digit s then (0, False)
      else if int (dec_val s) < 2 ^ 64 then (word_of_int (int (dec_val s)), True) else (- 1, False))"

definition jiffies :: "string list \<Rightarrow> nat \<Rightarrow> 64 word" where
  "jiffies flds i =
     (if i = 9 \<or> i = 10 then 0
      else case ParseUint (flds ! i) of (v, ok) \<Rightarrow> if ok then v else 0)"

fun scan_stat :: "string list \<Rightarrow> (64 word \<times> 64 word) option" where
  "scan_stat [] = None"
| "scan_stat (l # ls) =
     (if \<not> prefix ''cpu '' l then scan_stat ls
      else let flds = go_fields l in
        if length flds < 5 then None
        else Some (sum_list (map (jiffies flds) [1 ..< length flds]),
               fst (ParseUint (flds ! 4)) + (if length flds > 5 then fst (ParseUint (flds ! 5)) else 0)))"

text \<open>\<open>None\<close>: the file cannot be opened.\<close>

definition readProcStat :: "string option \<Rightarrow> (64 word \<times> 64 word) option" where
  "readProcStat file = (case file of None \<Rightarrow> None | Some text \<Rightarrow> scan_stat (go_lines text))"

record cpu_state =
  lastCPUTotal :: "64 word"
  lastCPUIdle :: "64 word"

definition cpu_percent :: "string option \<Rightarrow> cpu_state \<Rightarrow> cpu_state \<times> rat" where
  "cpu_percent file st =
     (case readProcStat file of
        None \<Rightarrow> (st, 0)
      | Some (tot, idle) \<Rightarrow>
          let st' = \<lparr>lastCPUTotal = tot, lastCPUIdle = idle\<rparr>;
              deltaTotal = tot - lastCPUTotal st;
              deltaIdle = idle - lastCPUIdle st
          in if lastCPUTotal st = 0 \<or> tot \<le> lastCPUTotal st then (st', 0)
             else if deltaIdle \<ge> deltaTotal then (st', 0)
             else (st', of_int (uint (deltaTotal - deltaIdle)) / of_int (uint deltaTotal) * 100))"

text \<open>The last line of a kind counts.\<close>

fun scan_memory :: "string list \<Rightarrow> 64 word option \<times> 64 word option \<Rightarrow> 64 word option \<times> 64 word option" where
  "scan_memory [] m = m"
| "scan_memory (l # ls) m =
     (let flds = go_fields l in
      if length flds < 2 then scan_memory ls m
      else case ParseUint (flds ! 1) of
          (kb, ok) \<Rightarrow>
            if \<not> ok then scan_memory ls m
            else if flds ! 0 = ''MemTotal:'' then scan_memory ls (Some (kb * 1024), snd m)
            else if flds ! 0 = ''MemAvailable:'' then scan_memory ls (fst m, Some (kb * 1024))
            else scan_memory ls m)"

definition systemMemory :: "string option \<Rightarrow> 64 word \<times> 64 word" where
  "systemMemory file =
     (case file of
        None \<Rightarrow> (0, 0)
      | Some text \<Rightarrow>
          (case scan_memory (go_lines text) (None, None) of
             (None, _) \<Rightarrow> (0, 0)
           | (Some memTotal, Some memAvailable) \<Rightarrow>
               if memAvailable \<le> memTotal then (memTotal, memTotal - memAvailable) else (memTotal, 0)
           | (Some memTotal, None) \<Rightarrow> (memTotal, 0)))"

section \<open>The answer\<close>

record go_runtime =
  rt_sys :: "64 word"
  rt_heapAlloc :: "64 word"
  rt_stackInuse :: "64 word"
  rt_goroutines :: nat
  rt_uptime :: rat
  rt_os :: string
  rt_arch :: string
  rt_numCPU :: nat

definition word_num :: "64 word \<Rightarrow> json" where
  "word_num w = JNum (Num (of_int (uint w)))"

definition handleSystemStats ::
  "string option \<Rightarrow> string option \<Rightarrow> go_runtime \<Rightarrow> cpu_state \<Rightarrow> cpu_state \<times> response" where
  "handleSystemStats stat_file mem_file rt st =
     (let (tot, used) = systemMemory mem_file;
          memTotal = (if tot = 0 then rt_sys rt else tot);
          memUsed = (if tot = 0 then rt_heapAlloc rt + rt_stackInuse rt else used);
          memPercent = (if memTotal > 0 then of_int (uint memUsed) / of_int (uint memTotal) * 100 else 0);
          (st', cpu) = cpu_percent stat_file st
      in (st', writeJSON 200 (JObj [(''cpuPercent'', JNum (Num cpu)), (''memTotalBytes'', word_num memTotal),
           (''memUsedBytes'', word_num memUsed), (''memPercent'', JNum (Num memPercent)),
           (''numGoroutine'', JNum (Num (of_nat (rt_goroutines rt)))), (''goHeapAllocBytes'', word_num (rt_heapAlloc rt)),
           (''uptimeSeconds'', JNum (Num (rt_uptime rt))), (''os'', JStr (rt_os rt)), (''arch'', JStr (rt_arch rt)),
           (''numCpu'', JNum (Num (of_nat (rt_numCPU rt))))])))"

section \<open>Percentages\<close>

lemma ratio_range:
  assumes "a \<le> b" and "0 < (b :: 64 word)"
  shows "0 \<le> (of_int (uint a) / of_int (uint b) * 100 :: rat)" and "of_int (uint a) / of_int (uint b) * 100 \<le> (100 :: rat)"
proof -
  have "0 < uint b" "uint a \<le> uint b" "0 \<le> uint a" using assms by (simp_all add: word_less_def word_le_def)
  then have "(0 :: rat) < of_int (uint b)" "(of_int (uint a) :: rat) \<le> of_int (uint b)" "(0 :: rat) \<le> of_int (uint a)"
    by (simp_all del: of_int_uint)
  then show "0 \<le> (of_int (uint a) / of_int (uint b) * 100 :: rat)" and "of_int (uint a) / of_int (uint b) * 100 \<le> (100 :: rat)"
    by (simp_all add: divide_le_eq del: of_int_uint)
qed

lemma memory_range: "snd (systemMemory file) \<le> fst (systemMemory file)"
proof -
  have "a - b \<le> a" if "b \<le> a" for a b :: "64 word"
    using that by (rule word_sub_le)
  then show ?thesis by (auto simp: systemMemory_def split: option.split prod.split)
qed

lemma cpu_range: "0 \<le> snd (cpu_percent file st) \<and> snd (cpu_percent file st) \<le> 100"
proof (cases "readProcStat file")
  case (Some x)
  obtain tot idle where x: "x = (tot, idle)" by (cases x)
  let ?dt = "tot - lastCPUTotal st" and ?di = "idle - lastCPUIdle st"
  show ?thesis
  proof (cases "lastCPUTotal st = 0 \<or> tot \<le> lastCPUTotal st \<or> ?di \<ge> ?dt")
    case True
    then show ?thesis by (auto simp: cpu_percent_def Some x Let_def)
  next
    case False
    then have "?di < ?dt" by (simp only: de_Morgan_disj not_le)
    then have "?dt - ?di \<le> ?dt" "0 < ?dt" by (simp_all add: word_sub_le, metis word_gt_0 word_not_simps(1))
    from ratio_range [OF this] False show ?thesis by (simp add: cpu_percent_def Some x Let_def)
  qed
qed (simp add: cpu_percent_def)

text \<open>What the dialog makes of the answer: the casts of \<^verbatim>\<open>getSystemStats\<close>.\<close>

definition read_num :: "json \<Rightarrow> string \<Rightarrow> rat" where
  "read_num v k = (case get_prop v k of Some (JNum (Num q)) \<Rightarrow> q | _ \<Rightarrow> 0)"

definition read_text :: "json \<Rightarrow> string \<Rightarrow> string" where
  "read_text v k = (case get_prop v k of Some (JStr s) \<Rightarrow> s | _ \<Rightarrow> [])"

definition read_stats :: "json \<Rightarrow> SystemStats" where
  "read_stats v =
     \<lparr>cpuPercent = read_num v ''cpuPercent'', memTotalBytes = nat \<lfloor>read_num v ''memTotalBytes''\<rfloor>,
      memUsedBytes = nat \<lfloor>read_num v ''memUsedBytes''\<rfloor>, memPercent = read_num v ''memPercent'',
      numGoroutine = nat \<lfloor>read_num v ''numGoroutine''\<rfloor>, goHeapAllocBytes = nat \<lfloor>read_num v ''goHeapAllocBytes''\<rfloor>,
      uptimeSeconds = read_num v ''uptimeSeconds'', stats_os = read_text v ''os'', stats_arch = read_text v ''arch'',
      numCpu = nat \<lfloor>read_num v ''numCpu''\<rfloor>\<rparr>"

text \<open>
  Whatever the counters are -- also when they wrap around, go backwards or cannot be read -- the dialog is given
  percentages from 0 to 100, and a memory in use that is at most the totalal. (The runtime's numbers,
  which replace the memory of the machine when that is unknown, are ordered as it documents.)
\<close>

theorem stats_in_range:
  assumes "rt_heapAlloc rt + rt_stackInuse rt \<le> rt_sys rt"
  shows "\<exists>v. res_body (snd (handleSystemStats stat_file mem_file rt st)) = AsJson v
    \<and> 0 \<le> cpuPercent (read_stats v) \<and> cpuPercent (read_stats v) \<le> 100
    \<and> 0 \<le> memPercent (read_stats v) \<and> memPercent (read_stats v) \<le> 100
    \<and> memUsedBytes (read_stats v) \<le> memTotalBytes (read_stats v)"
proof -
  obtain tot used where m: "systemMemory mem_file = (tot, used)" by (cases "systemMemory mem_file")
  obtain st' cpu where c: "cpu_percent stat_file st = (st', cpu)" by (cases "cpu_percent stat_file st")
  let ?T = "if tot = 0 then rt_sys rt else tot" and ?U = "if tot = 0 then rt_heapAlloc rt + rt_stackInuse rt else used"
  have le: "?U \<le> ?T" using assms memory_range [of mem_file] m by simp
  have cpu: "0 \<le> cpu" "cpu \<le> 100" using cpu_range [of stat_file st] c by simp_all
  have pct: "0 \<le> (if ?T > 0 then of_int (uint ?U) / of_int (uint ?T) * 100 else (0 :: rat))"
    "(if ?T > 0 then of_int (uint ?U) / of_int (uint ?T) * 100 else (0 :: rat)) \<le> 100"
    using ratio_range [OF le] by (simp_all del: of_int_uint)
  have mem: "nat (uint ?U) \<le> nat (uint ?T)" using le by (simp only: word_le_def nat_mono)
  let ?v = "JObj [(''cpuPercent'', JNum (Num cpu)), (''memTotalBytes'', word_num ?T),
      (''memUsedBytes'', word_num ?U),
      (''memPercent'', JNum (Num (if ?T > 0 then of_int (uint ?U) / of_int (uint ?T) * 100 else 0))),
      (''numGoroutine'', JNum (Num (of_nat (rt_goroutines rt)))), (''goHeapAllocBytes'', word_num (rt_heapAlloc rt)),
      (''uptimeSeconds'', JNum (Num (rt_uptime rt))), (''os'', JStr (rt_os rt)), (''arch'', JStr (rt_arch rt)),
      (''numCpu'', JNum (Num (of_nat (rt_numCPU rt))))]"
  have v: "res_body (snd (handleSystemStats stat_file mem_file rt st)) = AsJson ?v"
    by (simp only: handleSystemStats_def m c Let_def writeJSON_def split snd_conv fst_conv response.select_convs)
  have n: "read_num ?v ''cpuPercent'' = cpu" "read_num ?v ''memTotalBytes'' = of_int (uint ?T)"
    "read_num ?v ''memUsedBytes'' = of_int (uint ?U)"
    "read_num ?v ''memPercent'' = (if ?T > 0 then of_int (uint ?U) / of_int (uint ?T) * 100 else 0)"
    by (simp_all add: read_num_def word_num_def del: of_int_uint)
  show ?thesis
    by (intro exI [of _ ?v] conjI v;
      unfold read_stats_def SystemStats.select_convs n floor_of_int; rule cpu(1) cpu(2) pct mem)
qed

lemma stats_in_range_witness:
  "\<exists>v. res_body (snd (handleSystemStats (Some ''cpu  30 0 20 40 10'') None
        \<lparr>rt_sys = 8, rt_heapAlloc = 3, rt_stackInuse = 2, rt_goroutines = 5, rt_uptime = 1, rt_os = ''linux'',
         rt_arch = ''amd64'', rt_numCPU = 4\<rparr>
        \<lparr>lastCPUTotal = 60, lastCPUIdle = 30\<rparr>)) = AsJson v
    \<and> 0 \<le> cpuPercent (read_stats v) \<and> cpuPercent (read_stats v) \<le> 100
    \<and> 0 \<le> memPercent (read_stats v) \<and> memPercent (read_stats v) \<le> 100
    \<and> memUsedBytes (read_stats v) \<le> memTotalBytes (read_stats v)"
  by (rule stats_in_range) simp

end
